(* ===== verification/BPF_Prelude.thy ===== *)
theory BPF_Prelude
  imports Main "HOL-Library.Word" "HOL-Library.AList"
begin

text \<open>
  Shared vocabulary of the development: the machine integers of the BPF programs, the
  BPF map helpers, and the interface every BPF map keeps to.

  The helpers \<open>bpf_map_lookup_elem\<close>, \<open>bpf_map_update_elem\<close> and
  \<open>bpf_map_delete_elem\<close> are the runtime library of a BPF program. A hash map is an
  association list with its \<open>max_entries\<close> as a capacity; an update returns 0 and stores,
  or returns a negative error and leaves the map as it was. An error other than
  a full map (an allocation failure, a contended bucket) is decided by the kernel and is
  an argument of the model. An LRU hash map drops entries of the kernel's choice to make
  room, also an argument.
\<close>

section \<open>Machine integers\<close>

text \<open>
  Signed and unsigned C integers of one width share a word type; comparisons and shifts
  say which reading they use (\<open>\<le>\<close> against \<open>\<le>s\<close>). Arithmetic wraps, as BPF's does.
\<close>

type_synonym u8 = "8 word"
type_synonym u16 = "16 word"
type_synonym u32 = "32 word"
type_synonym u64 = "64 word"
type_synonym s32 = "32 word"
type_synonym s64 = "64 word"

named_theorems bpf_map_simps \<open>rewrite rules of the BPF map helpers\<close>

lemma sint_of_nat_small:
  "n < 2 ^ 63 \<Longrightarrow> sint (of_nat n :: u64) = int n"
  by (simp add: signed_of_nat signed_take_bit_int_eq_self)

lemma of_nat_word_nonzero:
  "0 < n \<Longrightarrow> n < 2 ^ LENGTH('a) \<Longrightarrow> (of_nat n :: 'a::len word) \<noteq> 0"
  by (metis mod_less not_less_zero unat_0 unat_of_nat)

lemma sint_wrap_small:
  "- (2 ^ 63) \<le> i \<Longrightarrow> i < 2 ^ 63 \<Longrightarrow> sint (word_of_int i :: s64) = i"
  by (simp add: signed_of_int signed_take_bit_int_eq_self)

lemma sint_dec:
  assumes "- (2 ^ 63) < sint (x :: s64)"
  shows "sint (x - 1) = sint x - 1"
proof -
  have "x - 1 = word_of_int (sint x - 1)" by (simp add: wi_hom_sub [symmetric])
  moreover have "sint (word_of_int (sint x - 1) :: s64) = sint x - 1"
    using assms sint_ge [of x] sint_lt [of x] by (intro sint_wrap_small) simp_all
  ultimately show ?thesis by (simp only:)
qed

lemma sint_inc:
  assumes "sint (x :: s64) < 2 ^ 63 - 1"
  shows "sint (x + 1) = sint x + 1"
proof -
  have "x + 1 = word_of_int (sint x + 1)" by (simp add: wi_hom_add [symmetric])
  moreover have "sint (word_of_int (sint x + 1) :: s64) = sint x + 1"
    using assms sint_ge [of x] sint_lt [of x] by (intro sint_wrap_small) simp_all
  ultimately show ?thesis by (simp only:)
qed

definition INT64_MAX :: s64 where
  "INT64_MAX = 9223372036854775807"

definition ENOENT :: s32 where
  "ENOENT = 2"

definition E2BIG :: s32 where
  "E2BIG = 7"

section \<open>BPF hash maps\<close>

type_synonym ('k, 'v) hmap = "('k \<times> 'v) list"

definition hmap_ok :: "nat \<Rightarrow> ('k, 'v) hmap \<Rightarrow> bool" where
  "hmap_ok cap m \<longleftrightarrow> distinct (map fst m) \<and> length m \<le> cap"

text \<open>\<open>err\<close> is the error the kernel raises for this call, 0 for none.\<close>

definition hmap_update :: "nat \<Rightarrow> s32 \<Rightarrow> 'k \<Rightarrow> 'v \<Rightarrow> ('k, 'v) hmap \<Rightarrow> s32 \<times> ('k, 'v) hmap" where
  "hmap_update cap err k v m =
     (if err \<noteq> 0 then (err, m)
      else if map_of m k = None \<and> cap \<le> length m then (- E2BIG, m)
      else (0, AList.update k v m))"

definition hmap_delete :: "'k \<Rightarrow> ('k, 'v) hmap \<Rightarrow> s32 \<times> ('k, 'v) hmap" where
  "hmap_delete k m =
     (case map_of m k of None \<Rightarrow> (- ENOENT, m) | Some _ \<Rightarrow> (0, AList.delete k m))"

text \<open>A store through the pointer a lookup returned: the value changes in place.\<close>

definition hmap_modify :: "'k \<Rightarrow> ('v \<Rightarrow> 'v) \<Rightarrow> ('k, 'v) hmap \<Rightarrow> ('k, 'v) hmap" where
  "hmap_modify k f m = (case map_of m k of None \<Rightarrow> m | Some v \<Rightarrow> AList.update k (f v) m)"

text \<open>An LRU hash map: the kernel drops \<open>victims\<close> before it stores.\<close>

definition lru_update :: "'k list \<Rightarrow> s32 \<Rightarrow> 'k \<Rightarrow> 'v \<Rightarrow> ('k, 'v) hmap \<Rightarrow> s32 \<times> ('k, 'v) hmap" where
  "lru_update victims err k v m =
     (if err \<noteq> 0 then (err, m)
      else (0, AList.update k v (filter (\<lambda>(x, _). x \<notin> set victims) m)))"

lemma map_of_AList_update [bpf_map_simps]:
  "map_of (AList.update k v m) x = (if x = k then Some v else map_of m x)"
  by (simp add: update_conv')

lemma map_of_AList_delete [bpf_map_simps]:
  "map_of (AList.delete k m) x = (if x = k then None else map_of m x)"
  by (simp add: delete_conv')

lemma length_AList_update:
  "length (AList.update k v m) = (if map_of m k = None then Suc (length m) else length m)"
  by (induction m) auto

lemma length_AList_delete:
  "distinct (map fst m) \<Longrightarrow>
   length (AList.delete k m) = (if map_of m k = None then length m else length m - 1)"
proof (induction m)
  case Nil
  then show ?case by simp
next
  case (Cons a m)
  show ?case
  proof (cases "fst a = k")
    case True
    with Cons.prems show ?thesis by (cases a) auto
  next
    case False
    have "map_of m k \<noteq> None \<Longrightarrow> 0 < length m" by (cases m) auto
    with False Cons show ?thesis by (cases a) auto
  qed
qed

lemma length_AList_delete_le: "length (AList.delete k m) \<le> length m"
  by (simp add: AList.delete_eq)

lemma map_of_filter_fst:
  "map_of (filter (\<lambda>(x, _). P x) m) k = (if P k then map_of m k else None)"
  by (induction m) (auto split: if_splits)

lemma hmap_modify_lookup [bpf_map_simps]:
  "map_of (hmap_modify k f m) x = (if x = k then map_option f (map_of m k) else map_of m x)"
  by (auto simp: hmap_modify_def bpf_map_simps split: option.splits)

lemma hmap_modify_twice: "hmap_modify a g (hmap_modify a h m) = hmap_modify a (\<lambda>v. g (h v)) m"
  by (auto simp: hmap_modify_def bpf_map_simps split: option.split)

lemma hmap_modify_length [simp]: "length (hmap_modify k f m) = length m"
  by (auto simp: hmap_modify_def length_AList_update split: option.splits)

lemma hmap_modify_keys [simp]: "map fst (hmap_modify k f m) = map fst m"
proof (cases "map_of m k")
  case None
  then show ?thesis by (simp add: hmap_modify_def)
next
  case (Some v)
  then have "k \<in> fst ` set m" by (force dest: map_of_SomeD)
  with Some show ?thesis by (simp add: hmap_modify_def update_keys)
qed

lemma hmap_modify_ok [simp]: "hmap_ok cap (hmap_modify k f m) = hmap_ok cap m"
  by (simp add: hmap_ok_def)

section \<open>Counting the entries of a map\<close>

definition hmap_count :: "('v \<Rightarrow> bool) \<Rightarrow> ('k, 'v) hmap \<Rightarrow> nat" where
  "hmap_count P m = length (filter (P \<circ> snd) m)"

lemma hmap_count_Nil [simp]: "hmap_count P [] = 0"
  by (simp add: hmap_count_def)

lemma hmap_count_Cons [simp]:
  "hmap_count P (x # m) = (if P (snd x) then Suc (hmap_count P m) else hmap_count P m)"
  by (simp add: hmap_count_def)

lemma hmap_count_True: "hmap_count (\<lambda>_. True) m = length m"
  by (simp add: hmap_count_def o_def)

lemma hmap_count_insert:
  "map_of m k = None \<Longrightarrow>
   hmap_count P (AList.update k v m) = hmap_count P m + (if P v then 1 else 0)"
  by (induction m) (auto split: if_splits)

lemma hmap_count_replace:
  "distinct (map fst m) \<Longrightarrow> map_of m k = Some w \<Longrightarrow>
   hmap_count P (AList.update k v m) + (if P w then 1 else 0) = hmap_count P m + (if P v then 1 else 0)"
proof (induction m)
  case (Cons a m)
  then show ?case by (cases a) (auto split: if_splits)
qed simp

lemma hmap_count_delete:
  "distinct (map fst m) \<Longrightarrow> map_of m k = Some w \<Longrightarrow>
   hmap_count P (AList.delete k m) + (if P w then 1 else 0) = hmap_count P m"
proof (induction m)
  case (Cons a m)
  show ?case
  proof (cases "fst a = k")
    case True
    with Cons.prems have "AList.delete k m = m" by auto
    with True Cons.prems show ?thesis by (cases a) auto
  next
    case False
    with Cons show ?thesis by (cases a) auto
  qed
qed simp

lemma hmap_count_modify:
  "distinct (map fst m) \<Longrightarrow> (\<And>v. map_of m k = Some v \<Longrightarrow> P (f v) = P v) \<Longrightarrow>
   hmap_count P (hmap_modify k f m) = hmap_count P m"
proof (cases "map_of m k")
  case (Some v)
  assume "distinct (map fst m)" and "\<And>v. map_of m k = Some v \<Longrightarrow> P (f v) = P v"
  with Some hmap_count_replace [of m k v P "f v"] show ?thesis
    by (simp add: hmap_modify_def)
qed (simp add: hmap_modify_def)

section \<open>The interface of a BPF map\<close>

text \<open>
  What a program may rely on, whatever the type of the map: a store that returned 0 is
  visible, a failed store changes nothing, a store never brings back or changes another
  entry, and a delete reports whether the key was there.
\<close>

locale bpf_map =
  fixes lookup :: "'m \<Rightarrow> 'k \<Rightarrow> 'v option"
    and store :: "'k \<Rightarrow> 'v \<Rightarrow> 'm \<Rightarrow> s32 \<times> 'm"
    and del :: "'k \<Rightarrow> 'm \<Rightarrow> s32 \<times> 'm"
  assumes store_hit: "fst (store k v m) = 0 \<Longrightarrow> lookup (snd (store k v m)) k = Some v"
    and store_fail: "fst (store k v m) \<noteq> 0 \<Longrightarrow> snd (store k v m) = m"
    and store_other: "x \<noteq> k \<Longrightarrow> lookup (snd (store k v m)) x = Some w \<Longrightarrow> lookup m x = Some w"
    and del_gone: "lookup (snd (del k m)) k = None"
    and del_other: "x \<noteq> k \<Longrightarrow> lookup (snd (del k m)) x = lookup m x"
    and del_code: "fst (del k m) = - ENOENT \<longleftrightarrow> lookup m k = None"
begin

lemma store_then_del:
  "fst (store k v m) = 0 \<Longrightarrow> fst (del k (snd (store k v m))) \<noteq> - ENOENT"
  by (simp add: del_code store_hit)

lemma del_twice: "fst (del k (snd (del k m))) = - ENOENT"
  by (simp add: del_code del_gone)

lemma store_range:
  "lookup (snd (store k v m)) x = Some w \<Longrightarrow> (x = k \<and> w = v) \<or> lookup m x = Some w"
  by (cases "fst (store k v m) = 0"; cases "x = k") (auto simp: store_hit store_fail dest: store_other)

lemma store_all:
  assumes "\<And>x w. lookup m x = Some w \<Longrightarrow> P w" and "P v"
    and "lookup (snd (store k v m)) x = Some w"
  shows "P w"
  using assms by (auto dest: store_range)

lemma del_all:
  assumes "\<And>x w. lookup m x = Some w \<Longrightarrow> P w" and "lookup (snd (del k m)) x = Some w"
  shows "P w"
  using assms by (cases "x = k") (auto simp: del_gone del_other)

end

text \<open>A map that keeps every other entry across a store (a hash map, not an LRU one).\<close>

locale exact_map = bpf_map +
  assumes store_frame: "x \<noteq> k \<Longrightarrow> lookup (snd (store k v m)) x = lookup m x"
begin

lemma lookup_store:
  "lookup (snd (store k v m)) x =
     (if x = k \<and> fst (store k v m) = 0 then Some v else lookup m x)"
  by (cases "x = k"; cases "fst (store k v m) = 0") (auto simp: store_hit store_fail store_frame)

end

interpretation hash: exact_map map_of "hmap_update cap err" hmap_delete for cap err
proof (unfold_locales, goal_cases)
  case (6 k m)
  then show ?case by (simp add: hmap_delete_def ENOENT_def split: option.splits)
qed (auto simp: hmap_update_def hmap_delete_def bpf_map_simps E2BIG_def split: option.splits if_splits)

interpretation lru: bpf_map map_of "lru_update victims err" hmap_delete for victims err
proof (unfold_locales, goal_cases)
  case (6 k m)
  then show ?case by (simp add: hmap_delete_def ENOENT_def split: option.splits)
qed (auto simp: lru_update_def hmap_delete_def bpf_map_simps map_of_filter_fst split: option.splits if_splits)

lemma hmap_update_ok: "hmap_ok cap m \<Longrightarrow> hmap_ok cap (snd (hmap_update cap err k v m))"
  by (auto simp: hmap_ok_def hmap_update_def length_AList_update distinct_update)

lemma hmap_update_new:
  "map_of m k = None \<Longrightarrow> length m < cap \<Longrightarrow> hmap_update cap 0 k v m = (0, AList.update k v m)"
  by (simp add: hmap_update_def)

lemma hmap_update_new_ok:
  "hmap_ok cap m \<Longrightarrow> map_of m k = None \<Longrightarrow> length m < cap \<Longrightarrow> hmap_ok cap (AList.update k v m)"
  by (simp add: hmap_ok_def length_AList_update distinct_update)

lemma hmap_count_card:
  "distinct (map fst h) \<Longrightarrow> hmap_count P h = card {a. \<exists>d. map_of h a = Some d \<and> P d}"
proof (induction h)
  case (Cons x h)
  obtain a d where x: "x = (a, d)" by (cases x)
  let ?S = "{a. \<exists>d. map_of h a = Some d \<and> P d}"
  have fin: "finite ?S" by (rule finite_subset [OF _ finite_dom_map_of [of h]]) auto
  have a: "map_of h a = None" using Cons.prems x by (simp add: map_of_eq_None_iff)
  then have "{b. \<exists>d'. map_of (x # h) b = Some d' \<and> P d'} = (if P d then insert a ?S else ?S)"
    by (auto simp: x)
  moreover have "a \<notin> ?S" using a by simp
  ultimately show ?case using Cons fin by (simp add: x hmap_count_def)
qed (simp add: hmap_count_def)

lemma hmap_delete_ok: "hmap_ok cap m \<Longrightarrow> hmap_ok cap (snd (hmap_delete k m))"
  by (auto simp: hmap_ok_def hmap_delete_def AList.delete_eq distinct_map_filter
      intro: le_trans [OF length_filter_le] split: option.splits)

section \<open>BPF array maps of counters\<close>

text \<open>\<open>bump_counter\<close>: an index past the end makes the lookup return NULL and does nothing.\<close>

definition counter_bump :: "u32 \<Rightarrow> u64 list \<Rightarrow> u64 list" where
  "counter_bump idx cs =
     (if unat idx < length cs then cs[unat idx := cs ! unat idx + 1] else cs)"

lemma length_counter_bump [simp]: "length (counter_bump idx cs) = length cs"
  by (simp add: counter_bump_def)

end
