(* ===== verification/Cache_Ext_Lib.thy ===== *)
theory Cache_Ext_Lib
  imports BPF_Prelude
begin

text \<open>
  The helper header \<open>policies/cache_ext_lib.bpf.h\<close>: folios and their page flags (the
  layout of \<open>struct folio\<close> and the bit numbers are those of \<open>vmlinux.h\<close>), and the two
  random number helpers. Shown: each flag test reads exactly its bit; a random number below
  \<open>max\<close> is below \<open>max\<close>; the rejection bound of the unbiased helper leaves every
  residue with the same number of raw values.
\<close>

unbundle bit_operations_syntax

section \<open>Folios\<close>

record inode =
  i_addr :: u64
  i_ino :: u64
  i_size :: u64

record address_space =
  host :: "inode option"

text \<open>
  A folio is known to the policies by its address. \<open>page_flags f n\<close> is the flags word of
  its page \<open>n\<close>; a NULL pointer is \<open>None\<close>.
\<close>

record folio =
  folio_addr :: u64
  page_flags :: "nat \<Rightarrow> u64"
  mapping :: "address_space option"
  index :: u64

definition folio_host :: "folio \<Rightarrow> inode option" where
  "folio_host f = (case mapping f of None \<Rightarrow> None | Some m \<Rightarrow> host m)"

text \<open>
  \<open>(u64)folio->mapping->host\<close> with no NULL test: a BPF program's read through a NULL
  kernel pointer yields 0.
\<close>

definition host_word :: "folio \<Rightarrow> u64" where
  "host_word f = (case folio_host f of None \<Rightarrow> 0 | Some i \<Rightarrow> i_addr i)"

section \<open>Page flags\<close>

definition PG_locked :: u64 where "PG_locked = 0"
definition PG_writeback :: u64 where "PG_writeback = 1"
definition PG_uptodate :: u64 where "PG_uptodate = 3"
definition PG_dirty :: u64 where "PG_dirty = 4"
definition PG_lru :: u64 where "PG_lru = 5"
definition PG_head :: u64 where "PG_head = 6"
definition PG_hugetlb :: u64 where "PG_hugetlb = 8"
definition PG_reclaim :: u64 where "PG_reclaim = 18"
definition PG_unevictable :: u64 where "PG_unevictable = 20"

lemmas PG_defs = PG_locked_def PG_writeback_def PG_uptodate_def PG_dirty_def PG_lru_def
  PG_head_def PG_hugetlb_def PG_reclaim_def PG_unevictable_def

definition BIT_WORD :: "u64 \<Rightarrow> u64" where
  "BIT_WORD nr = nr div 64"

text \<open>\<open>addr\<close> is the array the pointer points at; every bit number used is below 64.\<close>

definition generic_test_bit :: "u64 \<Rightarrow> u64 list \<Rightarrow> bool" where
  "generic_test_bit nr addr =
     (1 AND drop_bit (unat (nr AND 63)) (addr ! unat (BIT_WORD nr)) \<noteq> 0)"

definition folio_flags :: "folio \<Rightarrow> nat \<Rightarrow> u64 list" where
  "folio_flags f n = [page_flags f n]"

definition folio_test_uptodate :: "folio \<Rightarrow> bool" where
  "folio_test_uptodate f = generic_test_bit PG_uptodate (folio_flags f 0)"

definition folio_test_lru :: "folio \<Rightarrow> bool" where
  "folio_test_lru f = generic_test_bit PG_lru (folio_flags f 0)"

definition folio_test_dirty :: "folio \<Rightarrow> bool" where
  "folio_test_dirty f = generic_test_bit PG_dirty (folio_flags f 0)"

definition folio_test_reclaim :: "folio \<Rightarrow> bool" where
  "folio_test_reclaim f = generic_test_bit PG_reclaim (folio_flags f 0)"

definition folio_test_writeback :: "folio \<Rightarrow> bool" where
  "folio_test_writeback f = generic_test_bit PG_writeback (folio_flags f 0)"

definition folio_test_head :: "folio \<Rightarrow> bool" where
  "folio_test_head f = generic_test_bit PG_head (folio_flags f 0)"

definition folio_test_large :: "folio \<Rightarrow> bool" where
  "folio_test_large f = folio_test_head f"

definition folio_test_locked :: "folio \<Rightarrow> bool" where
  "folio_test_locked f = generic_test_bit PG_locked (folio_flags f 0)"

definition folio_test_hugetlb :: "folio \<Rightarrow> bool" where
  "folio_test_hugetlb f = (folio_test_large f \<and> generic_test_bit PG_hugetlb (folio_flags f 1))"

definition folio_test_unevictable :: "folio \<Rightarrow> bool" where
  "folio_test_unevictable f = generic_test_bit PG_unevictable (folio_flags f 0)"

text \<open>Large folios are not handled: every folio counts as one page.\<close>

definition folio_nr_pages :: "folio \<Rightarrow> s64" where
  "folio_nr_pages f = 1"

definition i_size_read :: "inode \<Rightarrow> u64" where
  "i_size_read i = i_size i"

definition folio_index :: "folio \<Rightarrow> u64" where
  "folio_index f = index f"

lemma generic_test_bit_iff:
  "unat nr < 64 \<Longrightarrow> generic_test_bit nr [w] \<longleftrightarrow> bit w (unat nr)"
proof -
  assume nr: "unat nr < 64"
  have d: "BIT_WORD nr = 0"
    using nr by (simp add: BIT_WORD_def word_arith_nat_div)
  have "nr AND 63 = take_bit 6 nr" by (simp add: take_bit_eq_mask mask_numeral)
  then have m: "unat (nr AND 63) = unat nr"
    using nr by (simp add: unsigned_take_bit_eq take_bit_nat_eq_self)
  show ?thesis
    by (simp add: generic_test_bit_def d m and_one_eq one_and_eq bit_iff_odd_drop_bit odd_iff_mod_2_eq_one)
qed

text \<open>Each test reads the bit its name says.\<close>

lemma folio_test_bits:
  "folio_test_uptodate f \<longleftrightarrow> bit (page_flags f 0) 3"
  "folio_test_lru f \<longleftrightarrow> bit (page_flags f 0) 5"
  "folio_test_dirty f \<longleftrightarrow> bit (page_flags f 0) 4"
  "folio_test_reclaim f \<longleftrightarrow> bit (page_flags f 0) 18"
  "folio_test_writeback f \<longleftrightarrow> bit (page_flags f 0) 1"
  "folio_test_head f \<longleftrightarrow> bit (page_flags f 0) 6"
  "folio_test_locked f \<longleftrightarrow> bit (page_flags f 0) 0"
  "folio_test_hugetlb f \<longleftrightarrow> bit (page_flags f 0) 6 \<and> bit (page_flags f 1) 8"
  "folio_test_unevictable f \<longleftrightarrow> bit (page_flags f 0) 20"
  by (simp_all add: folio_test_uptodate_def folio_test_lru_def folio_test_dirty_def
      folio_test_reclaim_def folio_test_writeback_def folio_test_head_def folio_test_locked_def
      folio_test_hugetlb_def folio_test_unevictable_def folio_test_large_def folio_flags_def
      generic_test_bit_iff PG_defs)

text \<open>The pages a policy may nominate: uptodate, on an LRU list, clean, not under writeback.\<close>

definition evictable :: "folio \<Rightarrow> bool" where
  "evictable f \<longleftrightarrow>
     bit (page_flags f 0) 3 \<and> bit (page_flags f 0) 5 \<and>
     \<not> bit (page_flags f 0) 4 \<and> \<not> bit (page_flags f 0) 1"

lemma evictable_tests:
  "evictable f \<longleftrightarrow>
     \<not> (\<not> folio_test_uptodate f \<or> \<not> folio_test_lru f) \<and>
     \<not> (folio_test_dirty f \<or> folio_test_writeback f)"
  by (auto simp: evictable_def folio_test_bits)

section \<open>Random numbers\<close>

text \<open>
  \<open>bpf_get_prandom_u32\<close> is the kernel's: \<open>rnd i\<close> is the value of its \<open>i\<close>-th call.
\<close>

definition U32_MAX :: u32 where
  "U32_MAX = 4294967295"

definition max_divisible :: "u32 \<Rightarrow> u32" where
  "max_divisible mx = U32_MAX - U32_MAX mod mx"

fun random_retry :: "(nat \<Rightarrow> u32) \<Rightarrow> u32 \<Rightarrow> nat \<Rightarrow> nat \<Rightarrow> u32 \<Rightarrow> u32" where
  "random_retry rnd mx i 0 res = res mod mx"
| "random_retry rnd mx i (Suc n) res =
     (let res' = rnd i in
      if res' < max_divisible mx then res' mod mx else random_retry rnd mx (Suc i) n res')"

definition bpf_get_random_unbiased :: "(nat \<Rightarrow> u32) \<Rightarrow> u32 \<Rightarrow> u32" where
  "bpf_get_random_unbiased rnd mx = (if mx = 0 then 0 else random_retry rnd mx 0 10 0)"

definition bpf_get_random_biased :: "(nat \<Rightarrow> u32) \<Rightarrow> u32 \<Rightarrow> u32" where
  "bpf_get_random_biased rnd mx = (if mx = 0 then 0 else rnd 0 mod mx)"

lemma word_mod_lt: "(0::'a::len word) < m \<Longrightarrow> x mod m < m"
  by (simp add: word_less_nat_alt unat_mod word_gt_0)

lemma random_retry_less: "0 < mx \<Longrightarrow> random_retry rnd mx i n res < mx"
  by (induction n arbitrary: i res) (auto simp: Let_def word_mod_lt)

lemma random_below:
  "0 < mx \<Longrightarrow> bpf_get_random_unbiased rnd mx < mx \<and> bpf_get_random_biased rnd mx < mx"
  by (auto simp: bpf_get_random_unbiased_def bpf_get_random_biased_def random_retry_less word_mod_lt)

lemma residue_class_card:
  "0 < m \<Longrightarrow> r < m \<Longrightarrow> card {x::nat. x < m * q \<and> x mod m = r} = q"
proof -
  assume m: "0 < m" and r: "r < m"
  have "{x::nat. x < m * q \<and> x mod m = r} = (\<lambda>i. i * m + r) ` {..<q}"
  proof (rule set_eqI, rule iffI)
    fix x assume "x \<in> {x. x < m * q \<and> x mod m = r}"
    then have x: "x < m * q" "x mod m = r" by auto
    then have "x = x div m * m + r" using div_mult_mod_eq [of x m] by simp
    moreover have "x div m < q" using x m by (simp add: less_mult_imp_div_less mult.commute)
    ultimately show "x \<in> (\<lambda>i. i * m + r) ` {..<q}" by blast
  next
    fix x assume "x \<in> (\<lambda>i. i * m + r) ` {..<q}"
    then obtain i where i: "i < q" "x = i * m + r" by auto
    have "i * m + r < Suc i * m" using r by simp
    also have "\<dots> \<le> q * m" using i(1) by (intro mult_le_mono1) simp
    finally show "x \<in> {x. x < m * q \<and> x mod m = r}" using i r by (simp add: mult.commute)
  qed
  moreover have "inj_on (\<lambda>i. i * m + r) {..<q}" using m by (auto intro: inj_onI)
  ultimately show ?thesis by (simp add: card_image)
qed

lemma unat_max_divisible:
  "unat (max_divisible mx) = unat mx * ((2 ^ 32 - 1) div unat mx)"
proof -
  have le: "U32_MAX mod mx \<le> U32_MAX"
    by (simp add: word_le_nat_alt unat_mod)
  have "unat (max_divisible mx) = (2 ^ 32 - 1) - (2 ^ 32 - 1) mod unat mx"
    using le by (simp add: max_divisible_def unat_sub unat_mod U32_MAX_def)
  then show ?thesis by (simp only: minus_mod_eq_mult_div)
qed

lemma random_retry_first:
  "i \<le> j \<Longrightarrow> j < i + n \<Longrightarrow> rnd j < max_divisible mx \<Longrightarrow>
   (\<forall>l. i \<le> l \<and> l < j \<longrightarrow> max_divisible mx \<le> rnd l) \<Longrightarrow>
   random_retry rnd mx i n res = rnd j mod mx"
proof (induction n arbitrary: i res)
  case (Suc n)
  show ?case
  proof (cases "i = j")
    case True
    with Suc.prems show ?thesis by (simp add: Let_def)
  next
    case False
    with Suc.prems have "\<not> rnd i < max_divisible mx" by (simp add: not_less)
    with False Suc show ?thesis by (simp add: Let_def)
  qed
qed simp

lemma accepted_class_card:
  assumes "0 < mx" "r < mx"
  shows "card {x :: u32. x < max_divisible mx \<and> x mod mx = r} = (2 ^ 32 - 1) div unat mx"
proof -
  let ?q = "(2 ^ 32 - 1) div unat mx"
  let ?A = "{x :: u32. x < max_divisible mx \<and> x mod mx = r}"
  let ?B = "{x :: nat. x < unat mx * ?q \<and> x mod unat mx = unat r}"
  have less: "unat mx * ?q < 2 ^ 32"
    by (rule le_less_trans [OF times_div_less_eq_dividend]) simp
  have img: "unat ` ?A = ?B"
  proof (rule set_eqI, rule iffI)
    fix x assume "x \<in> unat ` ?A"
    then show "x \<in> ?B"
      by (auto simp: word_less_nat_alt unat_max_divisible simp flip: unat_mod)
  next
    fix x assume x: "x \<in> ?B"
    have "unat (of_nat x :: u32) = x"
      using x less by (simp add: unat_of_nat take_bit_nat_eq_self)
    then obtain y :: u32 where y: "x = unat y" by metis
    have "y \<in> ?A"
      using x unfolding y by (simp add: word_less_nat_alt unat_max_divisible word_unat_eq_iff unat_mod)
    with y show "x \<in> unat ` ?A" by blast
  qed
  have inj: "inj_on unat ?A" by (rule inj_onI) (simp add: word_unat_eq_iff)
  have "card ?A = card ?B" by (simp only: card_image [OF inj, symmetric] img)
  also have "\<dots> = ?q"
    using assms by (intro residue_class_card) (simp_all add: word_less_nat_alt)
  finally show ?thesis .
qed

text \<open>
  If one of ten draws falls below the largest multiple of \<open>max\<close>, the unbiased generator
  returns the residue of the first such draw, and each residue below \<open>max\<close> is the residue of
  the same number of acceptable draws.
\<close>

lemma random_unbiased:
  assumes "0 < mx" "i < 10" "rnd i < max_divisible mx" "\<forall>j < i. max_divisible mx \<le> rnd j"
  shows "bpf_get_random_unbiased rnd mx = rnd i mod mx
    \<and> (\<forall>r < mx. card {x :: u32. x < max_divisible mx \<and> x mod mx = r} = (2 ^ 32 - 1) div unat mx)"
  using assms random_retry_first [of 0 i 10 rnd mx 0] accepted_class_card [OF assms(1)]
  by (auto simp: bpf_get_random_unbiased_def)

end
