(* ===== verification/Cache_Ext_Kfuncs.thy ===== *)
theory Cache_Ext_Kfuncs
  imports Cache_Ext_Lib "HOL-Library.Multiset"
begin

text \<open>
  The boundary between a policy and the kernel. The kernel (a git submodule) is not part of
  the sources: its list functions, its clock and its map errors are fields of a record
  \<open>kfuncs\<close> every handler takes as an argument, over an abstract kernel state of type \<open>'k\<close>.
  What the policies rely on is the predicate \<open>kernel_ok\<close>: the kernel runs a policy's
  callback on a sequence of list nodes of its choice, touches the policy's state in no other
  way, and nominates for eviction exactly the folios the callback answered
  \<open>CACHE_EXT_EVICT_NODE\<close> for (a sampling round nominates only folios it scored).

  The interface \<open>struct cache_ext_ops\<close> a policy implements is a record of hooks; the
  locale \<open>policy\<close> lifts an invariant of every hook to every run of the system.
\<close>

section \<open>Types shared with the kernel\<close>

datatype cb_ret = CONTINUE_ITER | STOP_ITER | EVICT_NODE

record evict_ctx =
  request_nr_folios_to_evict :: u64
  nr_folios_to_evict :: u64
  folios_to_evict :: "folio list"

record iterate_opts =
  continue_list :: u64
  continue_mode :: u64
  evict_list :: u64
  evict_mode :: u64
  nr_folios_continue :: u64
  nr_folios_evict :: u64

definition ITERATE_SELF :: u64 where "ITERATE_SELF = 0"
definition ITERATE_TAIL :: u64 where "ITERATE_TAIL = 2"

record sampling_options =
  sample_size :: u32
  select_size :: u32

record ghost_entry =
  ge_address_space :: u64
  ge_offset :: u64

section \<open>The kernel's functions\<close>

record ('k, 's) kfuncs =
  kf_new_list :: "u64 \<Rightarrow> 'k \<Rightarrow> u64 \<times> 'k"
  kf_list_add :: "u64 \<Rightarrow> folio \<Rightarrow> 'k \<Rightarrow> s32 \<times> 'k"
  kf_list_add_tail :: "u64 \<Rightarrow> folio \<Rightarrow> 'k \<Rightarrow> s32 \<times> 'k"
  kf_list_del :: "folio \<Rightarrow> 'k \<Rightarrow> s32 \<times> 'k"
  kf_list_move :: "u64 \<Rightarrow> folio \<Rightarrow> bool \<Rightarrow> 'k \<Rightarrow> s32 \<times> 'k"
  kf_list_iterate :: "u64 \<Rightarrow> u64 \<Rightarrow> ('k \<Rightarrow> s32 \<Rightarrow> folio \<Rightarrow> 's \<Rightarrow> cb_ret \<times> 's) \<Rightarrow>
     evict_ctx \<Rightarrow> 'k \<Rightarrow> 's \<Rightarrow> s32 \<times> evict_ctx \<times> 'k \<times> 's"
  kf_list_iterate_extended :: "u64 \<Rightarrow> u64 \<Rightarrow> ('k \<Rightarrow> s32 \<Rightarrow> folio \<Rightarrow> 's \<Rightarrow> cb_ret \<times> 's) \<Rightarrow>
     iterate_opts \<Rightarrow> evict_ctx \<Rightarrow> 'k \<Rightarrow> 's \<Rightarrow> s32 \<times> iterate_opts \<times> evict_ctx \<times> 'k \<times> 's"
  kf_list_sample :: "u64 \<Rightarrow> u64 \<Rightarrow> ('k \<Rightarrow> folio \<Rightarrow> 's \<Rightarrow> s64 \<times> 's) \<Rightarrow> sampling_options \<Rightarrow>
     evict_ctx \<Rightarrow> 'k \<Rightarrow> 's \<Rightarrow> s32 \<times> evict_ctx \<times> 'k \<times> 's"
  kf_map_err :: "'k \<Rightarrow> u64 \<Rightarrow> s32"
  kf_ghost_err :: "'k \<Rightarrow> ghost_entry \<Rightarrow> s32"
  kf_ghost_victims :: "'k \<Rightarrow> ghost_entry list"
  kf_ringbuf_output :: "'k \<Rightarrow> s32"
  kf_ktime_get_ns :: "'k \<Rightarrow> u64"
  kf_current_pid_tgid :: "'k \<Rightarrow> u64"

section \<open>What the kernel does with a callback\<close>

text \<open>The callback folded over the visited nodes: the folios it evicts, in order, and its state.\<close>

fun run_cb :: "('k \<Rightarrow> s32 \<Rightarrow> folio \<Rightarrow> 's \<Rightarrow> cb_ret \<times> 's) \<Rightarrow> ('k \<times> s32 \<times> folio) list \<Rightarrow> 's \<Rightarrow>
    folio list \<times> 's" where
  "run_cb cb [] s = ([], s)"
| "run_cb cb ((k, i, f) # vs) s =
     (let (r, s1) = cb k i f s; (es, s2) = run_cb cb vs s1
      in (if r = EVICT_NODE then f # es else es, s2))"

fun run_score :: "('k \<Rightarrow> folio \<Rightarrow> 's \<Rightarrow> s64 \<times> 's) \<Rightarrow> ('k \<times> folio) list \<Rightarrow> 's \<Rightarrow> 's" where
  "run_score sc [] s = s"
| "run_score sc ((k, f) # vs) s = run_score sc vs (snd (sc k f s))"

text \<open>
  The folios a call nominates join those of the eviction context. The array of the kernel has
  32 slots and the kernel keeps to them; a list stands for it.
\<close>

definition nominate :: "folio list \<Rightarrow> evict_ctx \<Rightarrow> evict_ctx" where
  "nominate es c = c\<lparr>nr_folios_to_evict := nr_folios_to_evict c + of_nat (length es),
                     folios_to_evict := folios_to_evict c @ es\<rparr>"

definition iterate_ok :: "('k, 's) kfuncs \<Rightarrow> bool" where
  "iterate_ok K \<longleftrightarrow> (\<forall>m l cb c k s. \<exists>vs r k'.
     kf_list_iterate K m l cb c k s =
       (r, nominate (fst (run_cb cb vs s)) c, k', snd (run_cb cb vs s)))"

definition iterate_extended_ok :: "('k, 's) kfuncs \<Rightarrow> bool" where
  "iterate_extended_ok K \<longleftrightarrow> (\<forall>m l cb o' c k s. \<exists>vs r p k'.
     kf_list_iterate_extended K m l cb o' c k s =
       (r, p, nominate (fst (run_cb cb vs s)) c, k', snd (run_cb cb vs s)))"

definition sample_ok :: "('k, 's) kfuncs \<Rightarrow> bool" where
  "sample_ok K \<longleftrightarrow> (\<forall>m l sc o' c k s. \<exists>vs es r k'.
     kf_list_sample K m l sc o' c k s = (r, nominate es c, k', run_score sc vs s)
     \<and> set es \<subseteq> snd ` set vs)"

definition kernel_ok :: "('k, 's) kfuncs \<Rightarrow> bool" where
  "kernel_ok K \<longleftrightarrow> iterate_ok K \<and> iterate_extended_ok K \<and> sample_ok K"

lemma run_cb_inv:
  assumes "\<And>k i f s. P s \<Longrightarrow> P (snd (cb k i f s))" and "P s"
  shows "P (snd (run_cb cb vs s))"
  using assms(2)
proof (induction vs arbitrary: s)
  case (Cons v vs)
  obtain k i f where "v = (k, i, f)" by (cases v) auto
  with Cons assms(1) [of s k i f] show ?case by (auto simp: split_def Let_def)
qed simp

lemma run_cb_rel:
  assumes "\<And>s. R s s" and "\<And>s t u. R s t \<Longrightarrow> R t u \<Longrightarrow> R s u"
    and "\<And>k i f s. R s (snd (cb k i f s))"
  shows "R s (snd (run_cb cb vs s))"
  by (rule run_cb_inv [where P = "R s"]) (auto intro: assms)

text \<open>A folio the callback never evicts in a state with \<open>P\<close> is not in the result.\<close>

lemma run_cb_evicted:
  assumes "\<And>k i f s. P s \<Longrightarrow> P (snd (cb k i f s))"
    and "\<And>k i f s. P s \<Longrightarrow> fst (cb k i f s) = EVICT_NODE \<Longrightarrow> Q f" and "P s"
  shows "\<forall>f \<in> set (fst (run_cb cb vs s)). Q f"
  using assms(3)
proof (induction vs arbitrary: s)
  case (Cons v vs)
  obtain k i f where "v = (k, i, f)" by (cases v) auto
  with Cons assms(1) [of s k i f] assms(2) [of s k i f] show ?case
    by (auto simp: split_def Let_def)
qed simp

lemma run_score_inv:
  assumes "\<And>k f s. P s \<Longrightarrow> P (snd (sc k f s))" and "P s"
  shows "P (run_score sc vs s)"
  using assms(2)
proof (induction vs arbitrary: s)
  case (Cons v vs)
  then show ?case using assms(1) by (cases v) auto
qed simp

lemma iterate_result:
  assumes "kernel_ok K"
  shows "\<exists>vs r k'. kf_list_iterate K m l cb c k s =
       (r, nominate (fst (run_cb cb vs s)) c, k', snd (run_cb cb vs s))"
  using assms by (simp add: kernel_ok_def iterate_ok_def)

lemma iterate_extended_result:
  assumes "kernel_ok K"
  shows "\<exists>vs r p k'. kf_list_iterate_extended K m l cb o' c k s =
       (r, p, nominate (fst (run_cb cb vs s)) c, k', snd (run_cb cb vs s))"
  using assms by (simp add: kernel_ok_def iterate_extended_ok_def)

lemma sample_result:
  assumes "kernel_ok K"
  shows "\<exists>vs es r k'. kf_list_sample K m l sc o' c k s = (r, nominate es c, k', run_score sc vs s)
    \<and> set es \<subseteq> snd ` set vs"
  using assms by (simp add: kernel_ok_def sample_ok_def)

text \<open>An invariant of the callback is an invariant of the kernel's call.\<close>

lemma iterate_inv:
  assumes "kernel_ok K" and "\<And>k i f s. P s \<Longrightarrow> P (snd (cb k i f s))" and "P s"
  shows "P (snd (snd (snd (kf_list_iterate K m l cb c k s))))"
proof -
  obtain vs r k' where "kf_list_iterate K m l cb c k s =
       (r, nominate (fst (run_cb cb vs s)) c, k', snd (run_cb cb vs s))"
    using iterate_result [OF assms(1), of m l cb c k s] by blast
  then show ?thesis using run_cb_inv [of P cb s vs] assms(2,3) by simp
qed

lemma iterate_extended_inv:
  assumes "kernel_ok K" and "\<And>k i f s. P s \<Longrightarrow> P (snd (cb k i f s))" and "P s"
  shows "P (snd (snd (snd (snd (kf_list_iterate_extended K m l cb o' c k s)))))"
proof -
  obtain vs r p k' where "kf_list_iterate_extended K m l cb o' c k s =
       (r, p, nominate (fst (run_cb cb vs s)) c, k', snd (run_cb cb vs s))"
    using iterate_extended_result [OF assms(1), of m l cb o' c k s] by blast
  then show ?thesis using run_cb_inv [of P cb s vs] assms(2,3) by simp
qed

lemma sample_inv:
  assumes "kernel_ok K" and "\<And>k f s. P s \<Longrightarrow> P (snd (sc k f s))" and "P s"
  shows "P (snd (snd (snd (kf_list_sample K m l sc o' c k s))))"
proof -
  obtain vs es r k' where "kf_list_sample K m l sc o' c k s = (r, nominate es c, k', run_score sc vs s)"
    using sample_result [OF assms(1), of m l sc o' c k s] by blast
  then show ?thesis using run_score_inv [of P sc s vs] assms(2,3) by simp
qed

lemma nominate_simps [simp]:
  "request_nr_folios_to_evict (nominate es c) = request_nr_folios_to_evict c"
  "nr_folios_to_evict (nominate es c) = nr_folios_to_evict c + of_nat (length es)"
  "folios_to_evict (nominate es c) = folios_to_evict c @ es"
  by (simp_all add: nominate_def)

section \<open>The nodes a walk meets\<close>

text \<open>
  The contract \<open>kernel_ok\<close> leaves open which nodes are visited. A policy whose eviction is
  meant to be complete relies on more: \<open>V m l k\<close> are the nodes of the list \<open>l\<close> in the order of
  a walk that starts in the kernel's state \<open>k\<close>, each with the state (the clock) in which the
  callback is called on it. A walk runs over them and stops before the last only when it
  fails, when as many folios are nominated as were requested, or for a callback that answers
  \<open>CACHE_EXT_STOP_ITER\<close>; with both kinds of nodes put back on the list it walks
  (\<open>CACHE_EXT_ITERATE_SELF\<close>) the list keeps its folios. The clock does not run backwards.
\<close>

abbreviation node_folio :: "'k \<times> s32 \<times> folio \<Rightarrow> folio" where
  "node_folio v \<equiv> snd (snd v)"

definition request_met :: "evict_ctx \<Rightarrow> bool" where
  "request_met c \<longleftrightarrow> request_nr_folios_to_evict c \<le> nr_folios_to_evict c"

definition may_stop :: "('k \<Rightarrow> s32 \<Rightarrow> folio \<Rightarrow> 's \<Rightarrow> cb_ret \<times> 's) \<Rightarrow> bool" where
  "may_stop cb \<longleftrightarrow> (\<exists>k i f s. fst (cb k i f s) = STOP_ITER)"

definition walks :: "('k \<Rightarrow> s32 \<Rightarrow> folio \<Rightarrow> 's \<Rightarrow> cb_ret \<times> 's) \<Rightarrow> ('k \<times> s32 \<times> folio) list \<Rightarrow> evict_ctx \<Rightarrow> 's \<Rightarrow>
    s32 \<Rightarrow> evict_ctx \<Rightarrow> 's \<Rightarrow> bool" where
  "walks cb vs c s r c' s' \<longleftrightarrow> (\<exists>n. c' = nominate (fst (run_cb cb (take n vs) s)) c
     \<and> s' = snd (run_cb cb (take n vs) s)
     \<and> (length vs \<le> n \<or> r <s 0 \<or> request_met c' \<or> may_stop cb))"

definition to_self :: "iterate_opts \<Rightarrow> bool" where
  "to_self o' \<longleftrightarrow> continue_list o' = ITERATE_SELF \<and> evict_list o' = ITERATE_SELF"

locale list_walk =
  fixes K :: "('k, 's) kfuncs" and V :: "u64 \<Rightarrow> u64 \<Rightarrow> 'k \<Rightarrow> ('k \<times> s32 \<times> folio) list"
  assumes iterate: "kf_list_iterate K m l cb c k s = (r, c', k', s') \<Longrightarrow> walks cb (V m l k) c s r c' s'"
    and iterate_extended: "kf_list_iterate_extended K m l cb o' c k s = (r, p, c', k', s') \<Longrightarrow>
      walks cb (V m l k) c s r c' s'"
    and options_kept: "kf_list_iterate_extended K m l cb o' c k s = (r, p, c', k', s') \<Longrightarrow> to_self o' \<Longrightarrow> to_self p"
    and folios_kept: "kf_list_iterate_extended K m l cb o' c k s = (r, p, c', k', s') \<Longrightarrow> to_self o' \<Longrightarrow>
      mset (map node_folio (V m l k')) = mset (map node_folio (V m l k))"
    and clock: "(k0, i, f) \<in> set (V m l k) \<Longrightarrow> kf_ktime_get_ns K k \<le> kf_ktime_get_ns K k0"
begin

lemma walks_to_end:
  assumes "walks cb (V m l k) c s r c' s'" "\<not> r <s 0" "\<not> may_stop cb"
  shows "\<exists>n. c' = nominate (fst (run_cb cb (take n (V m l k)) s)) c
    \<and> s' = snd (run_cb cb (take n (V m l k)) s) \<and> (length (V m l k) \<le> n \<or> request_met c')"
  using assms by (auto simp: walks_def)

text \<open>The contract refines the one that leaves the visited nodes open.\<close>

lemma walks_visited: "iterate_ok K" "iterate_extended_ok K"
proof -
  show "iterate_ok K"
    unfolding iterate_ok_def
  proof (intro allI)
    fix m l cb c k s
    obtain r c' k' s' where "kf_list_iterate K m l cb c k s = (r, c', k', s')" by (metis prod_cases4)
    with iterate [OF this] show "\<exists>vs r k'. kf_list_iterate K m l cb c k s =
       (r, nominate (fst (run_cb cb vs s)) c, k', snd (run_cb cb vs s))" by (auto simp: walks_def)
  qed
  show "iterate_extended_ok K"
    unfolding iterate_extended_ok_def
  proof (intro allI)
    fix m l cb o' c k s
    obtain r p c' k' s' where "kf_list_iterate_extended K m l cb o' c k s = (r, p, c', k', s')" by (metis prod_cases5)
    with iterate_extended [OF this] show "\<exists>vs r p k'. kf_list_iterate_extended K m l cb o' c k s =
       (r, p, nominate (fst (run_cb cb vs s)) c, k', snd (run_cb cb vs s))" by (auto simp: walks_def)
  qed
qed

end

section \<open>The operations table of a policy\<close>

text \<open>
  \<open>struct cache_ext_ops\<close>. A hook a policy leaves out is \<open>None\<close>; no policy here sets
  \<open>admit_folio\<close>. Each hook takes and returns the kernel's state and the policy's.
\<close>

record ('k, 's) cache_ext_ops =
  op_init :: "u64 \<Rightarrow> 'k \<Rightarrow> 's \<Rightarrow> s32 \<times> 'k \<times> 's"
  op_evict_folios :: "evict_ctx \<Rightarrow> u64 \<Rightarrow> 'k \<Rightarrow> 's \<Rightarrow> evict_ctx \<times> 'k \<times> 's"
  op_folio_added :: "folio \<Rightarrow> 'k \<Rightarrow> 's \<Rightarrow> 'k \<times> 's"
  op_folio_accessed :: "(folio \<Rightarrow> 'k \<Rightarrow> 's \<Rightarrow> 'k \<times> 's) option"
  op_folio_evicted :: "folio \<Rightarrow> 'k \<Rightarrow> 's \<Rightarrow> 'k \<times> 's"

datatype hook =
    Folio_Added folio
  | Folio_Accessed folio
  | Folio_Evicted folio
  | Evict_Folios evict_ctx u64

text \<open>One call from the kernel, and a sequence of calls (each hook runs to its end).\<close>

fun call_hook :: "('k, 's) cache_ext_ops \<Rightarrow> hook \<Rightarrow> 'k \<times> 's \<Rightarrow> 'k \<times> 's" where
  "call_hook ops (Folio_Added f) (k, s) = op_folio_added ops f k s"
| "call_hook ops (Folio_Accessed f) (k, s) =
     (case op_folio_accessed ops of None \<Rightarrow> (k, s) | Some h \<Rightarrow> h f k s)"
| "call_hook ops (Folio_Evicted f) (k, s) = op_folio_evicted ops f k s"
| "call_hook ops (Evict_Folios c m) (k, s) = snd (op_evict_folios ops c m k s)"

fun run_hooks :: "('k, 's) cache_ext_ops \<Rightarrow> hook list \<Rightarrow> 'k \<times> 's \<Rightarrow> 'k \<times> 's" where
  "run_hooks ops [] w = w"
| "run_hooks ops (h # hs) w = run_hooks ops hs (call_hook ops h w)"

text \<open>
  A policy with an invariant. \<open>adm\<close> is what the kernel guarantees of a call in a given
  state (for instance that only a folio not yet cached is reported as added).
\<close>

fun admissible :: "('k \<Rightarrow> hook \<Rightarrow> 's \<Rightarrow> bool) \<Rightarrow> ('k, 's) cache_ext_ops \<Rightarrow> hook list \<Rightarrow> 'k \<times> 's \<Rightarrow> bool" where
  "admissible adm ops [] w \<longleftrightarrow> True"
| "admissible adm ops (h # hs) w \<longleftrightarrow>
     adm (fst w) h (snd w) \<and> admissible adm ops hs (call_hook ops h w)"

locale policy =
  fixes ops :: "('k, 's) kfuncs \<Rightarrow> ('k, 's) cache_ext_ops"
    and adm :: "('k, 's) kfuncs \<Rightarrow> 'k \<Rightarrow> hook \<Rightarrow> 's \<Rightarrow> bool"
    and inv :: "'s \<Rightarrow> bool"
  assumes added: "kernel_ok K \<Longrightarrow> adm K k (Folio_Added f) s \<Longrightarrow> inv s \<Longrightarrow>
      inv (snd (op_folio_added (ops K) f k s))"
    and accessed: "kernel_ok K \<Longrightarrow> adm K k (Folio_Accessed f) s \<Longrightarrow> inv s \<Longrightarrow>
      op_folio_accessed (ops K) = Some h \<Longrightarrow> inv (snd (h f k s))"
    and evicted: "kernel_ok K \<Longrightarrow> adm K k (Folio_Evicted f) s \<Longrightarrow> inv s \<Longrightarrow>
      inv (snd (op_folio_evicted (ops K) f k s))"
    and evict: "kernel_ok K \<Longrightarrow> adm K k (Evict_Folios c m) s \<Longrightarrow> inv s \<Longrightarrow>
      inv (snd (snd (op_evict_folios (ops K) c m k s)))"
begin

lemma hook_inv:
  assumes "kernel_ok K" "adm K (fst w) h (snd w)" "inv (snd w)"
  shows "inv (snd (call_hook (ops K) h w))"
  using assms
  by (cases h; cases w) (auto simp: added evicted evict split: option.split intro: accessed)

lemma run_inv:
  assumes "kernel_ok K" "admissible (adm K) (ops K) hs w" "inv (snd w)"
  shows "inv (snd (run_hooks (ops K) hs w))"
  using assms
proof (induction hs arbitrary: w)
  case (Cons h hs)
  then have "inv (snd (call_hook (ops K) h w))" by (auto intro: hook_inv)
  with Cons show ?case by simp
qed simp

end

text \<open>
  A policy that refines an abstract one: \<open>astep\<close> says what a call does to the abstract state
  (it may look at the concrete state before the call, for instance at what the kernel will
  answer), \<open>rel\<close> relates the two states. A simulation of every call is one of every run.
\<close>

fun abs_run :: "('k, 's) cache_ext_ops \<Rightarrow> (hook \<Rightarrow> 'k \<times> 's \<Rightarrow> 'a \<Rightarrow> 'a) \<Rightarrow> hook list \<Rightarrow> 'k \<times> 's \<Rightarrow> 'a \<Rightarrow> 'a" where
  "abs_run ops astep [] w a = a"
| "abs_run ops astep (h # hs) w a = abs_run ops astep hs (call_hook ops h w) (astep h w a)"

locale policy_refinement =
  fixes ops :: "('k, 's) kfuncs \<Rightarrow> ('k, 's) cache_ext_ops"
    and astep :: "('k, 's) kfuncs \<Rightarrow> hook \<Rightarrow> 'k \<times> 's \<Rightarrow> 'a \<Rightarrow> 'a"
    and rel :: "'s \<Rightarrow> 'a \<Rightarrow> bool"
  assumes step: "kernel_ok K \<Longrightarrow> rel (snd w) a \<Longrightarrow> rel (snd (call_hook (ops K) h w)) (astep K h w a)"
begin

lemma run_rel:
  "kernel_ok K \<Longrightarrow> rel (snd w) a \<Longrightarrow>
   rel (snd (run_hooks (ops K) hs w)) (abs_run (ops K) (astep K) hs w a)"
proof (induction hs arbitrary: w a)
  case (Cons h hs)
  then show ?case using step [of K w a h] by simp
qed simp

end

section \<open>A list kernel\<close>

text \<open>
  A kernel that keeps \<open>kernel_ok\<close>, on which the hypotheses of the theorems are met: lists
  are numbered from 1, an iteration walks its list from the head and stops once the
  requested number of folios is nominated, a sampling round scores the list and takes the
  lowest scores.
\<close>

record list_kernel =
  lk_lists :: "(u64 \<times> folio list) list"
  lk_now :: u64
  lk_pid :: u64
  lk_err :: s32

definition lk_list :: "list_kernel \<Rightarrow> u64 \<Rightarrow> folio list" where
  "lk_list k l = (case map_of (lk_lists k) l of None \<Rightarrow> [] | Some fs \<Rightarrow> fs)"

definition lk_set :: "u64 \<Rightarrow> folio list \<Rightarrow> list_kernel \<Rightarrow> list_kernel" where
  "lk_set l fs k = k\<lparr>lk_lists := AList.update l fs (lk_lists k)\<rparr>"

definition lk_remove :: "folio \<Rightarrow> list_kernel \<Rightarrow> list_kernel" where
  "lk_remove f k = k\<lparr>lk_lists :=
     map (\<lambda>(l, fs). (l, filter (\<lambda>g. folio_addr g \<noteq> folio_addr f) fs)) (lk_lists k)\<rparr>"

fun lk_visit :: "('k \<Rightarrow> s32 \<Rightarrow> folio \<Rightarrow> 's \<Rightarrow> cb_ret \<times> 's) \<Rightarrow> nat \<Rightarrow> 'k \<Rightarrow> s32 \<Rightarrow> folio list \<Rightarrow> 's \<Rightarrow>
    ('k \<times> s32 \<times> folio) list" where
  "lk_visit cb n k i [] s = []"
| "lk_visit cb n k i (f # fs) s =
     (if n = 0 then []
      else let (r, s') = cb k i f s
           in (k, i, f) # lk_visit cb (if r = EVICT_NODE then n - 1 else n) k (i + 1) fs s')"

definition lk_budget :: "evict_ctx \<Rightarrow> nat" where
  "lk_budget c = unat (request_nr_folios_to_evict c - nr_folios_to_evict c)"

definition list_kfuncs :: "(list_kernel, 's) kfuncs" where
  "list_kfuncs = \<lparr>
     kf_new_list = (\<lambda>m k. let l = of_nat (length (lk_lists k)) + 1 in (l, lk_set l [] k)),
     kf_list_add = (\<lambda>l f k. (lk_err k, if lk_err k = 0 then lk_set l (f # lk_list k l) k else k)),
     kf_list_add_tail = (\<lambda>l f k. (lk_err k, if lk_err k = 0 then lk_set l (lk_list k l @ [f]) k else k)),
     kf_list_del = (\<lambda>f k. (0, lk_remove f k)),
     kf_list_move = (\<lambda>l f t k. (0, let k' = lk_remove f k in
        lk_set l (if t then lk_list k' l @ [f] else f # lk_list k' l) k')),
     kf_list_iterate = (\<lambda>m l cb c k s.
        let (es, s') = run_cb cb (lk_visit cb (lk_budget c) k 0 (lk_list k l) s) s
        in (0, nominate es c, k, s')),
     kf_list_iterate_extended = (\<lambda>m l cb o' c k s.
        let vs = lk_visit cb (lk_budget c) k 0 (lk_list k l) s; (es, s') = run_cb cb vs s
        in (0, o'\<lparr>nr_folios_continue := of_nat (length vs - length es),
                 nr_folios_evict := of_nat (length es)\<rparr>, nominate es c, k, s')),
     kf_list_sample = (\<lambda>m l sc o' c k s.
        let fs = lk_list k l
        in (0, nominate (take (lk_budget c) (sort_key (\<lambda>f. sint (fst (sc k f s))) fs)) c, k,
            run_score sc (map (Pair k) fs) s)),
     kf_map_err = (\<lambda>k x. 0),
     kf_ghost_err = (\<lambda>k x. 0),
     kf_ghost_victims = (\<lambda>k. []),
     kf_ringbuf_output = (\<lambda>k. 0),
     kf_ktime_get_ns = lk_now,
     kf_current_pid_tgid = lk_pid\<rparr>"

lemma list_kernel_ok: "kernel_ok (list_kfuncs :: (list_kernel, 's) kfuncs)"
proof -
  have "iterate_ok (list_kfuncs :: (list_kernel, 's) kfuncs)"
    by (auto simp: iterate_ok_def list_kfuncs_def split_def Let_def)
  moreover have "iterate_extended_ok (list_kfuncs :: (list_kernel, 's) kfuncs)"
    by (auto simp: iterate_extended_ok_def list_kfuncs_def split_def Let_def)
  moreover have "sample_ok (list_kfuncs :: (list_kernel, 's) kfuncs)"
    unfolding sample_ok_def
  proof (intro allI)
    fix m l o' c and k :: list_kernel and s :: 's
      and sc :: "list_kernel \<Rightarrow> folio \<Rightarrow> 's \<Rightarrow> s64 \<times> 's"
    let ?fs = "lk_list k l"
    let ?es = "take (lk_budget c) (sort_key (\<lambda>f. sint (fst (sc k f s))) ?fs)"
    have "set ?es \<subseteq> snd ` set (map (Pair k) ?fs)"
      using set_take_subset [of "lk_budget c" "sort_key (\<lambda>f. sint (fst (sc k f s))) ?fs"]
      by (force simp: image_image)
    then show "\<exists>vs es r k'. kf_list_sample list_kfuncs m l sc o' c k s =
        (r, nominate es c, k', run_score sc vs s) \<and> set es \<subseteq> snd ` set vs"
      by (intro exI [of _ "map (Pair k) ?fs"] exI [of _ ?es] exI [of _ 0] exI [of _ k])
        (auto simp: list_kfuncs_def Let_def)
  qed
  ultimately show ?thesis by (simp add: kernel_ok_def)
qed

text \<open>The walk of the list kernel: from the head, all at the same time.\<close>

fun lk_from :: "'k \<Rightarrow> s32 \<Rightarrow> folio list \<Rightarrow> ('k \<times> s32 \<times> folio) list" where
  "lk_from k i [] = []"
| "lk_from k i (f # fs) = (k, i, f) # lk_from k (i + 1) fs"

definition lk_nodes :: "u64 \<Rightarrow> u64 \<Rightarrow> list_kernel \<Rightarrow> (list_kernel \<times> s32 \<times> folio) list" where
  "lk_nodes m l k = lk_from k 0 (lk_list k l)"

lemma lk_from_visits: "(k0, i, f) \<in> set (lk_from k j fs) \<Longrightarrow> k0 = k"
  by (induction fs arbitrary: j) auto

lemma lk_visit_prefix:
  "\<exists>m. lk_visit cb n k i fs s = take m (lk_from k i fs)
    \<and> (length (lk_from k i fs) \<le> m \<or> length (fst (run_cb cb (lk_visit cb n k i fs s) s)) = n)"
proof (induction fs arbitrary: n i s)
  case (Cons f fs)
  show ?case
  proof (cases "n = 0")
    case True
    then show ?thesis by (intro exI [of _ 0]) simp
  next
    case False
    obtain r s' where r: "cb k i f s = (r, s')" by force
    let ?n = "if r = EVICT_NODE then n - 1 else n"
    obtain m where m: "lk_visit cb ?n k (i + 1) fs s' = take m (lk_from k (i + 1) fs)"
      "length (lk_from k (i + 1) fs) \<le> m \<or> length (fst (run_cb cb (lk_visit cb ?n k (i + 1) fs s') s')) = ?n"
      using Cons.IH [of ?n "i + 1" s'] by blast
    then show ?thesis
      using False r by (intro exI [of _ "Suc m"]) (auto simp: split_def Let_def)
  qed
qed simp

lemma lk_walks:
  "walks cb (lk_nodes m l k) c s r (nominate (fst (run_cb cb (lk_visit cb (lk_budget c) k 0 (lk_list k l) s) s)) c)
     (snd (run_cb cb (lk_visit cb (lk_budget c) k 0 (lk_list k l) s) s))"
proof -
  let ?vs = "lk_visit cb (lk_budget c) k 0 (lk_list k l) s"
  obtain n where n: "?vs = take n (lk_nodes m l k)"
    "length (lk_nodes m l k) \<le> n \<or> length (fst (run_cb cb ?vs s)) = lk_budget c"
    using lk_visit_prefix [of cb "lk_budget c" k 0 "lk_list k l" s] by (auto simp: lk_nodes_def)
  moreover have "request_met (nominate es c)" if "length es = lk_budget c" for es
    using that by (simp add: request_met_def lk_budget_def)
  ultimately show ?thesis unfolding walks_def by (intro exI [of _ n]) auto
qed

interpretation lk: list_walk "list_kfuncs :: (list_kernel, 's) kfuncs" lk_nodes
proof (unfold_locales, goal_cases)
  case (1 m l cb c k s r c' k' s')
  then show ?case using lk_walks [of cb m l k c s] by (auto simp: list_kfuncs_def split_def Let_def)
next
  case (2 m l cb o' c k s r p c' k' s')
  then show ?case using lk_walks [of cb m l k c s] by (auto simp: list_kfuncs_def split_def Let_def)
qed (auto simp: list_kfuncs_def lk_nodes_def to_self_def split_def Let_def dest: lk_from_visits)

text \<open>A request for one folio, and a list kernel holding a dirty folio and a clean one.\<close>

definition clean_folio :: "u64 \<Rightarrow> folio" where
  "clean_folio a = \<lparr>folio_addr = a, page_flags = (\<lambda>_. 40),
     mapping = Some \<lparr>host = Some \<lparr>i_addr = 100, i_ino = 42, i_size = 8192\<rparr>\<rparr>, index = a\<rparr>"

definition dirty_folio :: "u64 \<Rightarrow> folio" where
  "dirty_folio a = (clean_folio a)\<lparr>page_flags := (\<lambda>_. 56)\<rparr>"

lemma demo_folio_flags [simp]:
  "evictable (clean_folio a)" "\<not> evictable (dirty_folio a)"
  by (simp_all add: evictable_def clean_folio_def dirty_folio_def)

lemma demo_folio_fields [simp]:
  "folio_addr (clean_folio a) = a" "folio_addr (dirty_folio a) = a"
  "folio_host (clean_folio a) = Some \<lparr>i_addr = 100, i_ino = 42, i_size = 8192\<rparr>"
  "index (clean_folio a) = a"
  by (simp_all add: clean_folio_def dirty_folio_def folio_host_def)

definition demo_ctx :: evict_ctx where
  "demo_ctx = \<lparr>request_nr_folios_to_evict = 1, nr_folios_to_evict = 0, folios_to_evict = []\<rparr>"

definition demo_kernel :: list_kernel where
  "demo_kernel = \<lparr>lk_lists = [(1, [dirty_folio 1, clean_folio 2])], lk_now = 0, lk_pid = 0, lk_err = 0\<rparr>"

lemmas demo_simps = demo_ctx_def demo_kernel_def

lemmas list_kernel_simps = list_kfuncs_def lk_list_def lk_set_def lk_remove_def lk_budget_def

end
