(* ===== verification/Dir_Watcher.thy ===== *)
theory Dir_Watcher
  imports Cache_Ext_Kfuncs
begin

text \<open>
  The directory watcher every policy includes, \<open>policies/dir_watcher.bpf.h\<close>: the map
  \<open>inode_watchlist\<close> from inode numbers to client tags, and the probe on \<open>vfs_open\<close> that
  classifies an opened file by the watch roots among its ancestors. Shown: the bounded walk
  finds the first root among the first 64 ancestors and nothing else; an open of a file
  below a root tags its inode and no other, and any other open changes nothing.
\<close>

record watch_state =
  watch_root_ino_1 :: u64
  watch_root_ino_2 :: u64
  client_tag_1 :: u32
  client_tag_2 :: u32
  inode_watchlist :: "(u64, u32) hmap"

definition watch_cap :: nat where
  "watch_cap = 200000"

definition inode_get_client_tag :: "'a watch_state_scheme \<Rightarrow> u64 \<Rightarrow> u32" where
  "inode_get_client_tag s ino =
     (case map_of (inode_watchlist s) ino of
        None \<Rightarrow> 0
      | Some t \<Rightarrow> if t = 0 then 0 else t)"

definition inode_in_watchlist :: "'a watch_state_scheme \<Rightarrow> u64 \<Rightarrow> bool" where
  "inode_in_watchlist s ino \<longleftrightarrow> inode_get_client_tag s ino \<noteq> 0"

text \<open>
  The test every policy makes of a folio, in its two spellings (\<open>||\<close> in FIFO, S3-FIFO and
  LHD, nested ifs elsewhere); the policies' own copies are proved equal to this one.
\<close>

definition relevant :: "'a watch_state_scheme \<Rightarrow> folio \<Rightarrow> bool" where
  "relevant s f \<longleftrightarrow> (\<exists>i. folio_host f = Some i \<and> inode_in_watchlist s (i_ino i))"

section \<open>Classifying an open\<close>

text \<open>
  Dentries live in kernel memory: \<open>dm d\<close> is the dentry at address \<open>d\<close>, its inode (the
  inode's number, \<open>None\<close> for NULL) and its parent's address. Address 0 is NULL.
\<close>

record dentry =
  d_inode :: "u64 option"
  d_parent :: u64

fun walk_roots :: "'a watch_state_scheme \<Rightarrow> (u64 \<Rightarrow> dentry) \<Rightarrow> nat \<Rightarrow> u64 \<Rightarrow> u32" where
  "walk_roots s dm 0 d = 0"
| "walk_roots s dm (Suc n) d =
     (case d_inode (dm d) of
        None \<Rightarrow> 0
      | Some ino \<Rightarrow>
          if ino = watch_root_ino_1 s then client_tag_1 s
          else if watch_root_ino_2 s \<noteq> 0 \<and> ino = watch_root_ino_2 s then client_tag_2 s
          else let parent = d_parent (dm d)
               in if parent = 0 \<or> parent = d then 0 else walk_roots s dm n parent)"

definition client_tag_from_watch_roots :: "'a watch_state_scheme \<Rightarrow> (u64 \<Rightarrow> dentry) \<Rightarrow> u64 \<Rightarrow> u32" where
  "client_tag_from_watch_roots s dm d =
     (if watch_root_ino_1 s = 0 then 0
      else if d = 0 then 0
      else walk_roots s dm 64 d)"

text \<open>\<open>err\<close> is the kernel's error for the map update.\<close>

definition vfs_open_enter :: "s32 \<Rightarrow> (u64 \<Rightarrow> dentry) \<Rightarrow> u64 \<Rightarrow> 'a watch_state_scheme \<Rightarrow> 'a watch_state_scheme" where
  "vfs_open_enter err dm d s =
     (let tag = client_tag_from_watch_roots s dm d in
      if tag = 0 then s
      else if d = 0 then s
      else case d_inode (dm d) of
        None \<Rightarrow> s
      | Some ino \<Rightarrow>
          let (rc, m) = (case map_of (inode_watchlist s) ino of
                           None \<Rightarrow> (0, inode_watchlist s)
                         | Some _ \<Rightarrow> hmap_delete ino (inode_watchlist s))
          in if rc \<noteq> 0 then s\<lparr>inode_watchlist := m\<rparr>
             else s\<lparr>inode_watchlist := snd (hmap_update watch_cap err ino tag m)\<rparr>)"

section \<open>The walk against its specification\<close>

text \<open>The inode numbers of a dentry and its ancestors, nearest first, at most \<open>n\<close> of them.\<close>

fun ancestor_inos :: "(u64 \<Rightarrow> dentry) \<Rightarrow> nat \<Rightarrow> u64 \<Rightarrow> u64 list" where
  "ancestor_inos dm 0 d = []"
| "ancestor_inos dm (Suc n) d =
     (case d_inode (dm d) of
        None \<Rightarrow> []
      | Some ino \<Rightarrow> ino # (if d_parent (dm d) = 0 \<or> d_parent (dm d) = d then []
                          else ancestor_inos dm n (d_parent (dm d))))"

definition root_tag :: "'a watch_state_scheme \<Rightarrow> u64 \<Rightarrow> u32 option" where
  "root_tag s ino =
     (if ino = watch_root_ino_1 s then Some (client_tag_1 s)
      else if watch_root_ino_2 s \<noteq> 0 \<and> ino = watch_root_ino_2 s then Some (client_tag_2 s)
      else None)"

definition first_root_tag :: "'a watch_state_scheme \<Rightarrow> u64 list \<Rightarrow> u32" where
  "first_root_tag s inos = (case List.map_filter (root_tag s) inos of [] \<Rightarrow> 0 | t # _ \<Rightarrow> t)"

lemma walk_roots_spec: "walk_roots s dm n d = first_root_tag s (ancestor_inos dm n d)"
proof (induction n arbitrary: d)
  case (Suc n)
  show ?case
    using Suc [of "d_parent (dm d)"]
    by (auto simp: first_root_tag_def root_tag_def Let_def split: option.splits)
qed (simp add: first_root_tag_def)

text \<open>
  An open is classified by the nearest watch root among the opened dentry and its
  ancestors, of which the first 64 are looked at; with no root inode set, or a NULL dentry,
  nothing is classified.
\<close>

lemma client_tag_nearest_root:
  "client_tag_from_watch_roots s dm d =
     (if watch_root_ino_1 s = 0 \<or> d = 0 then 0 else first_root_tag s (ancestor_inos dm 64 d))"
  by (simp add: client_tag_from_watch_roots_def walk_roots_spec del: walk_roots.simps ancestor_inos.simps)

section \<open>The effect of an open\<close>

lemma inode_get_client_tag_eq:
  "inode_get_client_tag s ino = (case map_of (inode_watchlist s) ino of None \<Rightarrow> 0 | Some t \<Rightarrow> t)"
  by (simp add: inode_get_client_tag_def split: option.splits)

lemma vfs_open_enter_watchlist:
  assumes "client_tag_from_watch_roots s dm d = t" "t \<noteq> 0" "d_inode (dm d) = Some ino"
  shows "inode_watchlist (vfs_open_enter err dm d s) =
    snd (hmap_update watch_cap err ino t (AList.delete ino (inode_watchlist s)))"
proof -
  have "d \<noteq> 0"
  proof
    assume "d = 0"
    with assms(1,2) show False by (simp add: client_tag_from_watch_roots_def split: if_splits)
  qed
  moreover have "map_of (inode_watchlist s) ino = None \<Longrightarrow>
      AList.delete ino (inode_watchlist s) = inode_watchlist s"
    by (simp add: map_of_eq_None_iff)
  ultimately show ?thesis
    using assms by (auto simp: vfs_open_enter_def Let_def hmap_delete_def split: option.splits)
qed

lemma relevant_update [simp]:
  "inode_get_client_tag (s\<lparr>inode_watchlist := m\<rparr>) ino = (case map_of m ino of None \<Rightarrow> 0 | Some t \<Rightarrow> t)"
  by (simp add: inode_get_client_tag_eq)

text \<open>
  An open below a watch root, when the map has room, tags the opened inode with the
  root's tag and leaves every other inode's tag alone. When the kernel refuses the store,
  the inode is left untagged even if it was tagged before: the old entry is deleted first.
\<close>

lemma vfs_open_tags:
  assumes "client_tag_from_watch_roots s dm d = t" "t \<noteq> 0" "d_inode (dm d) = Some ino"
    and "hmap_ok watch_cap (inode_watchlist s)"
    and "length (inode_watchlist s) < watch_cap \<or> map_of (inode_watchlist s) ino \<noteq> None"
  shows "inode_get_client_tag (vfs_open_enter err dm d s) x =
           (if x = ino then (if err = 0 then t else 0) else inode_get_client_tag s x)"
proof -
  let ?m = "AList.delete ino (inode_watchlist s)"
  have "length ?m < watch_cap"
    using assms(4,5) length_AList_delete [of "inode_watchlist s" ino]
      length_AList_delete_le [of ino "inode_watchlist s"]
    by (cases "inode_watchlist s") (auto simp: hmap_ok_def split: if_splits)
  then show ?thesis
    by (simp add: inode_get_client_tag_eq vfs_open_enter_watchlist [OF assms(1-3)]
        hmap_update_def bpf_map_simps)
qed

text \<open>A file directly below the watched directory, whose inode is 7.\<close>

definition demo_dentries :: "u64 \<Rightarrow> dentry" where
  "demo_dentries d = (if d = 16 then \<lparr>d_inode = Some 42, d_parent = 8\<rparr>
                      else if d = 8 then \<lparr>d_inode = Some 7, d_parent = 8\<rparr>
                      else \<lparr>d_inode = None, d_parent = 0\<rparr>)"

definition demo_watch :: watch_state where
  "demo_watch = \<lparr>watch_root_ino_1 = 7, watch_root_ino_2 = 0, client_tag_1 = 1,
     client_tag_2 = 2, inode_watchlist = []\<rparr>"

section \<open>The watchlist never overflows\<close>

lemma vfs_open_enter_ok:
  "hmap_ok watch_cap (inode_watchlist s) \<Longrightarrow> hmap_ok watch_cap (inode_watchlist (vfs_open_enter err dm d s))"
  by (auto simp: vfs_open_enter_def Let_def split_def intro: hmap_update_ok hmap_delete_ok
      split: option.splits)

lemma vfs_open_enter_roots [simp]:
  "watch_root_ino_1 (vfs_open_enter err dm d s) = watch_root_ino_1 s"
  "watch_root_ino_2 (vfs_open_enter err dm d s) = watch_root_ino_2 s"
  "client_tag_1 (vfs_open_enter err dm d s) = client_tag_1 s"
  "client_tag_2 (vfs_open_enter err dm d s) = client_tag_2 s"
  by (auto simp: vfs_open_enter_def Let_def split: option.split prod.split)

lemma vfs_open_enter_length:
  "length (inode_watchlist (vfs_open_enter err dm d s)) \<le> Suc (length (inode_watchlist s))"
  by (auto simp: vfs_open_enter_def Let_def hmap_delete_def hmap_update_def length_AList_update
      intro: le_SucI order.trans [OF length_AList_delete_le] split: option.split prod.split)

lemma vfs_open_enter_untouched:
  "client_tag_from_watch_roots s dm d = 0 \<Longrightarrow> vfs_open_enter err dm d s = s"
  by (simp add: vfs_open_enter_def)

end
