(* ===== verification/Fifo.thy ===== *)
theory Fifo
  imports Dir_Watcher
begin

text \<open>
  The FIFO policy, \<open>policies/cache_ext_fifo.bpf.c\<close>: one list, new folios at its tail,
  eviction from its head. Shown: eviction nominates only folios that can be evicted and
  counts each of them; the hooks keep the list handle and the watchlist.
\<close>

record fifo_state = watch_state +
  fifo_main_list :: u64
  eviction_count :: u64

definition fifo_is_folio_relevant :: "'a watch_state_scheme \<Rightarrow> folio option \<Rightarrow> bool" where
  "fifo_is_folio_relevant s fo =
     (case fo of
        None \<Rightarrow> False
      | Some f \<Rightarrow> (case mapping f of
          None \<Rightarrow> False
        | Some m \<Rightarrow> (case host m of
            None \<Rightarrow> False
          | Some i \<Rightarrow> inode_in_watchlist s (i_ino i))))"

definition fifo_init :: "('k, fifo_state) kfuncs \<Rightarrow> u64 \<Rightarrow> 'k \<Rightarrow> fifo_state \<Rightarrow> s32 \<times> 'k \<times> fifo_state" where
  "fifo_init K memcg k s =
     (let (l, k1) = kf_new_list K memcg k; s1 = s\<lparr>fifo_main_list := l\<rparr>
      in if l = 0 then (- 1, k1, s1) else (0, k1, s1))"

definition bpf_fifo_evict_cb :: "'k \<Rightarrow> s32 \<Rightarrow> folio \<Rightarrow> fifo_state \<Rightarrow> cb_ret \<times> fifo_state" where
  "bpf_fifo_evict_cb k idx f s =
     (if \<not> folio_test_uptodate f \<or> \<not> folio_test_lru f then (CONTINUE_ITER, s)
      else if folio_test_dirty f \<or> folio_test_writeback f then (CONTINUE_ITER, s)
      else (EVICT_NODE, s\<lparr>eviction_count := eviction_count s + 1\<rparr>))"

text \<open>A negative result of the iteration is only logged.\<close>

definition fifo_evict_folios :: "('k, fifo_state) kfuncs \<Rightarrow> evict_ctx \<Rightarrow> u64 \<Rightarrow> 'k \<Rightarrow> fifo_state \<Rightarrow>
    evict_ctx \<times> 'k \<times> fifo_state" where
  "fifo_evict_folios K ctx memcg k s =
     (let (r, ctx', k', s') = kf_list_iterate K memcg (fifo_main_list s) bpf_fifo_evict_cb ctx k s
      in (ctx', k', s'))"

definition fifo_folio_evicted :: "folio \<Rightarrow> 'k \<Rightarrow> fifo_state \<Rightarrow> 'k \<times> fifo_state" where
  "fifo_folio_evicted f k s = (k, s)"

definition fifo_folio_added :: "('k, fifo_state) kfuncs \<Rightarrow> folio \<Rightarrow> 'k \<Rightarrow> fifo_state \<Rightarrow> 'k \<times> fifo_state" where
  "fifo_folio_added K f k s =
     (if \<not> fifo_is_folio_relevant s (Some f) then (k, s)
      else let (rc, k1) = kf_list_add_tail K (fifo_main_list s) f k
           in (k1, s))"

definition fifo_ops :: "('k, fifo_state) kfuncs \<Rightarrow> ('k, fifo_state) cache_ext_ops" where
  "fifo_ops K = \<lparr>
     op_init = fifo_init K,
     op_evict_folios = fifo_evict_folios K,
     op_folio_added = fifo_folio_added K,
     op_folio_accessed = None,
     op_folio_evicted = fifo_folio_evicted\<rparr>"

section \<open>Relevance\<close>

lemma fifo_is_folio_relevant_eq [simp]:
  "fifo_is_folio_relevant s (Some f) = relevant s f"
  by (simp add: fifo_is_folio_relevant_def relevant_def folio_host_def split: option.splits)

section \<open>Eviction\<close>

lemma fifo_cb_eq:
  "bpf_fifo_evict_cb k i f s =
     (if evictable f then (EVICT_NODE, s\<lparr>eviction_count := eviction_count s + 1\<rparr>)
      else (CONTINUE_ITER, s))"
  by (auto simp: bpf_fifo_evict_cb_def evictable_tests)

lemma fifo_run_cb:
  fixes vs :: "('k \<times> s32 \<times> folio) list"
  shows "run_cb bpf_fifo_evict_cb vs s =
     (filter evictable (map (snd \<circ> snd) vs),
      s\<lparr>eviction_count := eviction_count s + of_nat (length (filter evictable (map (snd \<circ> snd) vs)))\<rparr>)"
proof (induction vs arbitrary: s)
  case (Cons v vs)
  obtain k i f where v: "v = (k, i, f)" by (cases v) auto
  show ?case
    by (cases "evictable f") (simp_all add: v fifo_cb_eq [of k i f s] Cons.IH add.assoc)
qed simp

text \<open>
  Whatever nodes the kernel walks, FIFO nominates the evictable ones among them, in the
  order they are met, adds their number to its counter and changes nothing else.
\<close>

lemma fifo_evict_nominates:
  fixes K :: "('k, fifo_state) kfuncs"
  assumes "kernel_ok K"
  shows "\<exists>fs k'. fifo_evict_folios K ctx m k s =
     (nominate (filter evictable fs) ctx, k',
      s\<lparr>eviction_count := eviction_count s + of_nat (length (filter evictable fs))\<rparr>)"
proof -
  obtain vs :: "('k \<times> s32 \<times> folio) list" and r k' where
    "kf_list_iterate K m (fifo_main_list s) bpf_fifo_evict_cb ctx k s =
       (r, nominate (fst (run_cb bpf_fifo_evict_cb vs s)) ctx, k', snd (run_cb bpf_fifo_evict_cb vs s))"
    using iterate_result [OF assms, of m "fifo_main_list s" bpf_fifo_evict_cb ctx k s]
    by blast
  then show ?thesis
    by (intro exI [of _ "map (snd \<circ> snd) vs"] exI [of _ k'])
      (simp add: fifo_evict_folios_def fifo_run_cb Let_def)
qed

section \<open>The hooks keep the handles\<close>

interpretation fifo: policy fifo_ops "\<lambda>K k h s. True"
    "\<lambda>s. fifo_main_list s = l \<and> inode_watchlist s = w" for l w
proof (unfold_locales, goal_cases)
  case (4 K k c m s)
  then obtain fs k' where "fifo_evict_folios K c m k s =
     (nominate (filter evictable fs) c, k',
      s\<lparr>eviction_count := eviction_count s + of_nat (length (filter evictable fs))\<rparr>)"
    using fifo_evict_nominates [of K c m k s] by auto
  with 4 show ?case by (simp add: fifo_ops_def)
qed (auto simp: fifo_ops_def fifo_folio_added_def fifo_folio_evicted_def split_def Let_def)

end
