(* ===== verification/Mru.thy ===== *)
theory Mru
  imports Dir_Watcher
begin

text \<open>
  The MRU policy, \<open>policies/cache_ext_mru.bpf.c\<close>: new and re-used folios go to the head of
  one list and eviction walks it from the head. Shown: which visited nodes are nominated,
  and that the hooks keep the list handle and the watchlist.
\<close>

record mru_state = watch_state +
  mru_list :: u64

definition mru_is_folio_relevant :: "'a watch_state_scheme \<Rightarrow> folio option \<Rightarrow> bool" where
  "mru_is_folio_relevant s fo =
     (case fo of
        None \<Rightarrow> False
      | Some f \<Rightarrow> (case mapping f of
          None \<Rightarrow> False
        | Some m \<Rightarrow> (case host m of
            None \<Rightarrow> False
          | Some i \<Rightarrow> (let res = inode_in_watchlist s (i_ino i) in res))))"

definition mru_init :: "('k, mru_state) kfuncs \<Rightarrow> u64 \<Rightarrow> 'k \<Rightarrow> mru_state \<Rightarrow> s32 \<times> 'k \<times> mru_state" where
  "mru_init K memcg k s =
     (let (l, k1) = kf_new_list K memcg k; s1 = s\<lparr>mru_list := l\<rparr>
      in if l = 0 then (- 1, k1, s1) else (0, k1, s1))"

definition mru_folio_added :: "('k, mru_state) kfuncs \<Rightarrow> folio \<Rightarrow> 'k \<Rightarrow> mru_state \<Rightarrow> 'k \<times> mru_state" where
  "mru_folio_added K f k s =
     (if \<not> mru_is_folio_relevant s (Some f) then (k, s)
      else let (ret, k1) = kf_list_add K (mru_list s) f k in (k1, s))"

definition mru_folio_accessed :: "('k, mru_state) kfuncs \<Rightarrow> folio \<Rightarrow> 'k \<Rightarrow> mru_state \<Rightarrow> 'k \<times> mru_state" where
  "mru_folio_accessed K f k s =
     (if \<not> mru_is_folio_relevant s (Some f) then (k, s)
      else let (ret, k1) = kf_list_move K (mru_list s) f False k in (k1, s))"

definition mru_folio_evicted :: "('k, mru_state) kfuncs \<Rightarrow> folio \<Rightarrow> 'k \<Rightarrow> mru_state \<Rightarrow> 'k \<times> mru_state" where
  "mru_folio_evicted K f k s = (let (ret, k1) = kf_list_del K f k in (k1, s))"

definition iterate_mru :: "'k \<Rightarrow> s32 \<Rightarrow> folio \<Rightarrow> mru_state \<Rightarrow> cb_ret \<times> mru_state" where
  "iterate_mru k idx f s =
     (if idx <s 200 \<and> (\<not> folio_test_uptodate f \<or> \<not> folio_test_lru f) then (CONTINUE_ITER, s)
      else (EVICT_NODE, s))"

definition mru_evict_folios :: "('k, mru_state) kfuncs \<Rightarrow> evict_ctx \<Rightarrow> u64 \<Rightarrow> 'k \<Rightarrow> mru_state \<Rightarrow>
    evict_ctx \<times> 'k \<times> mru_state" where
  "mru_evict_folios K ctx memcg k s =
     (let (ret, ctx', k', s') = kf_list_iterate K memcg (mru_list s) iterate_mru ctx k s
      in (ctx', k', s'))"

definition mru_ops :: "('k, mru_state) kfuncs \<Rightarrow> ('k, mru_state) cache_ext_ops" where
  "mru_ops K = \<lparr>
     op_init = mru_init K,
     op_evict_folios = mru_evict_folios K,
     op_folio_added = mru_folio_added K,
     op_folio_accessed = Some (mru_folio_accessed K),
     op_folio_evicted = mru_folio_evicted K\<rparr>"

lemma mru_is_folio_relevant_eq [simp]:
  "mru_is_folio_relevant s (Some f) = relevant s f"
  by (simp add: mru_is_folio_relevant_def relevant_def folio_host_def split: option.splits)

definition mru_takes :: "s32 \<Rightarrow> folio \<Rightarrow> bool" where
  "mru_takes idx f \<longleftrightarrow> 200 \<le> sint idx \<or> (folio_test_uptodate f \<and> folio_test_lru f)"

lemma iterate_mru_eq:
  "iterate_mru k i f s = (if mru_takes i f then EVICT_NODE else CONTINUE_ITER, s)"
  by (auto simp: iterate_mru_def mru_takes_def word_sless_alt)

lemma mru_run_cb:
  fixes vs :: "('k \<times> s32 \<times> folio) list"
  shows "run_cb iterate_mru vs s = (map (snd \<circ> snd) (filter (\<lambda>(k, i, f). mru_takes i f) vs), s)"
proof (induction vs)
  case (Cons v vs)
  obtain k i f where v: "v = (k, i, f)" by (cases v) auto
  show ?case by (cases "mru_takes i f") (simp_all add: v iterate_mru_eq [of k i f s] Cons.IH)
qed simp

lemma mru_evict_spec:
  fixes K :: "('k, mru_state) kfuncs"
  assumes "kernel_ok K"
  shows "\<exists>(vs :: ('k \<times> s32 \<times> folio) list) k'. mru_evict_folios K ctx m k s =
     (nominate (map (snd \<circ> snd) (filter (\<lambda>(k, i, f). mru_takes i f) vs)) ctx, k', s)"
proof -
  obtain vs :: "('k \<times> s32 \<times> folio) list" and r k' where
    "kf_list_iterate K m (mru_list s) iterate_mru ctx k s =
       (r, nominate (fst (run_cb iterate_mru vs s)) ctx, k', snd (run_cb iterate_mru vs s))"
    using iterate_result [OF assms, of m "mru_list s" iterate_mru ctx k s] by blast
  then show ?thesis
    by (intro exI [of _ vs] exI [of _ k']) (simp add: mru_evict_folios_def mru_run_cb)
qed

interpretation mru: policy mru_ops "\<lambda>K k h s. True"
    "\<lambda>s. mru_list s = l \<and> inode_watchlist s = w" for l w
proof (unfold_locales, goal_cases)
  case (4 K k c m s)
  then show ?case using mru_evict_spec [of K c m k s] by (auto simp: mru_ops_def)
qed (auto simp: mru_ops_def mru_folio_added_def mru_folio_evicted_def mru_folio_accessed_def
      split_def Let_def)

text \<open>
  MRU nominates every node it is shown past the first 200, and among the first 200 those
  whose page is uptodate and on an LRU list; unlike FIFO it tests neither the dirty nor the
  writeback bit.
\<close>

lemma mru_evict_nominates:
  fixes K :: "('k, mru_state) kfuncs"
  assumes "kernel_ok K"
  shows "\<exists>(vs :: ('k \<times> s32 \<times> folio) list) k'. mru_evict_folios K ctx m k s =
     (nominate (map (snd \<circ> snd) (filter (\<lambda>(k, i, f). mru_takes i f) vs)) ctx, k', s)"
  using assms by (rule mru_evict_spec)

end
