(* ===== verification/Sampling.thy ===== *)
theory Sampling
  imports Dir_Watcher
begin

text \<open>
  The sampled LFU policy, \<open>policies/cache_ext_sampling.bpf.c\<close>: a counter of accesses per
  folio, and eviction of the lowest score of a sample. The statistics helper
  \<open>update_stat\<close> is empty unless the file is compiled with \<open>DEBUG\<close>. Shown: the hooks
  refine an abstract map of access counts; the score of a folio is its count exactly when it
  may be evicted; which page counts as the last of its file; the metadata map stays within
  its capacity.
\<close>

datatype app = GENERIC_APP | LEVELDB

definition APP_TYPE :: app where
  "APP_TYPE = GENERIC_APP"

definition sampling_meta_cap :: nat where
  "sampling_meta_cap = 4000000"

text \<open>\<open>struct folio_metadata\<close> has the one field \<open>accesses\<close>.\<close>

record sampling_state = watch_state +
  sampling_list :: u64
  sampling_meta :: "(u64, u64) hmap"

definition sampling_is_folio_relevant :: "'a watch_state_scheme \<Rightarrow> folio option \<Rightarrow> bool" where
  "sampling_is_folio_relevant s fo =
     (case fo of
        None \<Rightarrow> False
      | Some f \<Rightarrow> (case mapping f of
          None \<Rightarrow> False
        | Some m \<Rightarrow> (case host m of
            None \<Rightarrow> False
          | Some i \<Rightarrow> (let res = inode_in_watchlist s (i_ino i) in res))))"

definition sampling_init :: "('k, sampling_state) kfuncs \<Rightarrow> u64 \<Rightarrow> 'k \<Rightarrow> sampling_state \<Rightarrow>
    s32 \<times> 'k \<times> sampling_state" where
  "sampling_init K memcg k s =
     (let (l, k1) = kf_new_list K memcg k; s1 = s\<lparr>sampling_list := l\<rparr>
      in if l = 0 then (- 1, k1, s1) else (0, k1, s1))"

definition sampling_folio_added :: "('k, sampling_state) kfuncs \<Rightarrow> folio \<Rightarrow> 'k \<Rightarrow> sampling_state \<Rightarrow>
    'k \<times> sampling_state" where
  "sampling_folio_added K f k s =
     (if \<not> sampling_is_folio_relevant s (Some f) then (k, s)
      else let (ret, k1) = kf_list_add_tail K (sampling_list s) f k in
        if ret \<noteq> 0 then (k1, s)
        else (k1, s\<lparr>sampling_meta := snd (hmap_update sampling_meta_cap
                (kf_map_err K k1 (folio_addr f)) (folio_addr f) 1 (sampling_meta s))\<rparr>))"

definition sampling_folio_accessed :: "('k, sampling_state) kfuncs \<Rightarrow> folio \<Rightarrow> 'k \<Rightarrow> sampling_state \<Rightarrow>
    'k \<times> sampling_state" where
  "sampling_folio_accessed K f k s =
     (if \<not> sampling_is_folio_relevant s (Some f) then (k, s)
      else let key = folio_addr f in
        case map_of (sampling_meta s) key of
          Some _ \<Rightarrow> (k, s\<lparr>sampling_meta := hmap_modify key (\<lambda>a. a + 1) (sampling_meta s)\<rparr>)
        | None \<Rightarrow>
            let (ret, m) = hmap_update sampling_meta_cap (kf_map_err K k key) key 0 (sampling_meta s)
            in if ret \<noteq> 0 then (k, s\<lparr>sampling_meta := m\<rparr>)
               else case map_of m key of
                 None \<Rightarrow> (k, s\<lparr>sampling_meta := m\<rparr>)
               | Some _ \<Rightarrow> (k, s\<lparr>sampling_meta := hmap_modify key (\<lambda>a. a + 1) m\<rparr>))"

definition sampling_folio_evicted :: "folio \<Rightarrow> 'k \<Rightarrow> sampling_state \<Rightarrow> 'k \<times> sampling_state" where
  "sampling_folio_evicted f k s =
     (k, s\<lparr>sampling_meta := snd (hmap_delete (folio_addr f) (sampling_meta s))\<rparr>)"

definition is_last_page_in_file :: "folio \<Rightarrow> bool" where
  "is_last_page_in_file f =
     (case mapping f of
        None \<Rightarrow> False
      | Some m \<Rightarrow> (case host m of
          None \<Rightarrow> False
        | Some i \<Rightarrow>
            if folio_test_large f \<or> folio_test_hugetlb f then False
            else let file_size = i_size_read i; page_index = folio_index f; page_size = 4096;
                     last_page_index = (file_size + page_size - 1) div page_size - 1
                 in page_index = last_page_index))"

definition bpf_lfu_score_fn :: "'k \<Rightarrow> folio \<Rightarrow> sampling_state \<Rightarrow> s64 \<times> sampling_state" where
  "bpf_lfu_score_fn k f s =
     (case map_of (sampling_meta s) (folio_addr f) of
        None \<Rightarrow> (INT64_MAX, s)
      | Some accesses \<Rightarrow>
          let score = accesses;
              score = (if APP_TYPE = LEVELDB then
                         if is_last_page_in_file f then score + 100000 else score
                       else score)
          in if \<not> folio_test_uptodate f \<or> \<not> folio_test_lru f then (INT64_MAX, s)
             else if folio_test_dirty f \<or> folio_test_writeback f then (INT64_MAX, s)
             else (score, s))"

definition sampling_evict_folios :: "('k, sampling_state) kfuncs \<Rightarrow> evict_ctx \<Rightarrow> u64 \<Rightarrow> 'k \<Rightarrow>
    sampling_state \<Rightarrow> evict_ctx \<times> 'k \<times> sampling_state" where
  "sampling_evict_folios K ctx memcg k s =
     (let sampling_opts = \<lparr>sample_size = 20, select_size = 0\<rparr>;
          (r, ctx', k', s') = kf_list_sample K memcg (sampling_list s) bpf_lfu_score_fn
             sampling_opts ctx k s
      in (ctx', k', s'))"

definition sampling_ops :: "('k, sampling_state) kfuncs \<Rightarrow> ('k, sampling_state) cache_ext_ops" where
  "sampling_ops K = \<lparr>
     op_init = sampling_init K,
     op_evict_folios = sampling_evict_folios K,
     op_folio_added = sampling_folio_added K,
     op_folio_accessed = Some (sampling_folio_accessed K),
     op_folio_evicted = sampling_folio_evicted\<rparr>"

lemma sampling_is_folio_relevant_eq [simp]:
  "sampling_is_folio_relevant s (Some f) = relevant s f"
  by (simp add: sampling_is_folio_relevant_def relevant_def folio_host_def split: option.splits)

section \<open>Scores\<close>

lemma lfu_score_eq:
  "bpf_lfu_score_fn k f s =
     (case map_of (sampling_meta s) (folio_addr f) of
        Some a \<Rightarrow> if evictable f then a else INT64_MAX | None \<Rightarrow> INT64_MAX, s)"
  by (auto simp: bpf_lfu_score_fn_def APP_TYPE_def evictable_tests Let_def split: option.splits)

lemma div_eq_iff_bounds:
  "0 < m \<Longrightarrow> n div m = q \<longleftrightarrow> q * m \<le> n \<and> n < (q + 1) * m" for n m q :: nat
  using div_times_less_eq_dividend [of n m] dividend_less_div_times [of m n]
  by (auto intro: div_nat_eqI simp: ac_simps)

lemma last_page_index:
  assumes "0 < sz" "sz \<le> 2 ^ 64 - 4096"
  shows "unat ((of_nat sz + 4096 - 1 :: u64) div 4096 - 1) = (sz - 1) div 4096"
proof -
  have a: "unat (of_nat sz + 4096 - 1 :: u64) = sz + 4095"
  proof -
    have "(of_nat sz + 4096 - 1 :: u64) = of_nat (sz + 4095)" by simp
    then show ?thesis using assms by (simp add: unat_of_nat del: of_nat_add)
  qed
  have d: "(sz + 4095) div 4096 = Suc ((sz - 1) div 4096)"
    using assms(1) by (cases sz) simp_all
  have u: "unat ((of_nat sz + 4096 - 1 :: u64) div 4096) = Suc ((sz - 1) div 4096)"
    by (simp only: unat_div a) (simp add: d)
  then show ?thesis by (simp add: unat_sub word_le_nat_alt)
qed

lemma is_last_page_spec:
  assumes "folio_host f = Some i" "\<not> folio_test_large f" "0 < unat (i_size i)"
    and "unat (i_size i) \<le> 2 ^ 64 - 4096"
  shows "is_last_page_in_file f \<longleftrightarrow>
    unat (index f) * 4096 < unat (i_size i) \<and> unat (i_size i) \<le> (unat (index f) + 1) * 4096"
proof -
  have "is_last_page_in_file f \<longleftrightarrow> index f = (i_size i + 4096 - 1) div 4096 - 1"
    using assms(1,2)
    by (auto simp: is_last_page_in_file_def folio_host_def folio_test_hugetlb_def Let_def
        i_size_read_def folio_index_def split: option.splits)
  also have "\<dots> \<longleftrightarrow> unat (index f) = (unat (i_size i) - 1) div 4096"
    using last_page_index [OF assms(3,4)] by (simp add: word_unat_eq_iff)
  also have "\<dots> \<longleftrightarrow> (unat (i_size i) - 1) div 4096 = unat (index f)" by (rule eq_commute)
  also have "\<dots> \<longleftrightarrow> unat (index f) * 4096 < unat (i_size i) \<and> unat (i_size i) \<le> (unat (index f) + 1) * 4096"
    using assms(3) by (subst div_eq_iff_bounds) auto
  finally show ?thesis .
qed

section \<open>Refinement of the access counts\<close>

text \<open>
  The abstract policy: a map from folios to access counts, and what each call does to it.
  A store the kernel refuses is not made.
\<close>

definition store_ok :: "('k, sampling_state) kfuncs \<Rightarrow> 'k \<Rightarrow> sampling_state \<Rightarrow> u64 \<Rightarrow> bool" where
  "store_ok K k s key \<longleftrightarrow>
     kf_map_err K k key = 0 \<and>
     (map_of (sampling_meta s) key \<noteq> None \<or> length (sampling_meta s) < sampling_meta_cap)"

fun lfu_step :: "('k, sampling_state) kfuncs \<Rightarrow> hook \<Rightarrow> 'k \<Rightarrow> sampling_state \<Rightarrow>
    (u64 \<Rightarrow> u64 option) \<Rightarrow> (u64 \<Rightarrow> u64 option)" where
  "lfu_step K (Folio_Added f) k s counts =
     (let (ret, k1) = kf_list_add_tail K (sampling_list s) f k
      in if relevant s f \<and> ret = 0 \<and> store_ok K k1 s (folio_addr f)
         then counts(folio_addr f \<mapsto> 1) else counts)"
| "lfu_step K (Folio_Accessed f) k s counts =
     (if \<not> relevant s f then counts
      else case counts (folio_addr f) of
        Some n \<Rightarrow> counts(folio_addr f \<mapsto> n + 1)
      | None \<Rightarrow> if store_ok K k s (folio_addr f) then counts(folio_addr f \<mapsto> 1) else counts)"
| "lfu_step K (Folio_Evicted f) k s counts = counts(folio_addr f := None)"
| "lfu_step K (Evict_Folios c m) k s counts = counts"

lemma hmap_update_store:
  "fst (hmap_update sampling_meta_cap (kf_map_err K k key) key v (sampling_meta s)) = 0
     \<longleftrightarrow> store_ok K k s key"
  by (auto simp: hmap_update_def store_ok_def E2BIG_def)

lemma sampling_evict_state:
  assumes "kernel_ok K"
  shows "snd (snd (sampling_evict_folios K c m k s)) = s"
proof -
  let ?o = "\<lparr>sample_size = 20, select_size = 0\<rparr>"
  have "snd (snd (snd (kf_list_sample K m (sampling_list s) bpf_lfu_score_fn ?o c k s))) = s"
    using assms by (rule sample_inv) (auto simp: lfu_score_eq split: option.splits)
  then show ?thesis by (simp add: sampling_evict_folios_def split_def Let_def)
qed

lemma sampling_added_counts:
  "map_of (sampling_meta (snd (sampling_folio_added K f k s))) =
     lfu_step K (Folio_Added f) k s (map_of (sampling_meta s))"
proof -
  obtain ret k1 where a: "kf_list_add_tail K (sampling_list s) f k = (ret, k1)" by force
  show ?thesis
    by (auto simp: sampling_folio_added_def a hash.lookup_store hmap_update_store fun_eq_iff)
qed

lemma sampling_accessed_counts:
  "map_of (sampling_meta (snd (sampling_folio_accessed K f k s))) =
     lfu_step K (Folio_Accessed f) k s (map_of (sampling_meta s))"
proof (cases "map_of (sampling_meta s) (folio_addr f)")
  case None
  obtain ret m where u: "hmap_update sampling_meta_cap (kf_map_err K k (folio_addr f))
      (folio_addr f) 0 (sampling_meta s) = (ret, m)" by force
  have "map_of m x = (if x = folio_addr f \<and> ret = 0 then Some 0 else map_of (sampling_meta s) x)" for x
    using hash.lookup_store [of sampling_meta_cap "kf_map_err K k (folio_addr f)"
        "folio_addr f" 0 "sampling_meta s" x] u by simp
  moreover have "ret = 0 \<longleftrightarrow> store_ok K k s (folio_addr f)"
    using hmap_update_store [of K k "folio_addr f" 0 s] u by simp
  ultimately show ?thesis using None
    by (auto simp: sampling_folio_accessed_def u bpf_map_simps fun_eq_iff)
next
  case (Some a)
  then show ?thesis by (auto simp: sampling_folio_accessed_def bpf_map_simps fun_eq_iff)
qed

lemma sampling_evicted_counts:
  "map_of (sampling_meta (snd (sampling_folio_evicted f k s))) =
     lfu_step K (Folio_Evicted f) k s (map_of (sampling_meta s))"
  by (auto simp: sampling_folio_evicted_def fun_eq_iff hash.del_gone hash.del_other)

text \<open>
  C18: every hook acts on the metadata map as the abstract access counter does: an added
  folio starts at one, each access adds one (a folio without an entry gets one that counts
  this access), an evicted folio is forgotten, and eviction changes no count.
\<close>

theorem sampling_refines_counts:
  assumes "kernel_ok K"
  shows "map_of (sampling_meta (snd (call_hook (sampling_ops K) h (k, s)))) =
    lfu_step K h k s (map_of (sampling_meta s))"
  using sampling_evict_state [OF assms]
  by (cases h) (simp_all add: sampling_ops_def sampling_added_counts sampling_accessed_counts
      sampling_evicted_counts del: lfu_step.simps(1-3))

text \<open>The same over every run of the hooks.\<close>

interpretation counts: policy_refinement sampling_ops "\<lambda>K h w. lfu_step K h (fst w) (snd w)"
    "\<lambda>s c. map_of (sampling_meta s) = c"
proof (unfold_locales, goal_cases)
  case (1 K w c h)
  obtain k s where w: "w = (k, s)" by (cases w)
  have c: "c = map_of (sampling_meta s)" using 1(2) by (simp add: w)
  show ?case
    using sampling_evict_state [OF 1(1)]
    by (cases h) (simp_all add: w c sampling_ops_def sampling_added_counts sampling_accessed_counts
      sampling_evicted_counts del: lfu_step.simps(1-3))
qed

lemma sampling_run_counts:
  "kernel_ok K \<Longrightarrow> map_of (sampling_meta (snd (run_hooks (sampling_ops K) hs w))) =
     abs_run (sampling_ops K) (\<lambda>h w. lfu_step K h (fst w) (snd w)) hs w (map_of (sampling_meta (snd w)))"
  by (rule counts.run_rel) simp_all

definition demo_sampling :: sampling_state where
  "demo_sampling = watch_state.extend (demo_watch\<lparr>inode_watchlist := [(42, 1)]\<rparr>)
     (sampling_state.fields 1 [(2, 6)])"

lemmas demo_sampling_simps = demo_sampling_def watch_state.defs sampling_state.defs demo_watch_def
  relevant_def inode_in_watchlist_def inode_get_client_tag_def

theorem sampling_refines_counts_witness:
  "map_of (sampling_meta (snd (call_hook (sampling_ops list_kfuncs) (Folio_Accessed (clean_folio 2))
     (demo_kernel, demo_sampling)))) 2 = Some 7"
  using sampling_refines_counts [OF list_kernel_ok, of "Folio_Accessed (clean_folio 2)" demo_kernel demo_sampling]
  by (simp add: demo_sampling_simps)

text \<open>
  A folio's score is its access count when the folio has an entry and may be evicted,
  and the largest value, which protects it, otherwise; scoring changes nothing.
\<close>

lemma lfu_score_protects:
  "bpf_lfu_score_fn k f s =
     (if evictable f then (case map_of (sampling_meta s) (folio_addr f) of
        Some a \<Rightarrow> a | None \<Rightarrow> INT64_MAX) else INT64_MAX, s)"
  by (simp add: lfu_score_eq split: option.splits)

text \<open>
  For a small page of a non-empty file shorter than 2 to the 64 less a page, the test for
  the last page holds exactly of the page the file's last byte is in.
\<close>

lemma last_page_holds_last_byte:
  assumes "folio_host f = Some i" "\<not> folio_test_large f" "0 < unat (i_size i)"
    and "unat (i_size i) \<le> 2 ^ 64 - 4096"
  shows "is_last_page_in_file f \<longleftrightarrow>
    unat (index f) * 4096 \<le> unat (i_size i) - 1 \<and> unat (i_size i) - 1 < (unat (index f) + 1) * 4096"
  using is_last_page_spec [OF assms] assms(3) by auto

section \<open>The hooks keep the map within its capacity\<close>

interpretation sampling: policy sampling_ops "\<lambda>K k h s. True"
    "\<lambda>s. hmap_ok sampling_meta_cap (sampling_meta s)"
proof (unfold_locales, goal_cases)
  case (1 K k f s)
  then show ?case
    by (auto simp: sampling_ops_def sampling_folio_added_def split_def Let_def intro: hmap_update_ok)
next
  case (2 K k f s h)
  then have "hmap_ok sampling_meta_cap (snd (hmap_update sampling_meta_cap e x 0 (sampling_meta s)))" for e x
    by (simp add: hmap_update_ok)
  with 2 show ?case
    by (auto simp: sampling_ops_def sampling_folio_accessed_def split_def Let_def split: option.splits)
next
  case (3 K k f s)
  then show ?case by (simp add: sampling_ops_def sampling_folio_evicted_def hmap_delete_ok)
next
  case (4 K k c m s)
  then show ?case by (simp add: sampling_ops_def sampling_evict_state)
qed

end
