(* ===== verification/Get_Scan.thy ===== *)
theory Get_Scan
  imports Sampling
begin

text \<open>
  The GET-SCAN policy, \<open>policies/cache_ext_get_scan.bpf.c\<close>: folios inserted by threads
  registered as scanners go to a list of their own, which is evicted from first when it is
  long enough. The statistics helpers are empty unless the file is compiled with \<open>DEBUG\<close>.
  Shown: the counter of scan pages is the number of tracked folios a scan inserted; which list
  an eviction samples, and that with no scan page at all nothing is evicted.
\<close>

datatype list_type = LIST_GENERAL | LIST_FOR_SCANS

fun list_type_index :: "list_type \<Rightarrow> nat" where
  "list_type_index LIST_GENERAL = 0"
| "list_type_index LIST_FOR_SCANS = 1"

record scan_metadata =
  sm_accesses :: u64
  sm_last_access_time :: u64
  sm_touched_by_scan :: bool

text \<open>\<open>sampling_list_map\<close> is a BPF array of two list handles.\<close>

record mixed_state = watch_state +
  scan_pids :: "(u32, bool) hmap"
  mixed_meta :: "(u64, scan_metadata) hmap"
  sampling_list_map :: "u64 list"
  scan_pages :: s64

definition mixed_meta_cap :: nat where
  "mixed_meta_cap = 4000000"

text \<open>The map's key is an \<open>int\<close>, read from the low half of the 64-bit \<open>pid\<close>.\<close>

definition is_scanning_pid :: "('k, mixed_state) kfuncs \<Rightarrow> 'k \<Rightarrow> mixed_state \<Rightarrow> bool" where
  "is_scanning_pid K k s =
     (let pid = kf_current_pid_tgid K k; pid = pid AND 0xFFFFFFFF
      in case map_of (scan_pids s) (ucast pid) of None \<Rightarrow> False | Some _ \<Rightarrow> True)"

definition get_sampling_list :: "mixed_state \<Rightarrow> list_type \<Rightarrow> u64" where
  "get_sampling_list s t =
     (if list_type_index t < length (sampling_list_map s)
      then sampling_list_map s ! list_type_index t else 0)"

definition mixed_is_folio_relevant :: "'a watch_state_scheme \<Rightarrow> folio option \<Rightarrow> bool" where
  "mixed_is_folio_relevant s fo =
     (case fo of
        None \<Rightarrow> False
      | Some f \<Rightarrow> (case mapping f of
          None \<Rightarrow> False
        | Some m \<Rightarrow> (case host m of
            None \<Rightarrow> False
          | Some i \<Rightarrow> (let res = inode_in_watchlist s (i_ino i) in res))))"

text \<open>A store into an array map fails only past its end.\<close>

fun mixed_init_lists :: "('k, mixed_state) kfuncs \<Rightarrow> u64 \<Rightarrow> list_type list \<Rightarrow> 'k \<Rightarrow> mixed_state \<Rightarrow>
    s32 \<times> 'k \<times> mixed_state" where
  "mixed_init_lists K memcg [] k s = (0, k, s)"
| "mixed_init_lists K memcg (t # ts) k s =
     (let (l, k1) = kf_new_list K memcg k in
      if l = 0 then (- 1, k1, s)
      else if length (sampling_list_map s) \<le> list_type_index t then (- 1, k1, s)
      else mixed_init_lists K memcg ts k1
             (s\<lparr>sampling_list_map := (sampling_list_map s)[list_type_index t := l]\<rparr>))"

definition mixed_init :: "('k, mixed_state) kfuncs \<Rightarrow> u64 \<Rightarrow> 'k \<Rightarrow> mixed_state \<Rightarrow>
    s32 \<times> 'k \<times> mixed_state" where
  "mixed_init K memcg k s = mixed_init_lists K memcg [LIST_GENERAL, LIST_FOR_SCANS] k s"

definition mixed_folio_added :: "('k, mixed_state) kfuncs \<Rightarrow> folio \<Rightarrow> 'k \<Rightarrow> mixed_state \<Rightarrow>
    'k \<times> mixed_state" where
  "mixed_folio_added K f k s =
     (if \<not> mixed_is_folio_relevant s (Some f) then (k, s)
      else
        let touched_by_scan = is_scanning_pid K k s;
            list_type = (if touched_by_scan then LIST_FOR_SCANS else LIST_GENERAL);
            sampling_list = get_sampling_list s list_type
        in if sampling_list = 0 then (k, s)
           else let (ret, k1) = kf_list_add_tail K sampling_list f k in
             if ret \<noteq> 0 then (k1, s)
             else
               let s1 = (if touched_by_scan then s\<lparr>scan_pages := scan_pages s + 1\<rparr> else s);
                   key = folio_addr f;
                   new_meta = \<lparr>sm_accesses = 1, sm_last_access_time = kf_ktime_get_ns K k1,
                               sm_touched_by_scan = touched_by_scan\<rparr>
               in (k1, s1\<lparr>mixed_meta := snd (hmap_update mixed_meta_cap (kf_map_err K k1 key)
                                              key new_meta (mixed_meta s1))\<rparr>))"

definition mixed_folio_accessed :: "('k, mixed_state) kfuncs \<Rightarrow> folio \<Rightarrow> 'k \<Rightarrow> mixed_state \<Rightarrow>
    'k \<times> mixed_state" where
  "mixed_folio_accessed K f k s =
     (if \<not> mixed_is_folio_relevant s (Some f) then (k, s)
      else
        let key = folio_addr f;
            touch = (\<lambda>m. m\<lparr>sm_accesses := sm_accesses m + 1,
                           sm_last_access_time := kf_ktime_get_ns K k\<rparr>)
        in case map_of (mixed_meta s) key of
             Some _ \<Rightarrow> (k, s\<lparr>mixed_meta := hmap_modify key touch (mixed_meta s)\<rparr>)
           | None \<Rightarrow>
               let new_meta = \<lparr>sm_accesses = 0, sm_last_access_time = 0, sm_touched_by_scan = False\<rparr>;
                   (ret, m) = hmap_update mixed_meta_cap (kf_map_err K k key) key new_meta (mixed_meta s)
               in if ret \<noteq> 0 then (k, s\<lparr>mixed_meta := m\<rparr>)
                  else case map_of m key of
                    None \<Rightarrow> (k, s\<lparr>mixed_meta := m\<rparr>)
                  | Some _ \<Rightarrow> (k, s\<lparr>mixed_meta := hmap_modify key touch m\<rparr>))"

definition mixed_folio_evicted :: "('k, mixed_state) kfuncs \<Rightarrow> folio \<Rightarrow> 'k \<Rightarrow> mixed_state \<Rightarrow>
    'k \<times> mixed_state" where
  "mixed_folio_evicted K f k s =
     (let (ret, k1) = kf_list_del K f k;
          key = folio_addr f;
          touched_by_scan = (case map_of (mixed_meta s) key of
                               Some m \<Rightarrow> sm_touched_by_scan m | None \<Rightarrow> False);
          s1 = s\<lparr>mixed_meta := snd (hmap_delete key (mixed_meta s))\<rparr>
      in (k1, if touched_by_scan then s1\<lparr>scan_pages := scan_pages s1 - 1\<rparr> else s1))"

definition mixed_is_last_page_in_file :: "folio \<Rightarrow> bool" where
  "mixed_is_last_page_in_file f =
     (case mapping f of
        None \<Rightarrow> False
      | Some m \<Rightarrow> (case host m of
          None \<Rightarrow> False
        | Some i \<Rightarrow>
            if folio_test_large f \<or> folio_test_hugetlb f then False
            else let file_size = i_size_read i; page_index = folio_index f; page_size = 4096;
                     last_page_index = (file_size + page_size - 1) div page_size - 1
                 in page_index = last_page_index))"

definition mixed_lfu_score_fn :: "'k \<Rightarrow> folio \<Rightarrow> mixed_state \<Rightarrow> s64 \<times> mixed_state" where
  "mixed_lfu_score_fn k f s =
     (case map_of (mixed_meta s) (folio_addr f) of
        None \<Rightarrow> (INT64_MAX, s)
      | Some m \<Rightarrow>
          let score = sm_accesses m; is_last_page = mixed_is_last_page_in_file f
          in (if is_last_page then score + 100000 else score, s))"

text \<open>The list that is sampled depends on the signed number of scan pages.\<close>

definition mixed_evict_folios :: "('k, mixed_state) kfuncs \<Rightarrow> evict_ctx \<Rightarrow> u64 \<Rightarrow> 'k \<Rightarrow>
    mixed_state \<Rightarrow> evict_ctx \<times> 'k \<times> mixed_state" where
  "mixed_evict_folios K ctx memcg k s =
     (let sampling_rate = 5; num_scan_pages = scan_pages s in
      if num_scan_pages = 0 then (ctx, k, s)
      else
        let list_type = (if num_scan_pages <s 1000 * sampling_rate then LIST_GENERAL
                         else LIST_FOR_SCANS);
            sampling_list = get_sampling_list s list_type
        in if sampling_list = 0 then (ctx, k, s)
           else let sampling_opts = \<lparr>sample_size = 5, select_size = 0\<rparr>;
                    (r, ctx', k', s') = kf_list_sample K memcg sampling_list mixed_lfu_score_fn
                       sampling_opts ctx k s
                in (ctx', k', s'))"

definition mixed_ops :: "('k, mixed_state) kfuncs \<Rightarrow> ('k, mixed_state) cache_ext_ops" where
  "mixed_ops K = \<lparr>
     op_init = mixed_init K,
     op_evict_folios = mixed_evict_folios K,
     op_folio_added = mixed_folio_added K,
     op_folio_accessed = Some (mixed_folio_accessed K),
     op_folio_evicted = mixed_folio_evicted K\<rparr>"

lemma mixed_is_folio_relevant_eq [simp]:
  "mixed_is_folio_relevant s (Some f) = relevant s f"
  by (simp add: mixed_is_folio_relevant_def relevant_def folio_host_def split: option.splits)

lemma mixed_is_last_page_eq: "mixed_is_last_page_in_file f = is_last_page_in_file f"
  by (simp add: mixed_is_last_page_in_file_def is_last_page_in_file_def)

lemma mixed_score_state [simp]: "snd (mixed_lfu_score_fn k f s) = s"
  by (simp add: mixed_lfu_score_fn_def Let_def split: option.splits)

section \<open>The number of scan pages\<close>

definition scan_count :: "mixed_state \<Rightarrow> nat" where
  "scan_count s = hmap_count sm_touched_by_scan (mixed_meta s)"

definition mixed_inv :: "mixed_state \<Rightarrow> bool" where
  "mixed_inv s \<longleftrightarrow> hmap_ok mixed_meta_cap (mixed_meta s) \<and> scan_pages s = of_nat (scan_count s)"

text \<open>
  What the kernel grants: a folio is reported as added only while it is not tracked, and the
  map store for it succeeds.
\<close>

definition mixed_adm :: "('k, mixed_state) kfuncs \<Rightarrow> 'k \<Rightarrow> hook \<Rightarrow> mixed_state \<Rightarrow> bool" where
  "mixed_adm K k h s \<longleftrightarrow>
     (case h of
        Folio_Added f \<Rightarrow> map_of (mixed_meta s) (folio_addr f) = None
          \<and> length (mixed_meta s) < mixed_meta_cap \<and> (\<forall>k'. kf_map_err K k' (folio_addr f) = 0)
      | _ \<Rightarrow> True)"

lemma mixed_added_inv:
  assumes "mixed_adm K k (Folio_Added f) s" "mixed_inv s"
  shows "mixed_inv (snd (mixed_folio_added K f k s))"
proof -
  have new: "map_of (mixed_meta s) (folio_addr f) = None" "length (mixed_meta s) < mixed_meta_cap"
    "\<And>k'. kf_map_err K k' (folio_addr f) = 0"
    using assms(1) by (auto simp: mixed_adm_def)
  then show ?thesis
    using assms(2)
    by (auto simp: mixed_folio_added_def hmap_update_new hmap_update_new_ok mixed_inv_def
        scan_count_def hmap_count_insert split_def Let_def)
qed

lemma mixed_accessed_inv:
  assumes "mixed_inv s"
  shows "mixed_inv (snd (mixed_folio_accessed K f k s))"
proof (cases "map_of (mixed_meta s) (folio_addr f)")
  case (Some v)
  then show ?thesis using assms
    by (auto simp: mixed_folio_accessed_def mixed_inv_def scan_count_def Let_def hmap_count_modify hmap_ok_def)
next
  case None
  let ?v = "\<lparr>sm_accesses = 0, sm_last_access_time = 0, sm_touched_by_scan = False\<rparr>"
  have "hmap_ok mixed_meta_cap (snd (hmap_update mixed_meta_cap e (folio_addr f) ?v (mixed_meta s)))
      \<and> hmap_count sm_touched_by_scan (snd (hmap_update mixed_meta_cap e (folio_addr f) ?v (mixed_meta s)))
        = scan_count s" for e
    using assms None hmap_update_ok [of mixed_meta_cap "mixed_meta s" e "folio_addr f" ?v]
    by (auto simp: mixed_inv_def hmap_update_def scan_count_def hmap_count_insert)
  then show ?thesis using assms None
    by (auto simp: mixed_folio_accessed_def mixed_inv_def scan_count_def hmap_count_modify hmap_ok_def
        split_def Let_def split: option.splits)
qed

lemma mixed_evicted_inv:
  assumes "mixed_inv s"
  shows "mixed_inv (snd (mixed_folio_evicted K f k s))"
proof (cases "map_of (mixed_meta s) (folio_addr f)")
  case None
  then show ?thesis using assms
    by (simp add: mixed_folio_evicted_def mixed_inv_def scan_count_def hmap_delete_def split_def Let_def)
next
  case (Some v)
  have "scan_count s = hmap_count sm_touched_by_scan (AList.delete (folio_addr f) (mixed_meta s))
      + (if sm_touched_by_scan v then 1 else 0)"
    using assms Some by (simp add: mixed_inv_def hmap_ok_def scan_count_def hmap_count_delete)
  moreover have "hmap_ok mixed_meta_cap (AList.delete (folio_addr f) (mixed_meta s))"
    using assms Some hmap_delete_ok [of mixed_meta_cap "mixed_meta s" "folio_addr f"]
    by (simp add: mixed_inv_def hmap_delete_def)
  ultimately show ?thesis using assms Some
    by (auto simp: mixed_folio_evicted_def mixed_inv_def scan_count_def hmap_delete_def
        split_def Let_def split: if_splits)
qed

lemma mixed_evict_state:
  assumes "kernel_ok K"
  shows "snd (snd (mixed_evict_folios K c m k s)) = s"
proof -
  have "snd (snd (snd (kf_list_sample K m l mixed_lfu_score_fn o' c k s))) = s" for l o'
    using assms by (rule sample_inv) auto
  then show ?thesis by (simp add: mixed_evict_folios_def split_def Let_def)
qed

interpretation mixed: policy mixed_ops mixed_adm mixed_inv
  by unfold_locales
    (auto simp: mixed_ops_def mixed_added_inv mixed_accessed_inv mixed_evicted_inv mixed_evict_state)

text \<open>
  C17: over every run of the hooks in which added folios are new and their metadata is
  stored, the counter of scan pages stays equal to the number of tracked folios that a scan
  inserted.
\<close>

theorem scan_pages_exact:
  assumes "kernel_ok K" "admissible (mixed_adm K) (mixed_ops K) hs w" "mixed_inv (snd w)"
  shows "scan_pages (snd (run_hooks (mixed_ops K) hs w)) =
    of_nat (hmap_count sm_touched_by_scan (mixed_meta (snd (run_hooks (mixed_ops K) hs w))))"
  using mixed.run_inv [OF assms] by (simp add: mixed_inv_def scan_count_def)

definition demo_mixed :: mixed_state where
  "demo_mixed = watch_state.extend (demo_watch\<lparr>inode_watchlist := [(42, 1)]\<rparr>)
     (mixed_state.fields [(7, True)] [] [1, 2] 0)"

lemmas demo_mixed_simps = demo_mixed_def watch_state.defs mixed_state.defs demo_watch_def
  relevant_def inode_in_watchlist_def inode_get_client_tag_def

text \<open>Thread 7 is a scanner; it inserts one folio.\<close>

theorem scan_pages_exact_witness:
  "scan_pages (snd (run_hooks (mixed_ops list_kfuncs) [Folio_Added (clean_folio 2)]
     (demo_kernel\<lparr>lk_pid := 7\<rparr>, demo_mixed))) = 1"
proof -
  let ?w = "(demo_kernel\<lparr>lk_pid := 7\<rparr>, demo_mixed)" and ?hs = "[Folio_Added (clean_folio 2)]"
  have adm: "admissible (mixed_adm list_kfuncs) (mixed_ops list_kfuncs) ?hs ?w"
    by (simp add: mixed_adm_def demo_mixed_simps mixed_meta_cap_def list_kfuncs_def)
  have inv: "mixed_inv (snd ?w)"
    by (simp add: mixed_inv_def scan_count_def hmap_ok_def demo_mixed_simps)
  show ?thesis
    using scan_pages_exact [OF list_kernel_ok adm inv]
    by (simp add: mixed_ops_def mixed_folio_added_def is_scanning_pid_def get_sampling_list_def
        demo_mixed_simps demo_simps list_kernel_simps hmap_update_def mixed_meta_cap_def Let_def)
qed

section \<open>Which list is evicted from\<close>

lemma mixed_evict_cases:
  "mixed_evict_folios K ctx m k s =
     (let l = get_sampling_list s (if sint (scan_pages s) < 5000 then LIST_GENERAL else LIST_FOR_SCANS)
      in if scan_pages s = 0 \<or> l = 0 then (ctx, k, s)
         else snd (kf_list_sample K m l mixed_lfu_score_fn \<lparr>sample_size = 5, select_size = 0\<rparr> ctx k s))"
  by (simp add: mixed_evict_folios_def word_sless_alt split_def Let_def)

lemma mixed_inv_few:
  assumes "mixed_inv s" shows "scan_pages s = 0 \<longleftrightarrow> scan_count s = 0"
    and "sint (scan_pages s) = int (scan_count s)"
proof -
  have "hmap_count P m \<le> length m" for P and m :: "(u64, scan_metadata) hmap"
    by (simp add: hmap_count_def)
  then have "scan_count s \<le> 4000000"
    using assms le_trans by (fastforce simp: mixed_inv_def hmap_ok_def scan_count_def mixed_meta_cap_def)
  then have "scan_count s < 2 ^ 63" by simp
  with assms show si: "sint (scan_pages s) = int (scan_count s)"
    by (simp add: mixed_inv_def sint_of_nat_small)
  then show "scan_pages s = 0 \<longleftrightarrow> scan_count s = 0"
    using assms by (auto simp: mixed_inv_def)
qed

text \<open>
  While the counter is exact, eviction looks at the scan list only with at least 5000
  tracked scan folios and at the general list with fewer; when no tracked folio was
  inserted by a scan, it nominates nothing at all, whatever the general list holds.
\<close>

lemma mixed_evict_list:
  assumes "mixed_inv s"
  shows "mixed_evict_folios K ctx m k s =
     (let n = hmap_count sm_touched_by_scan (mixed_meta s);
          l = sampling_list_map s ! (if n < 5000 then 0 else 1)
      in if n = 0 \<or> length (sampling_list_map s) \<le> (if n < 5000 then 0 else 1) \<or> l = 0
         then (ctx, k, s)
         else snd (kf_list_sample K m l mixed_lfu_score_fn \<lparr>sample_size = 5, select_size = 0\<rparr> ctx k s))"
  using mixed_inv_few [OF assms]
  by (auto simp: mixed_evict_cases get_sampling_list_def scan_count_def Let_def not_less)

lemma mixed_run_lists:
  assumes "kernel_ok K"
  shows "sampling_list_map (snd (run_hooks (mixed_ops K) hs w)) = sampling_list_map (snd w)"
proof (induction hs arbitrary: w)
  case (Cons h hs)
  have "sampling_list_map (snd (call_hook (mixed_ops K) h w)) = sampling_list_map (snd w)"
    using mixed_evict_state [OF assms]
    by (cases h; cases w) (auto simp: mixed_ops_def mixed_folio_added_def mixed_folio_accessed_def
        mixed_folio_evicted_def Let_def split_def split: option.split)
  then show ?case by (simp add: Cons.IH)
qed simp

text \<open>
  C14: after every run of the hooks in which added folios are new and their metadata is stored,
  an eviction samples five folios from the scan list only when at least 5000 tracked folios
  were inserted by scans, and from the general list when fewer were; when none was, it
  nominates nothing at all, however long the general list is.
\<close>

theorem eviction_list_choice:
  assumes "kernel_ok K" "admissible (mixed_adm K) (mixed_ops K) hs w" "mixed_inv (snd w)"
    and "sampling_list_map (snd w) = [general, scans]"
    and s: "s = snd (run_hooks (mixed_ops K) hs w)" and n: "n = hmap_count sm_touched_by_scan (mixed_meta s)"
    and l: "l = (if n < 5000 then general else scans)"
  shows "mixed_evict_folios K ctx m k s =
    (if n = 0 \<or> l = 0 then (ctx, k, s)
     else snd (kf_list_sample K m l mixed_lfu_score_fn \<lparr>sample_size = 5, select_size = 0\<rparr> ctx k s))"
proof -
  have "mixed_inv s" "sampling_list_map s = [general, scans]"
    using mixed.run_inv [OF assms(1-3)] mixed_run_lists [OF assms(1), of hs w] assms(4) by (simp_all add: s)
  from mixed_evict_list [OF this(1), of K ctx m k] this(2) show ?thesis
    by (simp add: n [symmetric] l Let_def)
qed

text \<open>Page 2 was read by a scan, so the general list is sampled; read by anyone else, nothing is evicted.\<close>

theorem eviction_list_choice_witness:
  "let s = (\<lambda>pid. snd (run_hooks (mixed_ops list_kfuncs) [Folio_Added (clean_folio 2)]
        (demo_kernel\<lparr>lk_pid := pid\<rparr>, demo_mixed)))
   in mixed_evict_folios list_kfuncs demo_ctx 0 demo_kernel (s 7) =
        snd (kf_list_sample list_kfuncs 0 1 mixed_lfu_score_fn \<lparr>sample_size = 5, select_size = 0\<rparr>
          demo_ctx demo_kernel (s 7))
      \<and> mixed_evict_folios list_kfuncs demo_ctx 0 demo_kernel (s 8) = (demo_ctx, demo_kernel, s 8)"
proof -
  let ?w = "\<lambda>pid. (demo_kernel\<lparr>lk_pid := pid\<rparr>, demo_mixed)" and ?hs = "[Folio_Added (clean_folio 2)]"
  have adm: "admissible (mixed_adm list_kfuncs) (mixed_ops list_kfuncs) ?hs (?w pid)" for pid
    by (simp add: mixed_adm_def demo_mixed_simps mixed_meta_cap_def list_kfuncs_def)
  have inv: "mixed_inv (snd (?w pid))" "sampling_list_map (snd (?w pid)) = [1, 2]" for pid
    by (simp_all add: mixed_inv_def scan_count_def hmap_ok_def demo_mixed_simps)
  have count: "hmap_count sm_touched_by_scan (mixed_meta (snd (run_hooks (mixed_ops list_kfuncs) ?hs (?w 7)))) = 1"
    "hmap_count sm_touched_by_scan (mixed_meta (snd (run_hooks (mixed_ops list_kfuncs) ?hs (?w 8)))) = 0"
    by (simp_all add: mixed_ops_def mixed_folio_added_def is_scanning_pid_def get_sampling_list_def hmap_count_def
        demo_mixed_simps demo_simps list_kernel_simps hmap_update_def mixed_meta_cap_def Let_def)
  show ?thesis
    unfolding Let_def
    using eviction_list_choice [OF list_kernel_ok adm [of 7] inv(1) [of 7] inv(2) [of 7] refl refl refl,
        of demo_ctx 0 demo_kernel]
      eviction_list_choice [OF list_kernel_ok adm [of 8] inv(1) [of 8] inv(2) [of 8] refl refl refl,
        of demo_ctx 0 demo_kernel]
    unfolding count by simp
qed

end
