(* ===== verification/Net.thy ===== *)
theory Net
  imports Dir_Watcher
begin

text \<open>
  The network-aware policy, \<open>policies/cache_ext_net.bpf.c\<close>: folios are tracked on access
  with their owner process; a probe on \<open>tcp_recvmsg\<close> records which database process is
  active. Shown: which folios an eviction nominates; what an access does on each branch; the
  debug counters account for every call.
\<close>

record net_folio_metadata =
  owner_pid :: u32
  nm_last_access_ts :: u64

record net_state = watch_state +
  debug_counters :: "u64 list"
  add_tail_errors :: "(s32, u64) hmap"
  net_meta :: "(u64, net_folio_metadata) hmap"
  last_packet_ts :: u64
  active_db_pid :: u32
  net_main_list :: u64

definition net_meta_cap :: nat where "net_meta_cap = 1000000"
definition net_errors_cap :: nat where "net_errors_cap = 16"

definition NET_IDLE_TIMEOUT :: u64 where "NET_IDLE_TIMEOUT = 5000000000"
definition WORKING_SET_WINDOW :: u64 where "WORKING_SET_WINDOW = 1000000000"
definition PERIOD_NS :: u64 where "PERIOD_NS = 100000000"

definition bump_counter :: "u32 \<Rightarrow> net_state \<Rightarrow> net_state" where
  "bump_counter idx s = s\<lparr>debug_counters := counter_bump idx (debug_counters s)\<rparr>"

definition bump_error :: "('k, net_state) kfuncs \<Rightarrow> 'k \<Rightarrow> s32 \<Rightarrow> net_state \<Rightarrow> net_state" where
  "bump_error K k err s =
     (case map_of (add_tail_errors s) err of
        Some _ \<Rightarrow> s\<lparr>add_tail_errors := hmap_modify err (\<lambda>v. v + 1) (add_tail_errors s)\<rparr>
      | None \<Rightarrow> s\<lparr>add_tail_errors := snd (hmap_update net_errors_cap (kf_map_err K k (scast err))
                                          err 1 (add_tail_errors s))\<rparr>)"

text \<open>Defined beside the helpers, and called by nothing.\<close>

definition is_folio_lru_eligible :: "folio \<Rightarrow> bool" where
  "is_folio_lru_eligible f =
     (if \<not> folio_test_uptodate f \<or> \<not> folio_test_lru f then False
      else if folio_test_dirty f \<or> folio_test_writeback f then False
      else \<not> folio_test_unevictable f)"

definition net_init :: "('k, net_state) kfuncs \<Rightarrow> u64 \<Rightarrow> 'k \<Rightarrow> net_state \<Rightarrow> s32 \<times> 'k \<times> net_state" where
  "net_init K memcg k s =
     (let s1 = bump_counter 5 s;
          (l, k1) = kf_new_list K memcg k;
          s2 = s1\<lparr>net_main_list := l\<rparr>
      in if l = 0 then (- 1, k1, s2) else (0, k1, s2))"

definition bpf_net_evict_cb :: "('k, net_state) kfuncs \<Rightarrow> 'k \<Rightarrow> s32 \<Rightarrow> folio \<Rightarrow> net_state \<Rightarrow>
    cb_ret \<times> net_state" where
  "bpf_net_evict_cb K k idx f s =
     (let now = kf_ktime_get_ns K k; key = folio_addr f in
      case map_of (net_meta s) key of
        None \<Rightarrow> (EVICT_NODE, s)
      | Some meta \<Rightarrow>
          if now - nm_last_access_ts meta < PERIOD_NS then (CONTINUE_ITER, s)
          else if active_db_pid s = 0 then (CONTINUE_ITER, s)
          else if owner_pid meta \<noteq> active_db_pid s then (EVICT_NODE, s)
          else
            let is_session_active = (now - last_packet_ts s < NET_IDLE_TIMEOUT) in
            if is_session_active then
              if now - nm_last_access_ts meta < WORKING_SET_WINDOW then (CONTINUE_ITER, s)
              else (EVICT_NODE, s)
            else (EVICT_NODE, s))"

definition net_evict_folios :: "('k, net_state) kfuncs \<Rightarrow> evict_ctx \<Rightarrow> u64 \<Rightarrow> 'k \<Rightarrow> net_state \<Rightarrow>
    evict_ctx \<times> 'k \<times> net_state" where
  "net_evict_folios K ctx memcg k s =
     (let s1 = bump_counter 0 s;
          (r, ctx', k', s') = kf_list_iterate K memcg (net_main_list s1) (bpf_net_evict_cb K) ctx k s1
      in (ctx', k', s'))"

definition net_folio_evicted :: "folio \<Rightarrow> 'k \<Rightarrow> net_state \<Rightarrow> 'k \<times> net_state" where
  "net_folio_evicted f k s = (k, s\<lparr>net_meta := snd (hmap_delete (folio_addr f) (net_meta s))\<rparr>)"

definition net_folio_added :: "folio \<Rightarrow> 'k \<Rightarrow> net_state \<Rightarrow> 'k \<times> net_state" where
  "net_folio_added f k s =
     (case folio_host f of
        None \<Rightarrow> (k, bump_counter 1 s)
      | Some i \<Rightarrow> if \<not> inode_in_watchlist s (i_ino i) then (k, bump_counter 2 s)
                  else (k, bump_counter 3 s))"

definition net_folio_accessed :: "('k, net_state) kfuncs \<Rightarrow> folio \<Rightarrow> 'k \<Rightarrow> net_state \<Rightarrow> 'k \<times> net_state" where
  "net_folio_accessed K f k s =
     (let s1 = bump_counter 8 s; key = folio_addr f in
      case map_of (net_meta s1) key of
        None \<Rightarrow>
          (case folio_host f of
             None \<Rightarrow> (k, s1)
           | Some i \<Rightarrow>
               if \<not> inode_in_watchlist s1 (i_ino i) then (k, s1)
               else
                 let (ret, k1) = kf_list_add K (net_main_list s1) f k in
                 if ret \<noteq> 0 then
                   let s2 = bump_error K k1 ret s1;
                       s3 = bump_counter 4 s2;
                       (mv, k2) = kf_list_move K (net_main_list s3) f True k1
                   in (k2, if mv = 0 then bump_counter 6 s3 else bump_counter 7 s3)
                 else
                   let new_meta = \<lparr>owner_pid = ucast (drop_bit 32 (kf_current_pid_tgid K k1)),
                                   nm_last_access_ts = kf_ktime_get_ns K k1\<rparr>
                   in (k1, s1\<lparr>net_meta := snd (hmap_update net_meta_cap (kf_map_err K k1 key)
                                                key new_meta (net_meta s1))\<rparr>))
      | Some _ \<Rightarrow>
          let s2 = s1\<lparr>net_meta := hmap_modify key
                        (\<lambda>m. m\<lparr>nm_last_access_ts := kf_ktime_get_ns K k\<rparr>) (net_meta s1)\<rparr>;
              (mv, k1) = kf_list_move K (net_main_list s2) f True k
          in (k1, s2))"

text \<open>\<open>skc\<close> is the local port of the socket, \<open>None\<close> for a NULL socket.\<close>

definition trace_tcp_recvmsg :: "('k, net_state) kfuncs \<Rightarrow> u16 option \<Rightarrow> 'k \<Rightarrow> net_state \<Rightarrow> net_state" where
  "trace_tcp_recvmsg K skc k s =
     (case skc of
        None \<Rightarrow> s
      | Some sport \<Rightarrow>
          if sport = 9001 \<or> sport = 9002
          then s\<lparr>last_packet_ts := kf_ktime_get_ns K k,
                 active_db_pid := ucast (drop_bit 32 (kf_current_pid_tgid K k))\<rparr>
          else s)"

definition net_ops :: "('k, net_state) kfuncs \<Rightarrow> ('k, net_state) cache_ext_ops" where
  "net_ops K = \<lparr>
     op_init = net_init K,
     op_evict_folios = net_evict_folios K,
     op_folio_added = net_folio_added,
     op_folio_accessed = Some (net_folio_accessed K),
     op_folio_evicted = net_folio_evicted\<rparr>"

section \<open>What is nominated\<close>

definition net_idle :: "u64 \<Rightarrow> net_state \<Rightarrow> folio \<Rightarrow> bool" where
  "net_idle now s f \<longleftrightarrow>
     (case map_of (net_meta s) (folio_addr f) of
        None \<Rightarrow> True
      | Some m \<Rightarrow> PERIOD_NS \<le> now - nm_last_access_ts m \<and> active_db_pid s \<noteq> 0 \<and>
          (owner_pid m = active_db_pid s \<longrightarrow>
             NET_IDLE_TIMEOUT \<le> now - last_packet_ts s \<or> WORKING_SET_WINDOW \<le> now - nm_last_access_ts m))"

lemma net_cb_eq:
  "bpf_net_evict_cb K k i f s = (if net_idle (kf_ktime_get_ns K k) s f then EVICT_NODE else CONTINUE_ITER, s)"
  by (auto simp: bpf_net_evict_cb_def net_idle_def Let_def not_less split: option.splits)

text \<open>
  What the helper would add: it tells evictable folios that are not locked in memory, but the
  callback looks at nothing but the address of the folio.
\<close>

lemma is_folio_lru_eligible_iff: "is_folio_lru_eligible f \<longleftrightarrow> evictable f \<and> \<not> folio_test_unevictable f"
  by (auto simp: is_folio_lru_eligible_def evictable_tests)

lemma net_cb_address_only:
  "folio_addr f = folio_addr g \<Longrightarrow> bpf_net_evict_cb K k i f s = bpf_net_evict_cb K k i g s"
  by (simp add: net_cb_eq net_idle_def)

lemma net_run_cb:
  fixes K :: "('k, net_state) kfuncs"
  shows "run_cb (bpf_net_evict_cb K) vs s =
     (map (snd \<circ> snd) (filter (\<lambda>(k, i, f). net_idle (kf_ktime_get_ns K k) s f) vs), s)"
proof (induction vs)
  case (Cons v vs)
  obtain k i f where v: "v = (k, i, f)" by (cases v) auto
  show ?case
    by (cases "net_idle (kf_ktime_get_ns K k) s f") (simp_all add: v net_cb_eq [of K k i f s] Cons.IH)
qed simp

lemma net_idle_bump [simp]: "net_idle now (bump_counter c s) f = net_idle now s f"
  by (simp add: net_idle_def bump_counter_def cong: option.case_cong)

lemma net_evict_spec:
  fixes K :: "('k, net_state) kfuncs"
  assumes "kernel_ok K"
  shows "\<exists>(vs :: ('k \<times> s32 \<times> folio) list) k'. net_evict_folios K ctx m k s =
     (nominate (map (snd \<circ> snd) (filter (\<lambda>(k, i, f). net_idle (kf_ktime_get_ns K k) s f) vs)) ctx,
      k', bump_counter 0 s)"
proof -
  let ?s = "bump_counter 0 s" and ?cb = "bpf_net_evict_cb K"
  obtain vs :: "('k \<times> s32 \<times> folio) list" and r k' where
    "kf_list_iterate K m (net_main_list ?s) ?cb ctx k ?s =
       (r, nominate (fst (run_cb ?cb vs ?s)) ctx, k', snd (run_cb ?cb vs ?s))"
    using iterate_result [OF assms, of m "net_main_list ?s" ?cb ctx k ?s] by blast
  then show ?thesis
    by (intro exI [of _ vs] exI [of _ k']) (simp add: net_evict_folios_def net_run_cb)
qed

lemma net_never_stops: "\<not> may_stop (bpf_net_evict_cb K)"
  by (auto simp: may_stop_def net_cb_eq)

text \<open>
  C24: an eviction that does not fail runs over the list until the request is met, or to its
  end, and nominates exactly the folios it passes that are idle at the time of their visit
  (\<open>net_idle\<close>). So while no database process has been seen it nominates no tracked folio;
  and when it visits a tracked folio it nominates, which is not before the eviction began, its
  last access is at least 100 ms old, and one of the active process was not touched within the
  last second of a live session.
\<close>

theorem net_protects:
  fixes K :: "('k, net_state) kfuncs"
  assumes "list_walk K V" and vs: "vs = V m (net_main_list s) k"
    and ok: "\<not> fst (kf_list_iterate K m (net_main_list s) (bpf_net_evict_cb K) ctx k (bump_counter 0 s)) <s 0"
    and run: "net_evict_folios K ctx m k s = (ctx', k', s')"
  shows "\<exists>n es. es = map node_folio (filter (\<lambda>(k0, i, f). net_idle (kf_ktime_get_ns K k0) s f) (take n vs))
    \<and> ctx' = nominate es ctx \<and> (length vs \<le> n \<or> request_met ctx')
    \<and> (\<forall>f \<in> set es. \<forall>meta. map_of (net_meta s) (folio_addr f) = Some meta \<longrightarrow> active_db_pid s \<noteq> 0
        \<and> (\<exists>k0 i. (k0, i, f) \<in> set vs \<and> kf_ktime_get_ns K k \<le> kf_ktime_get_ns K k0
            \<and> (let age = kf_ktime_get_ns K k0 - nm_last_access_ts meta in 100000000 \<le> age
                \<and> (owner_pid meta = active_db_pid s \<longrightarrow>
                     5000000000 \<le> kf_ktime_get_ns K k0 - last_packet_ts s \<or> 1000000000 \<le> age))))"
proof -
  let ?s = "bump_counter 0 s" and ?cb = "bpf_net_evict_cb K"
  let ?es = "\<lambda>n. map node_folio (filter (\<lambda>(k0, i, f). net_idle (kf_ktime_get_ns K k0) s f) (take n vs))"
  have l: "net_main_list ?s = net_main_list s" by (simp add: bump_counter_def)
  obtain r c1 k1 s1 where it: "kf_list_iterate K m (net_main_list s) ?cb ctx k ?s = (r, c1, k1, s1)" by (metis prod_cases4)
  then obtain n where n: "c1 = nominate (?es n) ctx" "length vs \<le> n \<or> request_met c1"
    using list_walk.walks_to_end [OF assms(1) list_walk.iterate [OF assms(1) it] _ net_never_stops] ok vs
    by (auto simp: net_run_cb comp_def)
  have c: "ctx' = c1" using run by (simp add: net_evict_folios_def l it Let_def)
  have "active_db_pid s \<noteq> 0 \<and> (\<exists>k0 i. (k0, i, f) \<in> set vs \<and> kf_ktime_get_ns K k \<le> kf_ktime_get_ns K k0
      \<and> (let age = kf_ktime_get_ns K k0 - nm_last_access_ts meta in 100000000 \<le> age
          \<and> (owner_pid meta = active_db_pid s \<longrightarrow>
               5000000000 \<le> kf_ktime_get_ns K k0 - last_packet_ts s \<or> 1000000000 \<le> age)))"
    if fn: "f \<in> set (?es n)" and fm: "map_of (net_meta s) (folio_addr f) = Some meta" for f meta
  proof -
    obtain k0 i where v: "(k0, i, f) \<in> set (take n vs)" "net_idle (kf_ktime_get_ns K k0) s f"
      using fn by force
    have v: "(k0, i, f) \<in> set vs" "net_idle (kf_ktime_get_ns K k0) s f"
      using in_set_takeD [OF v(1)] v(2) by simp_all
    moreover have "kf_ktime_get_ns K k \<le> kf_ktime_get_ns K k0" using list_walk.clock [OF assms(1)] v(1) vs by blast
    ultimately show ?thesis
      using fm by (auto simp: net_idle_def NET_IDLE_TIMEOUT_def WORKING_SET_WINDOW_def PERIOD_NS_def Let_def)
  qed
  then show ?thesis using n unfolding c by (intro exI [of _ n] exI [of _ "?es n"] conjI refl) auto
qed

definition demo_net :: net_state where
  "demo_net = watch_state.extend demo_watch
     (net_state.fields (replicate 9 0) [] [(2, \<lparr>owner_pid = 3, nm_last_access_ts = 0\<rparr>)] 0 4 1)"

lemmas demo_net_simps = demo_net_def watch_state.defs net_state.defs demo_watch_def

text \<open>Process 4 is active, folio 2 belongs to process 3 and is a second old, folio 1 is untracked.\<close>

theorem net_protects_witness:
  "\<exists>n. fst (net_evict_folios list_kfuncs (demo_ctx\<lparr>request_nr_folios_to_evict := 2\<rparr>) 0
        (demo_kernel\<lparr>lk_now := 1000000000\<rparr>) demo_net)
      = nominate (map node_folio (filter (\<lambda>(k0, i, f). net_idle (lk_now k0) demo_net f)
          (take n (lk_nodes 0 1 (demo_kernel\<lparr>lk_now := 1000000000\<rparr>))))) (demo_ctx\<lparr>request_nr_folios_to_evict := 2\<rparr>)
    \<and> net_idle 1000000000 demo_net (clean_folio 2) \<and> \<not> net_idle 50000000 demo_net (clean_folio 2)"
proof -
  let ?k = "demo_kernel\<lparr>lk_now := 1000000000\<rparr>" and ?c = "demo_ctx\<lparr>request_nr_folios_to_evict := 2\<rparr>"
  obtain c' k' s' where r: "net_evict_folios list_kfuncs ?c 0 ?k demo_net = (c', k', s')" by (metis prod_cases3)
  have ok: "\<not> fst (kf_list_iterate list_kfuncs 0 (net_main_list demo_net) (bpf_net_evict_cb list_kfuncs) ?c ?k
      (bump_counter 0 demo_net)) <s 0"
    by (simp add: list_kfuncs_def split_def Let_def)
  have i: "net_idle 1000000000 demo_net (clean_folio 2)" "\<not> net_idle 50000000 demo_net (clean_folio 2)"
    by (simp_all add: net_idle_def demo_net_simps PERIOD_NS_def)
  have l: "net_main_list demo_net = 1" "kf_ktime_get_ns (list_kfuncs :: (list_kernel, net_state) kfuncs) = lk_now"
    by (simp_all add: demo_net_simps list_kfuncs_def)
  show ?thesis using net_protects [OF lk.list_walk_axioms refl ok r] r i by (auto simp: l)
qed

section \<open>The counters account for the calls\<close>

lemma counter_bump_nth:
  "n < length cs \<Longrightarrow> counter_bump c cs ! n = (if n = unat c then cs ! n + 1 else cs ! n)"
  by (simp add: counter_bump_def)

lemma bump_error_counters [simp]: "debug_counters (bump_error K k e s) = debug_counters s"
  by (simp add: bump_error_def split: option.splits)

lemma net_evict_counters:
  assumes "kernel_ok K"
  shows "debug_counters (snd (snd (net_evict_folios K c m k s))) = counter_bump 0 (debug_counters s)"
  using net_evict_spec [OF assms, of c m k s] by (auto simp: bump_counter_def)

fun added_calls :: "hook list \<Rightarrow> nat" where
  "added_calls [] = 0"
| "added_calls (Folio_Added f # hs) = Suc (added_calls hs)"
| "added_calls (_ # hs) = added_calls hs"

fun accessed_calls :: "hook list \<Rightarrow> nat" where
  "accessed_calls [] = 0"
| "accessed_calls (Folio_Accessed f # hs) = Suc (accessed_calls hs)"
| "accessed_calls (_ # hs) = accessed_calls hs"

fun evict_calls :: "hook list \<Rightarrow> nat" where
  "evict_calls [] = 0"
| "evict_calls (Evict_Folios c m # hs) = Suc (evict_calls hs)"
| "evict_calls (_ # hs) = evict_calls hs"

definition net_account :: "u64 list \<Rightarrow> u64 \<times> u64 \<times> u64 \<times> u64" where
  "net_account cs = (cs ! 0, cs ! 1 + cs ! 2 + cs ! 3, cs ! 8, cs ! 4 - (cs ! 6 + cs ! 7))"

definition acc_add :: "u64 \<times> u64 \<times> u64 \<times> u64 \<Rightarrow> u64 \<times> u64 \<times> u64 \<times> u64 \<Rightarrow> u64 \<times> u64 \<times> u64 \<times> u64" where
  "acc_add p q = (fst p + fst q, fst (snd p) + fst (snd q),
     fst (snd (snd p)) + fst (snd (snd q)), snd (snd (snd p)) + snd (snd (snd q)))"

lemma acc_add_assoc: "acc_add (acc_add p q) r = acc_add p (acc_add q r)"
  by (simp add: acc_add_def add.assoc)

lemma acc_add_zero [simp]: "acc_add p (0, 0, 0, 0) = p"
  by (simp add: acc_add_def)

lemma net_account_bump:
  assumes "length cs = 9"
  shows "net_account (counter_bump 0 cs) = acc_add (net_account cs) (1, 0, 0, 0)"
    "net_account (counter_bump 1 cs) = acc_add (net_account cs) (0, 1, 0, 0)"
    "net_account (counter_bump 2 cs) = acc_add (net_account cs) (0, 1, 0, 0)"
    "net_account (counter_bump 3 cs) = acc_add (net_account cs) (0, 1, 0, 0)"
    "net_account (counter_bump 8 cs) = acc_add (net_account cs) (0, 0, 1, 0)"
    "net_account (counter_bump 6 (counter_bump 4 cs)) = net_account cs"
    "net_account (counter_bump 7 (counter_bump 4 cs)) = net_account cs"
  using assms by (simp_all add: net_account_def acc_add_def counter_bump_nth)

definition calls :: "hook list \<Rightarrow> u64 \<times> u64 \<times> u64 \<times> u64" where
  "calls hs = (of_nat (evict_calls hs), of_nat (added_calls hs), of_nat (accessed_calls hs), 0)"

lemma calls_Cons: "calls (h # hs) = acc_add (calls [h]) (calls hs)"
  by (cases h) (simp_all add: calls_def acc_add_def)

definition net_counted :: "net_state \<Rightarrow> u64 \<times> u64 \<times> u64 \<times> u64 \<Rightarrow> bool" where
  "net_counted s q \<longleftrightarrow> length (debug_counters s) = 9 \<and> net_account (debug_counters s) = q"

lemma net_added_counted:
  "net_counted s q \<Longrightarrow> net_counted (snd (net_folio_added f k s)) (acc_add q (0, 1, 0, 0))"
  by (auto simp: net_folio_added_def net_counted_def bump_counter_def net_account_bump split: option.splits)

lemma net_accessed_counted:
  "net_counted s q \<Longrightarrow> net_counted (snd (net_folio_accessed K f k s)) (acc_add q (0, 0, 1, 0))"
  by (auto simp: net_folio_accessed_def net_counted_def bump_counter_def net_account_bump
      split_def Let_def split: option.splits)

lemma net_evict_counted:
  "kernel_ok K \<Longrightarrow> net_counted s q \<Longrightarrow>
   net_counted (snd (snd (net_evict_folios K c m k s))) (acc_add q (1, 0, 0, 0))"
  by (auto simp: net_counted_def net_evict_counters net_account_bump)

lemma net_evicted_counted:
  "net_counted s q \<Longrightarrow> net_counted (snd (net_folio_evicted f k s)) q"
  by (simp add: net_folio_evicted_def net_counted_def)

lemma net_hook_counted:
  assumes "kernel_ok K" "net_counted (snd w) q"
  shows "net_counted (snd (call_hook (net_ops K) h w)) (acc_add q (calls [h]))"
  using assms
  by (cases w; cases h) (auto simp: net_ops_def calls_def net_added_counted net_accessed_counted
      net_evict_counted net_evicted_counted)

lemma net_run_counted:
  assumes "kernel_ok K"
  shows "net_counted (snd w) q \<Longrightarrow> net_counted (snd (run_hooks (net_ops K) hs w)) (acc_add q (calls hs))"
proof (induction hs arbitrary: w q)
  case Nil
  then show ?case by (simp add: calls_def)
next
  case (Cons h hs)
  show ?case
    using Cons.IH [OF net_hook_counted [OF assms Cons.prems]] calls_Cons [of h hs]
    by (simp add: acc_add_assoc)
qed

text \<open>
  From zeroed counters, after any sequence of hook calls counter 0 holds the number of
  evictions, counters 1 to 3 together the number of added folios, counter 8 the number of
  accesses, and counter 4 (failed list additions) is the sum of counters 6 and 7.
\<close>

lemma net_counters_account:
  assumes "kernel_ok K" "debug_counters (snd w) = replicate 9 0"
    and "debug_counters (snd (run_hooks (net_ops K) hs w)) = cs"
  shows "cs ! 0 = of_nat (evict_calls hs) \<and> cs ! 1 + cs ! 2 + cs ! 3 = of_nat (added_calls hs) \<and>
    cs ! 8 = of_nat (accessed_calls hs) \<and> cs ! 4 = cs ! 6 + cs ! 7"
proof -
  have "net_counted (snd w) (0, 0, 0, 0)"
    using assms(2) by (simp add: net_counted_def net_account_def)
  from net_run_counted [OF assms(1) this, of hs] assms(3) show ?thesis
    by (simp add: net_counted_def net_account_def acc_add_def calls_def)
qed

end
