(* ===== verification/Vulcan.thy ===== *)
theory Vulcan
  imports BPF_Prelude "HOL-Library.Signed_Division" "HOL-Library.Multiset"
begin

text \<open>
  The statistics listeners of \<open>policies/vulcan_bpf.h\<close>: minimum and maximum, fixed-point
  moving average, running average and a circular window of at most 16 samples, all over
  signed 64-bit samples. Shown: the division helper is C's truncating division with
  wrap-around; each listener against the list of samples it was fed; where a window smaller
  than 16 parts from its description.
\<close>

section \<open>Signed division\<close>

definition VULCAN_FP_SCALE :: u32 where "VULCAN_FP_SCALE = 1000"
definition VULCAN_MAX_WINDOW :: u32 where "VULCAN_MAX_WINDOW = 16"

definition vulcan_sdiv :: "s64 \<Rightarrow> s64 \<Rightarrow> s64" where
  "vulcan_sdiv a b =
     (if b = 0 then 0
      else let neg = ((a <s 0) \<noteq> (b <s 0));
               ua = (if a <s 0 then - a else a);
               ub = (if b <s 0 then - b else b);
               q = ua div ub
           in if neg then - q else q)"

lemma uint_abs_word:
  "uint (if (a :: s64) <s 0 then - a else a) = \<bar>sint a\<bar>"
proof -
  have r: "- (2 ^ 63) \<le> sint a" "sint a < 2 ^ 63"
    using sint_ge [of a] sint_lt [of a] by simp_all
  have "(if a <s 0 then - a else a) = word_of_int \<bar>sint a\<bar>"
    by (auto simp: word_sless_alt)
  moreover have "\<bar>sint a\<bar> < 2 ^ 64" using r by auto
  ultimately show ?thesis by (simp add: uint_word_of_int)
qed

lemma vulcan_sdiv_word: "vulcan_sdiv a b = word_of_int (sint a sdiv sint b)"
proof (cases "b = 0")
  case False
  then have b0: "sint b \<noteq> 0" by (simp add: signed_eq_0_iff)
  let ?ua = "if a <s 0 then - a else a" and ?ub = "if b <s 0 then - b else b"
  have q: "?ua div ?ub = word_of_int (\<bar>sint a\<bar> div \<bar>sint b\<bar>)"
    by (simp only: word_div_def uint_abs_word)
  show ?thesis
  proof (cases "(a <s 0) \<noteq> (b <s 0)")
    case True
    then have "sgn (sint a) * sgn (sint b) = - 1 \<or> sint a = 0"
      using b0 by (auto simp: word_sless_alt sgn_if)
    then have "- (\<bar>sint a\<bar> div \<bar>sint b\<bar>) = sint a sdiv sint b"
      by (auto simp: signed_divide_int_def)
    moreover have "vulcan_sdiv a b = - (?ua div ?ub)"
      using True False by (simp add: vulcan_sdiv_def Let_def)
    ultimately show ?thesis by (simp only: q) (metis wi_hom_neg)
  next
    case eq: False
    then have "sgn (sint a) * sgn (sint b) = 1 \<or> sint a = 0"
      using b0 by (auto simp: word_sless_alt sgn_if)
    then have "\<bar>sint a\<bar> div \<bar>sint b\<bar> = sint a sdiv sint b"
      by (auto simp: signed_divide_int_def)
    moreover have "vulcan_sdiv a b = ?ua div ?ub"
      using eq False by (simp add: vulcan_sdiv_def Let_def)
    ultimately show ?thesis by (simp only: q)
  qed
qed (simp add: vulcan_sdiv_def)

text \<open>
  \<open>vulcan_sdiv\<close> is division truncated towards zero, 0 for a zero divisor, taken modulo
  the signed 64-bit range: only the least value divided by -1 wraps.
\<close>

lemma vulcan_sdiv_truncates:
  "sint (vulcan_sdiv a b) = signed_take_bit 63 (sint a sdiv sint b)"
  by (simp add: vulcan_sdiv_word signed_of_int)

lemma vulcan_sdiv_small:
  assumes "0 < sint b"
  shows "sint (vulcan_sdiv a b) = sint a sdiv sint b"
proof -
  have r: "- (2 ^ 63) \<le> sint a" "sint a < 2 ^ 63"
    using sint_ge [of a] sint_lt [of a] by simp_all
  have m: "\<bar>sint a\<bar> div sint b \<le> \<bar>sint a\<bar>" "0 \<le> \<bar>sint a\<bar> div sint b"
    using assms zdiv_mono2 [of "\<bar>sint a\<bar>" 1 "sint b"] by (simp_all add: pos_imp_zdiv_nonneg_iff)
  have "sint a sdiv sint b = (if sint a < 0 then - (\<bar>sint a\<bar> div sint b) else \<bar>sint a\<bar> div sint b)"
    using assms by (auto simp: signed_divide_int_def sgn_if)
  then have "- (2 ^ 63) \<le> sint a sdiv sint b" "sint a sdiv sint b < 2 ^ 63"
    using m r by (auto split: if_splits)
  then show ?thesis
    by (simp add: vulcan_sdiv_word signed_of_int signed_take_bit_int_eq_self)
qed

section \<open>Minimum and maximum\<close>

record vulcan_minmax =
  min_val :: s64
  max_val :: s64
  mm_count :: u32

definition vulcan_minmax_update :: "vulcan_minmax \<Rightarrow> s64 \<Rightarrow> vulcan_minmax" where
  "vulcan_minmax_update mm val =
     (let mm1 = (if mm_count mm = 0 then mm\<lparr>min_val := val, max_val := val\<rparr>
                 else let mm' = (if val <s min_val mm then mm\<lparr>min_val := val\<rparr> else mm)
                      in if max_val mm' <s val then mm'\<lparr>max_val := val\<rparr> else mm')
      in mm1\<lparr>mm_count := mm_count mm1 + 1\<rparr>)"

definition vulcan_minmax_get_min :: "vulcan_minmax \<Rightarrow> s64" where
  "vulcan_minmax_get_min mm = (if mm_count mm \<noteq> 0 then min_val mm else 0)"

definition vulcan_minmax_get_max :: "vulcan_minmax \<Rightarrow> s64" where
  "vulcan_minmax_get_max mm = (if mm_count mm \<noteq> 0 then max_val mm else 0)"

section \<open>Moving average\<close>

record vulcan_ewma =
  ewma_value :: s64
  ewma_initialized :: u32

text \<open>\<open>VULCAN_FP_SCALE - alpha\<close> is computed in 32 unsigned bits before it is widened.\<close>

definition vulcan_ewma_update :: "vulcan_ewma \<Rightarrow> s64 \<Rightarrow> u32 \<Rightarrow> vulcan_ewma" where
  "vulcan_ewma_update e val alpha =
     (if ewma_initialized e = 0 then e\<lparr>ewma_value := val, ewma_initialized := 1\<rparr>
      else e\<lparr>ewma_value := vulcan_sdiv
               (ucast alpha * val + ucast (VULCAN_FP_SCALE - alpha) * ewma_value e)
               (ucast VULCAN_FP_SCALE)\<rparr>)"

definition vulcan_ewma_get :: "vulcan_ewma \<Rightarrow> s64" where
  "vulcan_ewma_get e = (if ewma_initialized e \<noteq> 0 then ewma_value e else 0)"

section \<open>Running average\<close>

record vulcan_avg =
  avg_sum :: s64
  avg_count :: u64

definition vulcan_avg_update :: "vulcan_avg \<Rightarrow> s64 \<Rightarrow> vulcan_avg" where
  "vulcan_avg_update a val = a\<lparr>avg_sum := avg_sum a + val, avg_count := avg_count a + 1\<rparr>"

definition vulcan_avg_get :: "vulcan_avg \<Rightarrow> s64" where
  "vulcan_avg_get a = (if avg_count a \<noteq> 0 then vulcan_sdiv (avg_sum a) (avg_count a) else 0)"

section \<open>Rolling window\<close>

record vulcan_rolling_window =
  rw_values :: "s64 list"
  rw_head :: u32
  rw_count :: u32
  rw_sum :: s64

definition vulcan_rw_update :: "vulcan_rolling_window \<Rightarrow> s64 \<Rightarrow> u32 \<Rightarrow> vulcan_rolling_window" where
  "vulcan_rw_update rw val window_size =
     (let w = (if VULCAN_MAX_WINDOW < window_size then VULCAN_MAX_WINDOW else window_size) in
      if w = 0 then rw
      else
        let idx = (if VULCAN_MAX_WINDOW \<le> rw_head rw then 0 else rw_head rw);
            sum1 = (if w \<le> rw_count rw then rw_sum rw - rw_values rw ! unat idx else rw_sum rw)
        in rw\<lparr>rw_values := (rw_values rw)[unat idx := val],
              rw_sum := sum1 + val,
              rw_head := (idx + 1) mod VULCAN_MAX_WINDOW,
              rw_count := (if rw_count rw < w then rw_count rw + 1 else rw_count rw)\<rparr>)"

definition vulcan_rw_get_latest :: "vulcan_rolling_window \<Rightarrow> s64" where
  "vulcan_rw_get_latest rw =
     (if rw_count rw = 0 then 0
      else let idx = (rw_head rw + VULCAN_MAX_WINDOW - 1) mod VULCAN_MAX_WINDOW
           in if VULCAN_MAX_WINDOW \<le> idx then 0 else rw_values rw ! unat idx)"

definition vulcan_rw_get_kth_recent :: "vulcan_rolling_window \<Rightarrow> u32 \<Rightarrow> s64" where
  "vulcan_rw_get_kth_recent rw k =
     (if rw_count rw \<le> k \<or> VULCAN_MAX_WINDOW \<le> k then 0
      else let idx = (rw_head rw + VULCAN_MAX_WINDOW - 1 - k) mod VULCAN_MAX_WINDOW
           in if VULCAN_MAX_WINDOW \<le> idx then 0 else rw_values rw ! unat idx)"

definition vulcan_rw_get_avg :: "vulcan_rolling_window \<Rightarrow> s64" where
  "vulcan_rw_get_avg rw =
     (if rw_count rw = 0 then 0 else vulcan_sdiv (rw_sum rw) (ucast (rw_count rw)))"

definition vulcan_rw_get_count :: "vulcan_rolling_window \<Rightarrow> u32" where
  "vulcan_rw_get_count rw = rw_count rw"

text \<open>A map entry starts zeroed.\<close>

definition minmax_zero :: vulcan_minmax where
  "minmax_zero = \<lparr>min_val = 0, max_val = 0, mm_count = 0\<rparr>"

definition ewma_zero :: vulcan_ewma where
  "ewma_zero = \<lparr>ewma_value = 0, ewma_initialized = 0\<rparr>"

definition avg_zero :: vulcan_avg where
  "avg_zero = \<lparr>avg_sum = 0, avg_count = 0\<rparr>"

definition rw_zero :: vulcan_rolling_window where
  "rw_zero = \<lparr>rw_values = replicate 16 0, rw_head = 0, rw_count = 0, rw_sum = 0\<rparr>"

section \<open>The contract of a listener\<close>

text \<open>
  What a user of a listener relies on: before any sample it reads 0, and after a non-empty
  list of samples within its range it reads what its specification makes of that list.
\<close>

locale listener =
  fixes empty :: "'l" and feed :: "'l \<Rightarrow> s64 \<Rightarrow> 'l" and get :: "'l \<Rightarrow> s64"
    and in_range :: "s64 list \<Rightarrow> bool" and meaning :: "s64 list \<Rightarrow> s64"
  assumes get_empty: "get empty = 0"
    and get_fed: "xs \<noteq> [] \<Longrightarrow> in_range xs \<Longrightarrow> get (foldl feed empty xs) = meaning xs"
begin

lemma get_foldl:
  "in_range xs \<Longrightarrow> get (foldl feed empty xs) = (if xs = [] then 0 else meaning xs)"
  by (simp add: get_empty get_fed)

lemma order_irrelevant:
  assumes "\<And>xs ys. mset xs = mset ys \<Longrightarrow> meaning xs = meaning ys"
    and "mset xs = mset ys" "in_range xs" "in_range ys"
  shows "get (foldl feed empty xs) = get (foldl feed empty ys)"
proof (cases "xs = []")
  case True
  with assms(2) show ?thesis by simp
next
  case False
  with assms(2) have "ys \<noteq> []" by auto
  with False assms(3,4) assms(1) [OF assms(2)] show ?thesis by (simp add: get_fed)
qed

end

section \<open>Minimum and maximum of the samples\<close>

definition signed_min :: "s64 list \<Rightarrow> s64" where
  "signed_min xs = word_of_int (Min (sint ` set xs))"

definition signed_max :: "s64 list \<Rightarrow> s64" where
  "signed_max xs = word_of_int (Max (sint ` set xs))"

lemma minmax_run:
  assumes "xs \<noteq> []" "length xs < 2 ^ 32"
  shows "foldl vulcan_minmax_update minmax_zero xs =
    \<lparr>min_val = signed_min xs, max_val = signed_max xs, mm_count = of_nat (length xs)\<rparr>"
  using assms
proof (induction xs rule: rev_induct)
  case (snoc x xs)
  show ?case
  proof (cases "xs = []")
    case True
    then show ?thesis
      by (simp add: vulcan_minmax_update_def minmax_zero_def signed_min_def signed_max_def)
  next
    case False
    have fin: "finite (sint ` set xs)" "sint ` set xs \<noteq> {}" using False by simp_all
    obtain m M where m: "m = Min (sint ` set xs)" and M: "M = Max (sint ` set xs)" by simp
    have in_range: "m \<in> sint ` set xs" "M \<in> sint ` set xs"
      unfolding m M by (rule Min_in [OF fin], rule Max_in [OF fin])
    then have s: "sint (signed_min xs) = m" "sint (signed_max xs) = M"
      unfolding signed_min_def signed_max_def m [symmetric] M [symmetric] by auto
    have c: "(of_nat (length xs) :: u32) \<noteq> 0"
      using snoc.prems False by (intro of_nat_word_nonzero) simp_all
    have IH: "foldl vulcan_minmax_update minmax_zero xs =
        \<lparr>min_val = signed_min xs, max_val = signed_max xs, mm_count = of_nat (length xs)\<rparr>"
      using snoc False by simp
    have ext: "Min (sint ` set (xs @ [x])) = min (sint x) m"
      "Max (sint ` set (xs @ [x])) = max (sint x) M"
      unfolding m M by (simp_all only: set_append list.set image_Un image_insert
          image_empty Un_insert_right Un_empty_right Min_insert [OF fin] Max_insert [OF fin])
    have mi: "signed_min (xs @ [x]) = (if sint x < m then x else signed_min xs)"
      "signed_max (xs @ [x]) = (if M < sint x then x else signed_max xs)"
      unfolding signed_min_def signed_max_def ext m [symmetric] M [symmetric]
      by (auto simp: min_def max_def)
    have step: "foldl vulcan_minmax_update minmax_zero (xs @ [x]) = vulcan_minmax_update
        \<lparr>min_val = signed_min xs, max_val = signed_max xs, mm_count = of_nat (length xs)\<rparr> x"
      by (simp add: IH)
    show ?thesis
      unfolding step using c by (simp add: mi vulcan_minmax_update_def word_sless_alt s)
  qed
qed simp

interpretation minl: listener minmax_zero vulcan_minmax_update vulcan_minmax_get_min
    "\<lambda>xs. length xs < 2 ^ 32" signed_min
proof (unfold_locales, goal_cases)
  case (2 xs)
  then have "(of_nat (length xs) :: u32) \<noteq> 0"
    by (intro of_nat_word_nonzero) simp_all
  with 2 show ?case by (simp add: minmax_run vulcan_minmax_get_min_def)
qed (simp add: vulcan_minmax_get_min_def minmax_zero_def)

interpretation maxl: listener minmax_zero vulcan_minmax_update vulcan_minmax_get_max
    "\<lambda>xs. length xs < 2 ^ 32" signed_max
proof (unfold_locales, goal_cases)
  case (2 xs)
  then have "(of_nat (length xs) :: u32) \<noteq> 0"
    by (intro of_nat_word_nonzero) simp_all
  with 2 show ?case by (simp add: minmax_run vulcan_minmax_get_max_def)
qed (simp add: vulcan_minmax_get_max_def minmax_zero_def)

section \<open>The running average of the samples\<close>

lemma avg_run:
  "foldl vulcan_avg_update avg_zero xs = \<lparr>avg_sum = sum_list xs, avg_count = of_nat (length xs)\<rparr>"
  by (induction xs rule: rev_induct) (simp_all add: avg_zero_def vulcan_avg_update_def)

definition truncated_mean :: "s64 list \<Rightarrow> s64" where
  "truncated_mean xs = word_of_int ((\<Sum>x\<leftarrow>xs. sint x) sdiv int (length xs))"

definition sums_fit :: "s64 list \<Rightarrow> bool" where
  "sums_fit xs \<longleftrightarrow> length xs < 2 ^ 63 \<and> - (2 ^ 63) \<le> (\<Sum>x\<leftarrow>xs. sint x) \<and> (\<Sum>x\<leftarrow>xs. sint x) < 2 ^ 63"

lemma sum_list_word: "sum_list xs = (word_of_int (\<Sum>x\<leftarrow>xs. sint x) :: s64)"
  by (induction xs) (simp_all add: wi_hom_add [symmetric])

lemma sint_sum_list: "sums_fit xs \<Longrightarrow> sint (sum_list xs) = (\<Sum>x\<leftarrow>xs. sint x)"
  by (simp add: sum_list_word sums_fit_def signed_of_int signed_take_bit_int_eq_self)

interpretation avgl: listener avg_zero vulcan_avg_update vulcan_avg_get sums_fit truncated_mean
proof (unfold_locales, goal_cases)
  case (2 xs)
  then have "(of_nat (length xs) :: u64) \<noteq> 0"
    by (intro of_nat_word_nonzero) (simp_all add: sums_fit_def)
  with 2 show ?case
    by (simp add: avg_run vulcan_avg_get_def vulcan_sdiv_word truncated_mean_def sint_sum_list
        sint_of_nat_small sums_fit_def)
qed (simp add: vulcan_avg_get_def avg_zero_def)

text \<open>
  The listeners read 0 before any sample; after fewer than 2 to the 32 samples the
  minimum and maximum read the least and greatest sample in signed order, and the average
  reads the truncated mean as long as the sum stays in range.
\<close>

lemma listeners_read_samples:
  assumes "length xs < 2 ^ 32" "sums_fit xs"
  shows "vulcan_minmax_get_min (foldl vulcan_minmax_update minmax_zero xs) = (if xs = [] then 0 else signed_min xs)
    \<and> vulcan_minmax_get_max (foldl vulcan_minmax_update minmax_zero xs) = (if xs = [] then 0 else signed_max xs)
    \<and> vulcan_avg_get (foldl vulcan_avg_update avg_zero xs) = (if xs = [] then 0 else truncated_mean xs)"
  using assms minl.get_foldl [of xs] maxl.get_foldl [of xs] avgl.get_foldl [of xs] by simp

section \<open>The moving average stays between its inputs\<close>

lemma sdiv_between:
  fixes c :: int
  assumes "0 < c" "lo * c \<le> x" "x \<le> hi * c"
  shows "lo \<le> x sdiv c" "x sdiv c \<le> hi"
proof -
  have up: "y div c \<le> h" if "y \<le> h * c" for y h
    using zdiv_mono1 [OF that assms(1)] assms(1) by simp
  have down: "l \<le> y div c" if "l * c \<le> y" for y l
    using zdiv_mono1 [OF that assms(1)] assms(1) by simp
  have e: "x sdiv c = (if x < 0 then - ((- x) div c) else x div c)"
    using assms(1) by (auto simp: signed_divide_int_def sgn_if)
  show "lo \<le> x sdiv c"
    using up [of "- x" "- lo"] down [of lo x] assms by (auto simp: e)
  show "x sdiv c \<le> hi"
    using down [of "- hi" "- x"] up [of x hi] assms by (auto simp: e)
qed

lemma convex_between:
  fixes a b t :: int
  assumes "0 \<le> t" "t \<le> 1000"
  shows "min a b * 1000 \<le> t * a + (1000 - t) * b" "t * a + (1000 - t) * b \<le> max a b * 1000"
proof -
  have "t * min a b \<le> t * a" "(1000 - t) * min a b \<le> (1000 - t) * b"
    "t * a \<le> t * max a b" "(1000 - t) * b \<le> (1000 - t) * max a b"
    using assms by (simp_all add: mult_left_mono)
  moreover have "t * min a b + (1000 - t) * min a b = min a b * 1000"
    "t * max a b + (1000 - t) * max a b = max a b * 1000" by (simp_all add: algebra_simps)
  ultimately show "min a b * 1000 \<le> t * a + (1000 - t) * b"
    "t * a + (1000 - t) * b \<le> max a b * 1000" by linarith+
qed

definition ewma_fits :: "s64 \<Rightarrow> bool" where
  "ewma_fits v \<longleftrightarrow> \<bar>sint v\<bar> \<le> 9 * 10 ^ 15"

lemma ewma_step:
  assumes "alpha \<le> VULCAN_FP_SCALE" "ewma_fits val" "ewma_fits old"
  shows "sint (vulcan_sdiv (ucast alpha * val + ucast (VULCAN_FP_SCALE - alpha) * old) (ucast VULCAN_FP_SCALE))
    = (uint alpha * sint val + (1000 - uint alpha) * sint old) sdiv 1000"
proof -
  let ?i = "uint alpha * sint val + (1000 - uint alpha) * sint old"
  have a: "0 \<le> uint alpha" "uint alpha \<le> 1000"
    using assms(1) by (simp_all add: VULCAN_FP_SCALE_def word_le_def)
  have u: "uint (VULCAN_FP_SCALE - alpha) = 1000 - uint alpha"
    using assms(1) uint_minus_simple_alt [of alpha VULCAN_FP_SCALE] by (simp add: VULCAN_FP_SCALE_def)
  have bounds: "- (2 ^ 63) \<le> ?i" "?i < 2 ^ 63"
    using convex_between [OF a, of "sint val" "sint old"] assms(2,3)
    by (auto simp: ewma_fits_def)
  have w: "ucast alpha * val + ucast (VULCAN_FP_SCALE - alpha) * old = word_of_int ?i"
    by (simp add: wi_hom_syms unsigned_of_int flip: u)
  have c: "sint (ucast VULCAN_FP_SCALE :: s64) = 1000"
    by (simp add: VULCAN_FP_SCALE_def)
  show ?thesis
    using sint_wrap_small [OF bounds] c by (simp add: w vulcan_sdiv_small)
qed

text \<open>
  With a weight of at most 1000 and samples whose products stay in range, a moving
  average lies between its previous value and the new sample.
\<close>

lemma ewma_stays_between:
  assumes "alpha \<le> VULCAN_FP_SCALE" "ewma_fits val" "ewma_fits (ewma_value e)"
    and "ewma_initialized e \<noteq> 0"
  shows "min (sint val) (sint (ewma_value e)) \<le> sint (vulcan_ewma_get (vulcan_ewma_update e val alpha))
    \<and> sint (vulcan_ewma_get (vulcan_ewma_update e val alpha)) \<le> max (sint val) (sint (ewma_value e))"
proof -
  have a: "0 \<le> uint alpha" "uint alpha \<le> 1000"
    using assms(1) by (simp_all add: VULCAN_FP_SCALE_def word_le_def)
  note b = convex_between [OF a, of "sint val" "sint (ewma_value e)"]
  have "sint (vulcan_ewma_get (vulcan_ewma_update e val alpha)) =
      (uint alpha * sint val + (1000 - uint alpha) * sint (ewma_value e)) sdiv 1000"
    using assms(4) by (simp add: vulcan_ewma_get_def vulcan_ewma_update_def ewma_step [OF assms(1-3)])
  then show ?thesis using sdiv_between [OF _ b] by simp
qed

section \<open>The rolling window against the list of samples\<close>

definition rw_run :: "u32 \<Rightarrow> s64 list \<Rightarrow> vulcan_rolling_window" where
  "rw_run w xs = foldl (\<lambda>rw v. vulcan_rw_update rw v w) rw_zero xs"

lemma rw_run_snoc: "rw_run w (xs @ [v]) = vulcan_rw_update (rw_run w xs) v w"
  by (simp add: rw_run_def)

text \<open>What the window holds after the samples \<open>xs\<close>, one clause per field.\<close>

definition rw_holds :: "nat \<Rightarrow> s64 list \<Rightarrow> vulcan_rolling_window \<Rightarrow> bool" where
  "rw_holds w xs rw \<longleftrightarrow>
     length (rw_values rw) = 16
     \<and> rw_head rw = of_nat (length xs mod 16)
     \<and> rw_count rw = of_nat (min (length xs) w)
     \<and> rw_sum rw = sum_list (take 16 (rev xs))
     \<and> (\<forall>k < min (length xs) 16. rw_values rw ! ((length xs - 1 - k) mod 16) = rev xs ! k)
     \<and> (\<forall>j < 16. length xs \<le> j \<longrightarrow> rw_values rw ! j = 0)"

lemma slot_neq:
  fixes n k :: nat
  assumes "0 < k" "k < 16" "k \<le> n"
  shows "(n - k) mod 16 \<noteq> n mod 16"
proof
  assume "(n - k) mod 16 = n mod 16"
  then have "n mod 16 = (n - k) mod 16" by simp
  then have "16 dvd n - (n - k)" by (subst (asm) mod_eq_dvd_iff_nat) simp_all
  then have "16 dvd k" using assms by simp
  then show False using assms by (auto dest: dvd_imp_le)
qed

lemma sum_take_snoc:
  fixes xs :: "s64 list"
  assumes "length vs = 16"
    and "\<And>k. k < min (length xs) 16 \<Longrightarrow> vs ! ((length xs - 1 - k) mod 16) = rev xs ! k"
    and "\<And>j. j < 16 \<Longrightarrow> length xs \<le> j \<Longrightarrow> vs ! j = 0"
  shows "sum_list (take 16 (rev xs)) - vs ! (length xs mod 16) + v = sum_list (take 16 (rev (xs @ [v])))"
proof -
  have t: "take 16 (rev (xs @ [v])) = v # take 15 (rev xs)" by (simp add: eval_nat_numeral)
  show ?thesis
  proof (cases "length xs < 16")
    case True
    then have "vs ! (length xs mod 16) = 0" "take 16 (rev xs) = rev xs" "take 15 (rev xs) = rev xs"
      using assms(3) by simp_all
    with t show ?thesis by simp
  next
    case False
    then have n: "(length xs - 16) mod 16 = length xs mod 16" by (simp add: le_mod_geq)
    have "vs ! (length xs mod 16) = rev xs ! 15" using assms(2) [of 15] False by (simp add: n)
    moreover have "take 16 (rev xs) = take 15 (rev xs) @ [rev xs ! 15]"
      using take_Suc_conv_app_nth [of 15 "rev xs"] False by simp
    ultimately show ?thesis using t by simp
  qed
qed

lemma small_nat_u32: "n \<le> 16 \<Longrightarrow> unat (of_nat n :: u32) = n"
  by (simp add: unat_of_nat take_bit_nat_eq_self)

lemma rw_step_holds:
  assumes h: "rw_holds W xs rw" and W: "0 < W" "W \<le> 16" and w: "min 16 (unat w) = W"
  shows "rw_holds W (xs @ [v]) (vulcan_rw_update rw v w)"
proof -
  let ?n = "length xs" and ?i = "length xs mod 16"
  have i: "?i < 16" by simp
  have ww: "(if VULCAN_MAX_WINDOW < w then VULCAN_MAX_WINDOW else w) = of_nat W"
    using w W by (auto simp: VULCAN_MAX_WINDOW_def word_less_nat_alt word_unat_eq_iff small_nat_u32)
  have w0: "(of_nat W :: u32) \<noteq> 0" using W by (intro of_nat_word_nonzero) simp_all
  have u: "unat (of_nat ?i :: u32) = ?i" "unat (of_nat W :: u32) = W"
    "unat (of_nat (min ?n W) :: u32) = min ?n W"
    using W by (simp_all add: small_nat_u32)
  have idx: "(if VULCAN_MAX_WINDOW \<le> rw_head rw then 0 else rw_head rw) = of_nat ?i"
    using h i u(1) by (simp add: rw_holds_def VULCAN_MAX_WINDOW_def word_le_nat_alt)
  have full: "(of_nat W \<le> rw_count rw) = (W \<le> ?n)" "(rw_count rw < of_nat W) = (?n < W)"
    using h u by (auto simp: rw_holds_def word_le_nat_alt word_less_nat_alt)
  have head: "(of_nat ?i + 1) mod VULCAN_MAX_WINDOW = of_nat (Suc ?n mod 16)"
  proof (rule word_unat_eq_iff [THEN iffD2])
    have "unat (of_nat ?i + 1 :: u32) = ?i + 1"
      using small_nat_u32 [of "?i + 1"] i by (simp add: add.commute)
    then show "unat ((of_nat ?i + 1) mod VULCAN_MAX_WINDOW :: u32) = unat (of_nat (Suc ?n mod 16) :: u32)"
      by (simp add: VULCAN_MAX_WINDOW_def unat_mod small_nat_u32 mod_Suc_eq)
  qed
  have cnt: "(if ?n < W then rw_count rw + 1 else rw_count rw) = of_nat (min (Suc ?n) W)"
    using h by (auto simp: rw_holds_def min_def)
  have zero: "rw_values rw ! ?i = 0" if "?n < W"
    using h that W i by (simp add: rw_holds_def)
  have sum: "(if W \<le> ?n then rw_sum rw - rw_values rw ! ?i else rw_sum rw) + v
      = sum_list (take 16 (rev (xs @ [v])))"
    using sum_take_snoc [of "rw_values rw" xs v] h zero
    by (cases "?n < W") (simp_all add: rw_holds_def)
  have upd: "vulcan_rw_update rw v w =
      rw\<lparr>rw_values := (rw_values rw)[?i := v], rw_sum := sum_list (take 16 (rev (xs @ [v]))),
         rw_head := of_nat (Suc ?n mod 16), rw_count := of_nat (min (Suc ?n) W)\<rparr>"
    unfolding vulcan_rw_update_def Let_def ww idx
    using w0 by (simp only: full u(1) head cnt sum if_False)
  have recent: "(rw_values rw)[?i := v] ! ((Suc ?n - 1 - k) mod 16) = rev (xs @ [v]) ! k"
    if k: "k < min (Suc ?n) 16" for k
  proof (cases k)
    case 0
    then show ?thesis using h by (simp add: rw_holds_def)
  next
    case (Suc m)
    then have "(?n - Suc m) mod 16 \<noteq> ?i" using k slot_neq [of "Suc m" ?n] by simp
    moreover have "rw_values rw ! ((?n - 1 - m) mod 16) = rev xs ! m"
      using h k Suc by (simp add: rw_holds_def)
    ultimately show ?thesis using Suc by simp
  qed
  show ?thesis
    unfolding upd rw_holds_def using h recent by (auto simp: rw_holds_def nth_list_update)
qed

lemma rw_run_holds:
  assumes "min 16 (unat w) = W" "0 < W"
  shows "rw_holds W xs (rw_run w xs)"
proof (induction xs rule: rev_induct)
  case Nil
  then show ?case by (simp add: rw_run_def rw_zero_def rw_holds_def)
next
  case (snoc x xs)
  then show ?case using rw_step_holds [OF snoc, of w x] assms by (auto simp: rw_run_snoc)
qed

text \<open>
  A window of size 1 to 16 is a faithful view of the latest samples: it counts them up to
  its size, the k-th recent sample is read from the list's end, and older ones read 0.
\<close>

lemma rolling_window_view:
  assumes "1 \<le> w" "w \<le> 16"
  shows "unat (vulcan_rw_get_count (rw_run w xs)) = min (length xs) (unat w)
    \<and> vulcan_rw_get_kth_recent (rw_run w xs) k =
        (if unat k < min (length xs) (unat w) then rev xs ! unat k else 0)"
proof -
  let ?rw = "rw_run w xs" and ?n = "length xs" and ?k = "unat k"
  have W: "min 16 (unat w) = unat w" "0 < unat w" "unat w \<le> 16"
    using assms by (simp_all add: word_le_nat_alt)
  have h: "rw_holds (unat w) xs ?rw" using rw_run_holds W by blast
  have c: "unat (rw_count ?rw) = min ?n (unat w)"
    using h W by (simp add: rw_holds_def small_nat_u32)
  have kth: "vulcan_rw_get_kth_recent ?rw k = rev xs ! ?k" if k: "?k < min ?n (unat w)"
  proof -
    let ?h = "?n mod 16"
    have k16: "?k < 16" using k W by simp
    have hd: "unat (rw_head ?rw) = ?h" using h by (simp add: rw_holds_def small_nat_u32)
    have idx: "rw_head ?rw + VULCAN_MAX_WINDOW - 1 - k = of_nat (?h + 15 - ?k)"
      using k16 h by (simp add: rw_holds_def VULCAN_MAX_WINDOW_def of_nat_diff)
    have "unat (of_nat (?h + 15 - ?k) :: u32) = ?h + 15 - ?k"
    proof -
      have "?h + 15 - ?k < 2 ^ 32" by simp
      then show ?thesis by (simp add: unat_of_nat take_bit_nat_eq_self)
    qed
    then have u: "unat ((rw_head ?rw + VULCAN_MAX_WINDOW - 1 - k) mod VULCAN_MAX_WINDOW) = (?h + 15 - ?k) mod 16"
      unfolding idx by (simp add: VULCAN_MAX_WINDOW_def unat_mod)
    have "(?h + (15 - ?k)) mod 16 = (?n + (15 - ?k)) mod 16" by presburger
    moreover have "?n + (15 - ?k) = (?n - 1 - ?k) + 16" "?h + 15 - ?k = ?h + (15 - ?k)"
      using k k16 by simp_all
    ultimately have slot: "(?h + 15 - ?k) mod 16 = (?n - 1 - ?k) mod 16"
      by (simp only: mod_add_self2)
    have "\<not> VULCAN_MAX_WINDOW \<le> (rw_head ?rw + VULCAN_MAX_WINDOW - 1 - k) mod VULCAN_MAX_WINDOW"
      using u by (simp add: word_le_nat_alt VULCAN_MAX_WINDOW_def)
    moreover have "\<not> rw_count ?rw \<le> k" "\<not> VULCAN_MAX_WINDOW \<le> k"
      using k k16 c by (simp_all add: word_le_nat_alt VULCAN_MAX_WINDOW_def not_le)
    ultimately have "vulcan_rw_get_kth_recent ?rw k = rw_values ?rw ! ((?n - 1 - ?k) mod 16)"
      by (simp add: vulcan_rw_get_kth_recent_def Let_def u slot)
    also have "\<dots> = rev xs ! ?k" using h k k16 by (simp add: rw_holds_def)
    finally show ?thesis .
  qed
  have "vulcan_rw_get_kth_recent ?rw k = 0" if "\<not> ?k < min ?n (unat w)"
  proof -
    have "rw_count ?rw \<le> k" using that c by (auto simp: word_le_nat_alt)
    then show ?thesis by (simp add: vulcan_rw_get_kth_recent_def)
  qed
  with kth c show ?thesis by (simp add: vulcan_rw_get_count_def)
qed

text \<open>
  The average of a window of size 1 to 16 divides the sum of the latest 16 samples,
  whatever the size, by the number of samples counted: for a window smaller than 16 it is not
  the mean of the window once more samples than its size have arrived.
\<close>

lemma rolling_window_average:
  assumes "1 \<le> w" "w \<le> 16"
  shows "vulcan_rw_get_avg (rw_run w xs) =
    (if xs = [] then 0
     else vulcan_sdiv (sum_list (take 16 (rev xs))) (of_nat (min (length xs) (unat w))))"
proof -
  have W: "min 16 (unat w) = unat w" "0 < unat w" "unat w \<le> 16"
    using assms by (simp_all add: word_le_nat_alt)
  have h: "rw_holds (unat w) xs (rw_run w xs)" using rw_run_holds W by blast
  have c: "unat (rw_count (rw_run w xs)) = min (length xs) (unat w)"
    using h W by (simp add: rw_holds_def small_nat_u32)
  then have "rw_count (rw_run w xs) = 0 \<longleftrightarrow> xs = []"
    using W by (auto simp: unat_eq_0 [symmetric] min_def split: if_splits)
  moreover have "(ucast (rw_count (rw_run w xs)) :: s64) = of_nat (min (length xs) (unat w))"
    using c by (metis of_nat_unat)
  ultimately show ?thesis
    using h by (simp add: vulcan_rw_get_avg_def rw_holds_def)
qed

text \<open>
  C23: a window of size 1 to 16 is a faithful view of the latest samples: it counts them up to
  its size, the k-th recent sample is read from the list's end, and older ones read 0. Its
  average, though, divides the sum of the latest 16 samples, whatever the size, by the number
  of samples counted: for a window smaller than 16 it is not the mean of the window once more
  samples than its size have arrived.
\<close>

theorem rolling_window_reads:
  assumes "1 \<le> w" "w \<le> 16"
  shows "unat (vulcan_rw_get_count (rw_run w xs)) = min (length xs) (unat w)
    \<and> vulcan_rw_get_kth_recent (rw_run w xs) k =
        (if unat k < min (length xs) (unat w) then rev xs ! unat k else 0)
    \<and> vulcan_rw_get_avg (rw_run w xs) =
        (if xs = [] then 0
         else vulcan_sdiv (sum_list (take 16 (rev xs))) (of_nat (min (length xs) (unat w))))"
  using rolling_window_view [OF assms] rolling_window_average [OF assms] by simp

theorem rolling_window_reads_witness:
  "vulcan_rw_get_kth_recent (rw_run 2 [5, 6, 7]) 1 = 6 \<and> vulcan_rw_get_avg (rw_run 2 [5, 6, 7]) = 9"
  using rolling_window_reads [of 2 "[5, 6, 7]" 1]
  by (simp add: vulcan_sdiv_def word_sless_alt)

end
