(* ===== verification/S3fifo.thy ===== *)
theory S3fifo
  imports Dir_Watcher
begin

text \<open>
  The S3-FIFO policy, \<open>policies/cache_ext_s3fifo.bpf.c\<close>: a small and a main list, a
  frequency per folio and a ghost map of what was evicted. Shown: a folio that comes back
  while its ghost entry lives goes to the main list; what one visit of each scan decides and
  in which of the passes over the main list a folio goes; only clean tracked folios are
  nominated; when the two size counters are exact and when they drift.
\<close>

record s3_folio_metadata =
  freq :: s64
  in_main :: bool

record s3fifo_state = watch_state +
  s3_meta :: "(u64, s3_folio_metadata) hmap"
  s3_ghost :: "(ghost_entry, u8) hmap"
  s3_main_list :: u64
  s3_small_list :: u64
  small_list_size :: s64
  main_list_size :: s64
  cache_size :: u64

definition s3_meta_cap :: nat where
  "s3_meta_cap = 4000000"

definition s3_is_folio_relevant :: "'a watch_state_scheme \<Rightarrow> folio option \<Rightarrow> bool" where
  "s3_is_folio_relevant s fo =
     (case fo of
        None \<Rightarrow> False
      | Some f \<Rightarrow> (case mapping f of
          None \<Rightarrow> False
        | Some m \<Rightarrow> (case host m of
            None \<Rightarrow> False
          | Some i \<Rightarrow> inode_in_watchlist s (i_ino i))))"

definition get_folio_metadata :: "s3fifo_state \<Rightarrow> folio \<Rightarrow> s3_folio_metadata option" where
  "get_folio_metadata s f = map_of (s3_meta s) (folio_addr f)"

text \<open>A store through the pointer \<open>get_folio_metadata\<close> returned.\<close>

definition set_folio_metadata :: "folio \<Rightarrow> (s3_folio_metadata \<Rightarrow> s3_folio_metadata) \<Rightarrow>
    s3fifo_state \<Rightarrow> s3fifo_state" where
  "set_folio_metadata f g s = s\<lparr>s3_meta := hmap_modify (folio_addr f) g (s3_meta s)\<rparr>"

definition s3_ghost_key :: "folio \<Rightarrow> ghost_entry" where
  "s3_ghost_key f = \<lparr>ge_address_space = host_word f, ge_offset = index f\<rparr>"

definition folio_in_ghost :: "folio \<Rightarrow> s3fifo_state \<Rightarrow> bool \<times> s3fifo_state" where
  "folio_in_ghost f s =
     (let (ret, g) = hmap_delete (s3_ghost_key f) (s3_ghost s)
      in (ret \<noteq> - ENOENT, s\<lparr>s3_ghost := g\<rparr>))"

definition s3fifo_init :: "('k, s3fifo_state) kfuncs \<Rightarrow> u64 \<Rightarrow> 'k \<Rightarrow> s3fifo_state \<Rightarrow>
    s32 \<times> 'k \<times> s3fifo_state" where
  "s3fifo_init K memcg k s =
     (let (l, k1) = kf_new_list K memcg k; s1 = s\<lparr>s3_main_list := l\<rparr>
      in if l = 0 then (- 1, k1, s1)
         else let (l', k2) = kf_new_list K memcg k1; s2 = s1\<lparr>s3_small_list := l'\<rparr>
              in if l' = 0 then (- 1, k2, s2) else (0, k2, s2))"

section \<open>The callbacks\<close>

definition bpf_s3fifo_score_main_fn :: "'k \<Rightarrow> folio \<Rightarrow> s3fifo_state \<Rightarrow> s64 \<times> s3fifo_state" where
  "bpf_s3fifo_score_main_fn k f s =
     (if \<not> folio_test_uptodate f \<or> \<not> folio_test_lru f then (INT64_MAX, s)
      else if folio_test_dirty f \<or> folio_test_writeback f then (INT64_MAX, s)
      else case get_folio_metadata s f of
        None \<Rightarrow> (INT64_MAX, s)
      | Some data \<Rightarrow>
          let fr = freq data - 1; s1 = set_folio_metadata f (\<lambda>d. d\<lparr>freq := freq d - 1\<rparr>) s
          in (fr, if fr <s 0 then set_folio_metadata f (\<lambda>d. d\<lparr>freq := 0\<rparr>) s1 else s1))"

definition bpf_s3fifo_score_small_fn :: "'k \<Rightarrow> s32 \<Rightarrow> folio \<Rightarrow> s3fifo_state \<Rightarrow> cb_ret \<times> s3fifo_state" where
  "bpf_s3fifo_score_small_fn k idx f s =
     (if \<not> folio_test_uptodate f \<or> \<not> folio_test_lru f then (CONTINUE_ITER, s)
      else if folio_test_dirty f \<or> folio_test_writeback f then (CONTINUE_ITER, s)
      else case get_folio_metadata s f of
        None \<Rightarrow> (CONTINUE_ITER, s)
      | Some data \<Rightarrow>
          if 1 <s freq data then (CONTINUE_ITER, set_folio_metadata f (\<lambda>d. d\<lparr>in_main := True\<rparr>) s)
          else (EVICT_NODE, s))"

text \<open>The macro \<open>MAIN_ITER_FN(id)\<close>, instantiated in the source for 0, 1, 2 and 3.\<close>

definition main_iter_fn :: "s64 \<Rightarrow> 'k \<Rightarrow> s32 \<Rightarrow> folio \<Rightarrow> s3fifo_state \<Rightarrow> cb_ret \<times> s3fifo_state" where
  "main_iter_fn n k idx f s =
     (if \<not> folio_test_uptodate f \<or> \<not> folio_test_lru f then (CONTINUE_ITER, s)
      else if folio_test_dirty f \<or> folio_test_writeback f then (CONTINUE_ITER, s)
      else case get_folio_metadata s f of
        None \<Rightarrow> (CONTINUE_ITER, s)
      | Some data \<Rightarrow>
          let fr = freq data - 1; s1 = set_folio_metadata f (\<lambda>d. d\<lparr>freq := freq d - 1\<rparr>) s
          in if fr <s n then (EVICT_NODE, s1) else (CONTINUE_ITER, s1))"

section \<open>Eviction\<close>

text \<open>\<open>evict_main\<close> is kept in the source beside its replacement \<open>evict_main_iter\<close>; no hook calls it.\<close>

definition evict_main :: "('k, s3fifo_state) kfuncs \<Rightarrow> evict_ctx \<Rightarrow> u64 \<Rightarrow> 'k \<Rightarrow> s3fifo_state \<Rightarrow>
    evict_ctx \<times> 'k \<times> s3fifo_state" where
  "evict_main K ctx memcg k s =
     (let (r, ctx1, k1, s1) = kf_list_sample K memcg (s3_main_list s) bpf_s3fifo_score_main_fn
            \<lparr>sample_size = 10, select_size = 0\<rparr> ctx k s
      in (ctx1, k1, s1))"

definition s3_self_opts :: iterate_opts where
  "s3_self_opts = \<lparr>continue_list = ITERATE_SELF, continue_mode = ITERATE_TAIL,
     evict_list = ITERATE_SELF, evict_mode = ITERATE_TAIL, nr_folios_continue = 0, nr_folios_evict = 0\<rparr>"

definition evict_main_iter :: "('k, s3fifo_state) kfuncs \<Rightarrow> evict_ctx \<Rightarrow> u64 \<Rightarrow> 'k \<Rightarrow> s3fifo_state \<Rightarrow>
    evict_ctx \<times> 'k \<times> s3fifo_state" where
  "evict_main_iter K ctx memcg k s =
     (let (r, opts1, ctx1, k1, s1) = kf_list_iterate_extended K memcg (s3_main_list s) (main_iter_fn 0) s3_self_opts ctx k s
      in if r <s 0 then (ctx1, k1, s1)
      else if \<not> nr_folios_to_evict ctx1 < request_nr_folios_to_evict ctx1 then (ctx1, k1, s1)
      else let (r, opts2, ctx2, k2, s2) = kf_list_iterate_extended K memcg (s3_main_list s1) (main_iter_fn 1) opts1 ctx1 k1 s1
      in if r <s 0 then (ctx2, k2, s2)
      else if \<not> nr_folios_to_evict ctx2 < request_nr_folios_to_evict ctx2 then (ctx2, k2, s2)
      else let (r, opts3, ctx3, k3, s3) = kf_list_iterate_extended K memcg (s3_main_list s2) (main_iter_fn 2) opts2 ctx2 k2 s2
      in if r <s 0 then (ctx3, k3, s3)
      else if \<not> nr_folios_to_evict ctx3 < request_nr_folios_to_evict ctx3 then (ctx3, k3, s3)
      else let (r, opts4, ctx4, k4, s4) = kf_list_iterate_extended K memcg (s3_main_list s3) (main_iter_fn 3) opts3 ctx3 k3 s3
      in (ctx4, k4, s4))"

definition evict_small :: "('k, s3fifo_state) kfuncs \<Rightarrow> evict_ctx \<Rightarrow> u64 \<Rightarrow> 'k \<Rightarrow> s3fifo_state \<Rightarrow>
    evict_ctx \<times> 'k \<times> s3fifo_state" where
  "evict_small K ctx memcg k s =
     (let opts = \<lparr>continue_list = s3_main_list s, continue_mode = ITERATE_TAIL,
            evict_list = ITERATE_SELF, evict_mode = ITERATE_TAIL, nr_folios_continue = 0, nr_folios_evict = 0\<rparr>;
          (r, opts1, ctx1, k1, s1) = kf_list_iterate_extended K memcg (s3_small_list s) bpf_s3fifo_score_small_fn opts ctx k s
      in if r <s 0 then (ctx1, k1, s1)
      else let n = nr_folios_continue opts1;
               s2 = s1\<lparr>small_list_size := (if small_list_size s1 <s 0 then 0 else small_list_size s1 - n)\<rparr>;
               s3 = s2\<lparr>main_list_size := (if main_list_size s2 <s 0 then n else main_list_size s2 + n)\<rparr>
           in (ctx1, k1, s3))"

text \<open>
  The first comparison mixes a signed size with an unsigned one, so C makes it unsigned; the
  second is signed.
\<close>

definition s3fifo_picks_small :: "s3fifo_state \<Rightarrow> bool" where
  "s3fifo_picks_small s \<longleftrightarrow>
     cache_size s div 15 \<le> small_list_size s \<or> main_list_size s \<le>s 2 * small_list_size s"

definition s3fifo_evict_folios :: "('k, s3fifo_state) kfuncs \<Rightarrow> evict_ctx \<Rightarrow> u64 \<Rightarrow> 'k \<Rightarrow> s3fifo_state \<Rightarrow>
    evict_ctx \<times> 'k \<times> s3fifo_state" where
  "s3fifo_evict_folios K ctx memcg k s =
     (if s3fifo_picks_small s then evict_small K ctx memcg k s else evict_main_iter K ctx memcg k s)"

section \<open>The folio hooks\<close>

definition s3fifo_folio_accessed :: "folio \<Rightarrow> 'k \<Rightarrow> s3fifo_state \<Rightarrow> 'k \<times> s3fifo_state" where
  "s3fifo_folio_accessed f k s =
     (if \<not> s3_is_folio_relevant s (Some f) then (k, s)
      else case get_folio_metadata s f of
        None \<Rightarrow> (k, s)
      | Some data \<Rightarrow>
          let s1 = set_folio_metadata f (\<lambda>d. d\<lparr>freq := freq d + 1\<rparr>) s
          in (k, if 3 <s freq data + 1 then set_folio_metadata f (\<lambda>d. d\<lparr>freq := 3\<rparr>) s1 else s1))"

definition s3fifo_folio_evicted :: "('k, s3fifo_state) kfuncs \<Rightarrow> folio \<Rightarrow> 'k \<Rightarrow> s3fifo_state \<Rightarrow>
    'k \<times> s3fifo_state" where
  "s3fifo_folio_evicted K f k s =
     (let key = s3_ghost_key f;
          s1 = s\<lparr>s3_ghost := snd (lru_update (kf_ghost_victims K k) (kf_ghost_err K k key) key 0 (s3_ghost s))\<rparr>
      in case get_folio_metadata s1 f of
        None \<Rightarrow> (k, s1)
      | Some data \<Rightarrow>
          let s2 = (if in_main data then s1\<lparr>main_list_size := main_list_size s1 - 1\<rparr>
                    else s1\<lparr>small_list_size := small_list_size s1 - 1\<rparr>)
          in (k, s2\<lparr>s3_meta := snd (hmap_delete (folio_addr f) (s3_meta s2))\<rparr>))"

definition s3fifo_folio_added :: "('k, s3fifo_state) kfuncs \<Rightarrow> folio \<Rightarrow> 'k \<Rightarrow> s3fifo_state \<Rightarrow>
    'k \<times> s3fifo_state" where
  "s3fifo_folio_added K f k s =
     (if \<not> s3_is_folio_relevant s (Some f) then (k, s)
      else let key = folio_addr f;
               (ghost, s1) = folio_in_ghost f s;
               (list_to_add, new_meta, s2) =
                 (if ghost then (s3_main_list s1, \<lparr>freq = 0, in_main = True\<rparr>,
                                 s1\<lparr>main_list_size := main_list_size s1 + 1\<rparr>)
                  else (s3_small_list s1, \<lparr>freq = 0, in_main = False\<rparr>,
                        s1\<lparr>small_list_size := small_list_size s1 + 1\<rparr>));
               (ret, k1) = kf_list_add_tail K list_to_add f k
           in if ret \<noteq> 0 then (k1, s2)
              else let (ret2, m) = hmap_update s3_meta_cap (kf_map_err K k1 key) key new_meta (s3_meta s2);
                       s3 = s2\<lparr>s3_meta := m\<rparr>
                   in if ret2 \<noteq> 0 then (snd (kf_list_del K f k1), s3) else (k1, s3))"

definition s3fifo_ops :: "('k, s3fifo_state) kfuncs \<Rightarrow> ('k, s3fifo_state) cache_ext_ops" where
  "s3fifo_ops K = \<lparr>
     op_init = s3fifo_init K,
     op_evict_folios = s3fifo_evict_folios K,
     op_folio_added = s3fifo_folio_added K,
     op_folio_accessed = Some s3fifo_folio_accessed,
     op_folio_evicted = s3fifo_folio_evicted K\<rparr>"

lemma s3_is_folio_relevant_eq [simp]:
  "s3_is_folio_relevant s (Some f) = relevant s f"
  by (simp add: s3_is_folio_relevant_def relevant_def folio_host_def split: option.splits)

lemma relevant_s3 [simp]:
  "relevant (s\<lparr>s3_meta := a\<rparr>) f = relevant s f"
  "relevant (s\<lparr>s3_ghost := b\<rparr>) f = relevant s f"
  "relevant (s\<lparr>main_list_size := c\<rparr>) f = relevant s f"
  "relevant (s\<lparr>small_list_size := c\<rparr>) f = relevant s f"
  by (simp_all add: relevant_def inode_in_watchlist_def inode_get_client_tag_def)

section \<open>One visit\<close>

lemma small_fn_eq:
  "bpf_s3fifo_score_small_fn k i f s =
     (case get_folio_metadata s f of
        Some d \<Rightarrow> if \<not> evictable f then (CONTINUE_ITER, s)
                  else if sint (freq d) \<le> 1 then (EVICT_NODE, s)
                  else (CONTINUE_ITER, set_folio_metadata f (\<lambda>d. d\<lparr>in_main := True\<rparr>) s)
      | None \<Rightarrow> (CONTINUE_ITER, s))"
  by (auto simp: bpf_s3fifo_score_small_fn_def evictable_tests word_sless_alt split: option.splits)

lemma main_fn_eq:
  "main_iter_fn n k i f s =
     (case get_folio_metadata s f of
        Some d \<Rightarrow> if evictable f
                  then (if freq d - 1 <s n then EVICT_NODE else CONTINUE_ITER,
                        set_folio_metadata f (\<lambda>d. d\<lparr>freq := freq d - 1\<rparr>) s)
                  else (CONTINUE_ITER, s)
      | None \<Rightarrow> (CONTINUE_ITER, s))"
  by (auto simp: main_iter_fn_def evictable_tests Let_def split: option.splits)

lemma get_set_metadata:
  "get_folio_metadata (set_folio_metadata f g s) h =
     (if folio_addr h = folio_addr f then map_option g (get_folio_metadata s h) else get_folio_metadata s h)"
  by (simp add: get_folio_metadata_def set_folio_metadata_def bpf_map_simps)

text \<open>What a pass with threshold \<open>n\<close> over the main list takes, and what it does to a folio.\<close>

definition main_takes :: "s64 \<Rightarrow> s3fifo_state \<Rightarrow> folio \<Rightarrow> bool" where
  "main_takes n s f \<longleftrightarrow> evictable f \<and>
     (case get_folio_metadata s f of None \<Rightarrow> False | Some d \<Rightarrow> freq d - 1 <s n)"

definition main_dec :: "folio \<Rightarrow> s3fifo_state \<Rightarrow> s3fifo_state" where
  "main_dec f s = (if evictable f then set_folio_metadata f (\<lambda>d. d\<lparr>freq := freq d - 1\<rparr>) s else s)"

lemma set_untracked:
  "get_folio_metadata s f = None \<Longrightarrow> set_folio_metadata f g s = s"
  by (simp add: get_folio_metadata_def set_folio_metadata_def hmap_modify_def)

lemma main_fn_dec:
  "main_iter_fn n k i f s = (if main_takes n s f then EVICT_NODE else CONTINUE_ITER, main_dec f s)"
  by (auto simp: main_fn_eq main_takes_def main_dec_def set_untracked split: option.splits)

lemma get_main_dec:
  "get_folio_metadata (main_dec f s) h =
     (if folio_addr h = folio_addr f \<and> evictable f
      then map_option (\<lambda>d. d\<lparr>freq := freq d - 1\<rparr>) (get_folio_metadata s h) else get_folio_metadata s h)"
  by (simp add: main_dec_def get_set_metadata)

lemma main_takes_dec:
  "folio_addr h \<noteq> folio_addr f \<Longrightarrow> main_takes n (main_dec f s) h = main_takes n s h"
  by (simp add: main_takes_def get_main_dec)

lemma main_pass:
  fixes vs :: "('k \<times> s32 \<times> folio) list"
  assumes "distinct (map (folio_addr \<circ> snd \<circ> snd) vs)"
  shows "run_cb (main_iter_fn n) vs s =
    (filter (main_takes n s) (map (snd \<circ> snd) vs), fold main_dec (map (snd \<circ> snd) vs) s)"
  using assms
proof (induction vs arbitrary: s)
  case (Cons v vs)
  obtain k i f where v: "v = (k, i, f)" by (cases v) auto
  have "filter (main_takes n (main_dec f s)) (map (snd \<circ> snd) vs) = filter (main_takes n s) (map (snd \<circ> snd) vs)"
  proof (rule filter_cong [OF refl])
    fix x assume "x \<in> set (map (snd \<circ> snd) vs)"
    then have "folio_addr x \<noteq> folio_addr f" using Cons.prems by (force simp: v)
    then show "main_takes n (main_dec f s) x = main_takes n s x" by (rule main_takes_dec)
  qed
  then show ?case
    using Cons.IH [of "main_dec f s"] Cons.prems
    by (simp add: v main_fn_dec [of n k i f s] split_def Let_def o_def)
qed simp

lemma get_fold_dec:
  assumes "distinct (map folio_addr fs)" "f \<in> set fs"
  shows "get_folio_metadata (fold main_dec fs s) f = get_folio_metadata (main_dec f s) f"
  using assms
proof (induction fs arbitrary: s)
  case (Cons g fs)
  have keep: "get_folio_metadata (fold main_dec hs t) f = get_folio_metadata t f"
    if "folio_addr f \<notin> folio_addr ` set hs" for hs t
    using that by (induction hs arbitrary: t) (auto simp: get_main_dec)
  show ?case
  proof (cases "f = g")
    case True
    with Cons.prems keep [of fs "main_dec g s"] show ?thesis by simp
  next
    case False
    with Cons.prems have fs: "f \<in> set fs" by simp
    have "folio_addr g \<notin> folio_addr ` set fs" using Cons.prems(1) by simp
    with fs have "folio_addr f \<noteq> folio_addr g" by (metis imageI)
    with Cons fs show ?thesis by (simp add: get_main_dec)
  qed
qed simp

section \<open>The passes over the main list\<close>

text \<open>
  The folios of the list that the pass with threshold \<open>j\<close>, counted from 0, takes: it sees
  frequencies that \<open>j\<close> earlier passes have lowered.
\<close>

definition main_due :: "s3fifo_state \<Rightarrow> folio list \<Rightarrow> nat \<Rightarrow> folio set" where
  "main_due s fs j = {f \<in> set fs. evictable f \<and>
     (\<exists>d. get_folio_metadata s f = Some d \<and> sint (freq d) \<le> 2 * int j)}"

text \<open>The state \<open>t\<close> after \<open>j\<close> passes that visited all of \<open>fs\<close>.\<close>

definition aged :: "folio list \<Rightarrow> nat \<Rightarrow> s3fifo_state \<Rightarrow> s3fifo_state \<Rightarrow> bool" where
  "aged fs j s t \<longleftrightarrow> s3_main_list t = s3_main_list s \<and>
     (\<forall>f \<in> set fs. evictable f \<longrightarrow>
        get_folio_metadata t f = map_option (\<lambda>d. d\<lparr>freq := freq d - of_nat j\<rparr>) (get_folio_metadata s f))"

definition frequencies_capped :: "s3fifo_state \<Rightarrow> folio list \<Rightarrow> bool" where
  "frequencies_capped s fs \<longleftrightarrow>
     (\<forall>f \<in> set fs. \<forall>d. get_folio_metadata s f = Some d \<longrightarrow> - (2 ^ 62) < sint (freq d) \<and> sint (freq d) \<le> 3)"

lemma sint_passes:
  assumes "- (2 ^ 62) < sint (x :: s64)" "j \<le> 3"
  shows "sint (x - of_nat j - 1) = sint x - int j - 1"
proof -
  have 1: "sint (x - 1) = sint x - 1" using assms(1) by (simp add: sint_dec)
  then have 2: "sint (x - 2) = sint x - 2" using assms(1) sint_dec [of "x - 1"] by simp
  then have 3: "sint (x - 3) = sint x - 3" using assms(1) sint_dec [of "x - 2"] by simp
  then have 4: "sint (x - 4) = sint x - 4" using assms(1) sint_dec [of "x - 3"] by simp
  consider "j = 0" | "j = 1" | "j = 2" | "j = 3" using assms(2) by linarith
  then show ?thesis by cases (simp_all add: 1 2 3 4)
qed

lemma main_never_stops: "\<not> may_stop (main_iter_fn n)"
  by (auto simp: may_stop_def main_fn_dec)

lemma main_list_fold_dec [simp]: "s3_main_list (fold main_dec fs s) = s3_main_list s"
  by (induction fs arbitrary: s) (simp_all add: main_dec_def set_folio_metadata_def)

lemma main_takes_due:
  assumes "aged fs j s t" "f \<in> set fs" "frequencies_capped s fs" "j \<le> 3"
  shows "main_takes (of_nat j) t f \<longleftrightarrow> f \<in> main_due s fs j"
proof (cases "get_folio_metadata s f")
  case (Some d)
  have "- (2 ^ 62) < sint (freq d)" using assms(2,3) Some by (auto simp: frequencies_capped_def)
  then have "sint (freq d - of_nat j - 1) = sint (freq d) - int j - 1" using assms(4) by (rule sint_passes)
  moreover have "sint (of_nat j :: s64) = int j" using assms(4) by (intro sint_of_nat_small) simp
  ultimately have "freq d - of_nat j - 1 <s of_nat j \<longleftrightarrow> sint (freq d) \<le> 2 * int j" by (auto simp: word_sless_alt)
  then show ?thesis using assms(1,2) Some by (auto simp: main_takes_def main_due_def aged_def)
qed (use assms(1,2) in \<open>auto simp: main_takes_def main_due_def aged_def\<close>)

lemma main_pass_step:
  fixes K :: "('k, s3fifo_state) kfuncs"
  assumes "list_walk K V"
    and "kf_list_iterate_extended K m (s3_main_list t) (main_iter_fn (of_nat j)) o' c k t = (r, p, c', k', t')"
    and "\<not> r <s 0" "j \<le> 3" "aged fs j s t" "frequencies_capped s fs" "distinct (map folio_addr fs)"
    and "mset (map node_folio (V m (s3_main_list t) k)) = mset fs"
  shows "\<exists>es. c' = nominate es c \<and> distinct (map folio_addr es) \<and> set es \<subseteq> main_due s fs j
    \<and> (\<not> request_met c' \<longrightarrow> set es = main_due s fs j \<and> aged fs (Suc j) s t')"
proof -
  let ?vs = "V m (s3_main_list t) k"
  obtain n where n: "c' = nominate (fst (run_cb (main_iter_fn (of_nat j)) (take n ?vs) t)) c"
    "t' = snd (run_cb (main_iter_fn (of_nat j)) (take n ?vs) t)" "length ?vs \<le> n \<or> request_met c'"
    using list_walk.walks_to_end [OF assms(1) list_walk.iterate_extended [OF assms(1,2)] assms(3) main_never_stops] by blast
  let ?gs = "map (snd \<circ> snd) (take n ?vs)" and ?all = "map (snd \<circ> snd) ?vs"
  have all: "mset ?all = mset fs" using assms(8) by (simp add: comp_def)
  then have d: "distinct (map folio_addr ?all)" and set_all: "set ?all = set fs"
    using assms(7) by (metis mset_map mset_eq_imp_distinct_iff, metis set_mset_mset)
  then have d_gs: "distinct (map folio_addr ?gs)" by (simp flip: take_map)
  then have run: "run_cb (main_iter_fn (of_nat j)) (take n ?vs) t =
      (filter (main_takes (of_nat j) t) ?gs, fold main_dec ?gs t)"
    by (intro main_pass) (simp add: comp_assoc)
  have sub: "set ?gs \<subseteq> set fs" using set_take_subset [of n ?all] set_all by (simp add: take_map)
  have due: "main_takes (of_nat j) t f \<longleftrightarrow> f \<in> main_due s fs j" if "f \<in> set ?gs" for f
    using main_takes_due [OF assms(5) _ assms(6,4)] that sub by blast
  let ?es = "filter (main_takes (of_nat j) t) ?gs"
  have "set ?es \<subseteq> main_due s fs j" using due by auto
  moreover have "distinct (map folio_addr ?es)" using d_gs by (rule distinct_map_filter)
  moreover have "set ?es = main_due s fs j \<and> aged fs (Suc j) s t'" if "\<not> request_met c'"
  proof -
    have gs: "?gs = ?all" using n(3) that by simp
    then have "set ?es = main_due s fs j" using due set_all by (auto simp: main_due_def)
    moreover have "get_folio_metadata t' f = map_option (\<lambda>d. d\<lparr>freq := freq d - of_nat (Suc j)\<rparr>) (get_folio_metadata s f)"
      if "f \<in> set fs" "evictable f" for f
      using get_fold_dec [OF d, of f t] that set_all assms(5) gs run n(2)
      by (simp add: get_main_dec aged_def option.map_comp comp_def diff_diff_eq add.commute)
    ultimately show ?thesis using assms(5) run n(2) by (simp add: aged_def)
  qed
  ultimately show ?thesis using n(1) run by (intro exI [of _ ?es]) simp
qed

lemma nominate_append: "nominate es' (nominate es c) = nominate (es @ es') c"
  by (simp add: nominate_def add.assoc)

text \<open>What the passes so far have nominated, in order.\<close>

definition passes_take :: "s3fifo_state \<Rightarrow> folio list \<Rightarrow> evict_ctx \<Rightarrow> folio list list \<Rightarrow> bool" where
  "passes_take s fs c' ess \<longleftrightarrow> (\<forall>j < length ess. distinct (map folio_addr (ess ! j)) \<and> set (ess ! j) \<subseteq> main_due s fs j
     \<and> (Suc j < length ess \<or> \<not> request_met c' \<longrightarrow> set (ess ! j) = main_due s fs j))"

lemma passes_take_snoc:
  assumes "passes_take s fs c1 ess" "\<not> request_met c1" "distinct (map folio_addr es)"
    and "set es \<subseteq> main_due s fs (length ess)" "\<not> request_met c2 \<longrightarrow> set es = main_due s fs (length ess)"
  shows "passes_take s fs c2 (ess @ [es])"
  using assms by (auto simp: passes_take_def nth_append less_Suc_eq)

lemma evict_main_iter_passes:
  fixes K :: "('k, s3fifo_state) kfuncs"
  assumes W: "list_walk K V" and ok: "\<And>l cb o' c k s. \<not> fst (kf_list_iterate_extended K m l cb o' c k s) <s 0"
    and fs: "mset (map node_folio (V m (s3_main_list s) k)) = mset fs" "distinct (map folio_addr fs)" "frequencies_capped s fs"
    and run: "evict_main_iter K c m k s = (c', k', s')"
  shows "\<exists>ess. c' = nominate (concat ess) c \<and> length ess \<in> {1..4} \<and> (length ess < 4 \<longrightarrow> request_met c')
    \<and> passes_take s fs c' ess"
proof -
  let ?scan = "\<lambda>n t o' c k. kf_list_iterate_extended K m (s3_main_list t) (main_iter_fn n) o' c k t"
  let ?I = "\<lambda>ess t o' c2 k2. c2 = nominate (concat ess) c \<and> passes_take s fs c2 ess \<and> (\<not> request_met c2 \<longrightarrow>
    aged fs (length ess) s t \<and> to_self o' \<and> mset (map node_folio (V m (s3_main_list s) k2)) = mset fs)"
  have step: "\<exists>ess'. length ess' = Suc (length ess) \<and> ?I ess' t' p c3 k3"
    if I: "?I ess t o' c2 k2" and nm: "ess = [] \<or> \<not> request_met c2"
      and st: "aged fs (length ess) s t \<and> to_self o' \<and> mset (map node_folio (V m (s3_main_list s) k2)) = mset fs"
      and len: "length ess \<le> 3" and call: "?scan (of_nat (length ess)) t o' c2 k2 = (r, p, c3, k3, t')"
    for ess t o' c2 k2 r p c3 k3 t'
  proof -
    have r: "\<not> r <s 0" using ok [of "s3_main_list t" "main_iter_fn (of_nat (length ess))" o' c2 k2 t] call by simp
    have l: "s3_main_list t = s3_main_list s" using st by (simp add: aged_def)
    obtain es where es: "c3 = nominate es c2" "distinct (map folio_addr es)" "set es \<subseteq> main_due s fs (length ess)"
      "\<not> request_met c3 \<longrightarrow> set es = main_due s fs (length ess) \<and> aged fs (Suc (length ess)) s t'"
      using main_pass_step [OF W call r len _ fs(3,2)] st by (auto simp: l)
    have self: "to_self p" using list_walk.options_kept [OF W call] st by blast
    have kept: "mset (map node_folio (V m (s3_main_list s) k3)) = mset fs"
      using list_walk.folios_kept [OF W call] st by (simp only: l)
    have "passes_take s fs c3 (ess @ [es])"
    proof (cases "ess = []")
      case True
      then show ?thesis using es(2-4) by (simp add: passes_take_def)
    next
      case False
      then show ?thesis using nm I es(2-4) by (intro passes_take_snoc [of s fs c2]) auto
    qed
    moreover have "c3 = nominate (concat (ess @ [es])) c" using I es(1) by (simp add: nominate_append)
    ultimately show ?thesis using es(4) self kept by (intro exI [of _ "ess @ [es]"]) simp
  qed
  have start: "?I [] s s3_self_opts c k"
    using fs(1) by (auto simp: passes_take_def nominate_def aged_def s3_self_opts_def to_self_def option.map_ident)
  have self: "aged fs 0 s s \<and> to_self s3_self_opts \<and> mset (map node_folio (V m (s3_main_list s) k)) = mset fs"
    using fs(1) by (auto simp: aged_def s3_self_opts_def to_self_def option.map_ident)
  obtain r0 o1 c1 k1 s1 where p0: "?scan 0 s s3_self_opts c k = (r0, o1, c1, k1, s1)" by (metis prod_cases5)
  obtain ess1 where e1: "length ess1 = 1" "?I ess1 s1 o1 c1 k1" using step [OF start, of r0 o1 c1 k1 s1] self p0 by auto
  obtain r1 o2 c2 k2 s2 where p1: "?scan 1 s1 o1 c1 k1 = (r1, o2, c2, k2, s2)" by (metis prod_cases5)
  obtain r2 o3 c3 k3 s3 where p2: "?scan 2 s2 o2 c2 k2 = (r2, o3, c3, k3, s3)" by (metis prod_cases5)
  obtain r3 o4 c4 k4 s4 where p3: "?scan 3 s3 o3 c3 k3 = (r3, o4, c4, k4, s4)" by (metis prod_cases5)
  have r: "\<not> r0 <s 0" "\<not> r1 <s 0" "\<not> r2 <s 0" "\<not> r3 <s 0"
    using ok p0 p1 p2 p3 by (metis fst_conv)+
  have c': "c' = (if request_met c1 then c1 else if request_met c2 then c2 else if request_met c3 then c3 else c4)"
    using run r by (simp add: evict_main_iter_def p0 p1 p2 p3 request_met_def not_less split: if_splits)
  show ?thesis
  proof (cases "request_met c1")
    case True
    then show ?thesis using e1 c' by (intro exI [of _ ess1]) auto
  next
    case n1: False
    obtain ess2 where e2: "length ess2 = Suc (Suc 0)" "?I ess2 s2 o2 c2 k2" using step [OF e1(2), of r1 o2 c2 k2 s2] e1 n1 p1 by auto
    show ?thesis
    proof (cases "request_met c2")
      case True
      then show ?thesis using e2 n1 c' by (intro exI [of _ ess2]) auto
    next
      case n2: False
      obtain ess3 where e3: "length ess3 = Suc (Suc (Suc 0))" "?I ess3 s3 o3 c3 k3" using step [OF e2(2), of r2 o3 c3 k3 s3] e2 n2 p2 by auto
      show ?thesis
      proof (cases "request_met c3")
        case True
        then show ?thesis using e3 n1 n2 c' by (intro exI [of _ ess3]) auto
      next
        case n3: False
        obtain ess4 where "length ess4 = Suc (Suc (Suc (Suc 0)))" "?I ess4 s4 o4 c4 k4" using step [OF e3(2), of r3 o4 c4 k4 s4] e3 n3 p3 by auto
        then show ?thesis using n1 n2 n3 c' by (intro exI [of _ ess4]) auto
      qed
    qed
  qed
qed

text \<open>
  C16: with frequencies of at most 3 on a list that holds no folio twice, and while no scan
  fails, an eviction from the main list makes at most four passes and goes on to the next only
  while fewer folios are nominated than requested. The first
  takes the evictable folios whose frequency is not positive, the second those of at most 2,
  the third and the fourth every one, each at most once; so the eviction falls short of the
  request only when the first three passes have taken every evictable tracked folio of the
  list, and the fourth finds none but those.
\<close>

theorem main_list_passes:
  fixes K :: "('k, s3fifo_state) kfuncs"
  assumes "list_walk K V" "\<And>l cb o' c k s. \<not> fst (kf_list_iterate_extended K m l cb o' c k s) <s 0"
    and fs: "fs = map node_folio (V m (s3_main_list s) k)" "distinct (map folio_addr fs)" "frequencies_capped s fs"
    and run: "evict_main_iter K c m k s = (c', k', s')"
  shows "\<exists>ess. c' = nominate (concat ess) c \<and> length ess \<in> {1..4} \<and> (length ess < 4 \<longrightarrow> request_met c')
    \<and> passes_take s fs c' ess
    \<and> (\<forall>f \<in> set fs. evictable f \<and> get_folio_metadata s f \<noteq> None \<longrightarrow> request_met c' \<or> f \<in> set (concat (take 3 ess)))"
proof -
  obtain ess where e: "c' = nominate (concat ess) c" "length ess \<in> {1..4}" "length ess < 4 \<longrightarrow> request_met c'"
    "passes_take s fs c' ess"
    using evict_main_iter_passes [OF assms(1,2) _ fs(2,3) run] fs(1) by auto
  have "f \<in> set (concat (take 3 ess))"
    if "f \<in> set fs" "evictable f" "get_folio_metadata s f \<noteq> None" "\<not> request_met c'" for f
  proof -
    have four: "length ess = 4" using e(2,3) that(4) by auto
    have "f \<in> main_due s fs 2" using that(1-3) fs(3) by (fastforce simp: main_due_def frequencies_capped_def)
    moreover have "set (ess ! 2) = main_due s fs 2" using e(4) four that(4) by (auto simp: passes_take_def)
    moreover have "ess ! 2 \<in> set (take 3 ess)" using four by (auto simp: in_set_conv_nth intro!: exI [of _ 2])
    ultimately show ?thesis by auto
  qed
  with e show ?thesis by blast
qed

definition demo_s3 :: s3fifo_state where
  "demo_s3 = watch_state.extend (demo_watch\<lparr>inode_watchlist := [(42, 1)]\<rparr>)
     (s3fifo_state.fields [(2, \<lparr>freq = 3, in_main = True\<rparr>)] [] 1 2 0 1 1000)"

lemmas demo_s3_simps = demo_s3_def watch_state.defs s3fifo_state.defs demo_watch_def
  relevant_def inode_in_watchlist_def inode_get_client_tag_def

text \<open>Five folios are requested; the list holds a dirty folio and a clean one of frequency 3.\<close>

theorem main_list_passes_witness:
  "\<exists>ess. fst (evict_main_iter list_kfuncs (demo_ctx\<lparr>request_nr_folios_to_evict := 5\<rparr>) 0 demo_kernel demo_s3)
      = nominate (concat ess) (demo_ctx\<lparr>request_nr_folios_to_evict := 5\<rparr>)
    \<and> length ess = 4 \<and> ess ! 0 = [] \<and> ess ! 1 = [] \<and> set (ess ! 2) = {clean_folio 2}"
proof -
  let ?c = "demo_ctx\<lparr>request_nr_folios_to_evict := 5\<rparr>" and ?fs = "[dirty_folio 1, clean_folio 2]"
  obtain c' k' s' where r: "evict_main_iter list_kfuncs ?c 0 demo_kernel demo_s3 = (c', k', s')" by (metis prod_cases3)
  have c': "fst (evict_main_iter list_kfuncs ?c 0 demo_kernel demo_s3) = nominate [clean_folio 2, clean_folio 2] ?c"
    by (simp add: evict_main_iter_def list_kernel_simps demo_simps demo_s3_simps main_fn_eq get_folio_metadata_def
        set_folio_metadata_def hmap_modify_def nominate_def word_sless_alt)
  then have "c' = nominate [clean_folio 2, clean_folio 2] ?c" by (simp only: r fst_conv)
  then have unmet: "\<not> request_met c'" by (simp add: request_met_def demo_ctx_def)
  have nodes: "?fs = map node_folio (lk_nodes 0 (s3_main_list demo_s3) demo_kernel)"
    by (simp add: lk_nodes_def lk_list_def demo_simps demo_s3_simps)
  have cap: "frequencies_capped demo_s3 ?fs"
    by (simp add: frequencies_capped_def get_folio_metadata_def demo_s3_simps)
  have ok: "\<not> fst (kf_list_iterate_extended list_kfuncs 0 l cb o' c k (s :: s3fifo_state)) <s 0" for l cb o' c k s
    by (simp add: list_kfuncs_def split_def Let_def)
  have due: "main_due demo_s3 ?fs 0 = {}" "main_due demo_s3 ?fs 1 = {}" "main_due demo_s3 ?fs 2 = {clean_folio 2}"
    by (auto simp: main_due_def get_folio_metadata_def demo_s3_simps)
  obtain ess where e: "c' = nominate (concat ess) ?c" "length ess = 4" "passes_take demo_s3 ?fs c' ess"
    using main_list_passes [OF lk.list_walk_axioms ok nodes _ cap r] unmet by auto
  from e(2,3) unmet have "set (ess ! 0) = main_due demo_s3 ?fs 0" "set (ess ! 1) = main_due demo_s3 ?fs 1"
    "set (ess ! 2) = main_due demo_s3 ?fs 2" by (simp_all add: passes_take_def)
  then show ?thesis using e(1,2) r due by (intro exI [of _ ess]) simp
qed

section \<open>What eviction nominates\<close>

definition s3_keys :: "s3fifo_state \<Rightarrow> u64 set" where
  "s3_keys s = dom (map_of (s3_meta s))"

lemma s3_keys_get: "folio_addr f \<in> s3_keys s \<longleftrightarrow> get_folio_metadata s f \<noteq> None"
  by (auto simp: s3_keys_def get_folio_metadata_def)

lemma s3_keys_sizes [simp]:
  "s3_keys (s\<lparr>main_list_size := a\<rparr>) = s3_keys s"
  "s3_keys (s\<lparr>small_list_size := a\<rparr>) = s3_keys s"
  by (simp_all add: s3_keys_def)

text \<open>
  A stretch of an eviction: nodes nominated so far are evictable and tracked, and no entry
  of the metadata map comes or goes.
\<close>

definition s3_stretch :: "s3fifo_state \<Rightarrow> evict_ctx \<Rightarrow> s3fifo_state \<Rightarrow> evict_ctx \<Rightarrow> bool" where
  "s3_stretch s c s' c' \<longleftrightarrow>
     s3_keys s' = s3_keys s
     \<and> (\<exists>es. c' = nominate es c \<and> (\<forall>f \<in> set es. evictable f \<and> folio_addr f \<in> s3_keys s))"

lemma s3_stretch_trans:
  assumes "s3_stretch s c s' c'" "s3_stretch s' c' s'' c''"
  shows "s3_stretch s c s'' c''"
proof -
  obtain es es' where "c' = nominate es c" "c'' = nominate es' c'"
    "\<forall>f \<in> set (es @ es'). evictable f \<and> folio_addr f \<in> s3_keys s"
    using assms unfolding s3_stretch_def by (metis Un_iff set_append)
  moreover from this have "c'' = nominate (es @ es') c" by (simp add: nominate_def add.assoc)
  ultimately show ?thesis using assms unfolding s3_stretch_def by metis
qed

lemma dom_set_metadata:
  "s3_keys (set_folio_metadata f g s) = s3_keys s"
  by (auto simp: s3_keys_def set_folio_metadata_def bpf_map_simps dom_def)

text \<open>One scan with a callback that nominates only evictable tracked folios.\<close>

lemma s3_scan:
  fixes K :: "('k, s3fifo_state) kfuncs"
  assumes "kernel_ok K"
    and "\<And>k i f s. s3_keys (snd (cb k i f s)) = s3_keys s"
    and "\<And>k i f s. fst (cb k i f s) = EVICT_NODE \<Longrightarrow> evictable f \<and> folio_addr f \<in> s3_keys s"
    and "kf_list_iterate_extended K m l cb o' c k s = (r, o1, c', k', s')"
  shows "s3_stretch s c s' c'"
proof -
  obtain vs :: "('k \<times> s32 \<times> folio) list" where
    v: "c' = nominate (fst (run_cb cb vs s)) c" "s' = snd (run_cb cb vs s)"
    using iterate_extended_result [OF assms(1), of m l cb o' c k s] assms(4) by auto
  let ?P = "\<lambda>t. s3_keys t = s3_keys s"
  have "?P (snd (run_cb cb vs s))" using assms(2) by (intro run_cb_inv [where P = ?P]) auto
  moreover have "\<forall>f \<in> set (fst (run_cb cb vs s)). evictable f \<and> folio_addr f \<in> s3_keys s"
    using assms(2,3) by (intro run_cb_evicted [where P = ?P]) auto
  ultimately show ?thesis by (auto simp: s3_stretch_def v)
qed

lemma main_scan:
  fixes K :: "('k, s3fifo_state) kfuncs"
  assumes "kernel_ok K" "kf_list_iterate_extended K m l (main_iter_fn n) o' c k s = (r, o1, c', k', s')"
  shows "s3_stretch s c s' c'"
  using assms(1) _ _ assms(2)
  by (rule s3_scan)
    (auto simp: main_fn_dec main_takes_def main_dec_def dom_set_metadata s3_keys_get
      split: if_splits option.splits)

lemma small_scan:
  fixes K :: "('k, s3fifo_state) kfuncs"
  assumes "kernel_ok K" "kf_list_iterate_extended K m l bpf_s3fifo_score_small_fn o' c k s = (r, o1, c', k', s')"
  shows "s3_stretch s c s' c'"
  using assms(1) _ _ assms(2)
  by (rule s3_scan)
    (auto simp: small_fn_eq dom_set_metadata s3_keys_get split: if_splits option.splits)

lemma evict_main_iter_stretch:
  fixes K :: "('k, s3fifo_state) kfuncs"
  assumes "kernel_ok K" "evict_main_iter K c m k s = (c', k', s')"
  shows "s3_stretch s c s' c'"
  using assms(2) unfolding evict_main_iter_def Let_def
  by (auto split: prod.splits if_splits dest!: main_scan [OF assms(1)] intro: s3_stretch_trans)

lemma evict_small_stretch:
  fixes K :: "('k, s3fifo_state) kfuncs"
  assumes "kernel_ok K" "evict_small K c m k s = (c', k', s')"
  shows "s3_stretch s c s' c'"
  using assms(2) unfolding evict_small_def Let_def
  by (auto split: prod.splits if_splits dest!: small_scan [OF assms(1)] simp: s3_stretch_def)

text \<open>
  C27: whichever list it scans, an eviction nominates only folios that are evictable and have
  metadata, after those already nominated, and adds or drops no metadata entry.
\<close>

theorem s3fifo_evict_safe:
  fixes K :: "('k, s3fifo_state) kfuncs"
  assumes "kernel_ok K" "s3fifo_evict_folios K c m k s = (c', k', s')"
  shows "s3_keys s' = s3_keys s
    \<and> (\<exists>es. c' = nominate es c \<and> (\<forall>f \<in> set es. evictable f \<and> folio_addr f \<in> s3_keys s))"
  using assms evict_small_stretch [of K c m k s] evict_main_iter_stretch [of K c m k s]
  by (auto simp: s3fifo_evict_folios_def s3_stretch_def split: if_splits)

theorem s3fifo_evict_safe_witness:
  "s3_keys (snd (snd (s3fifo_evict_folios list_kfuncs demo_ctx 0 demo_kernel demo_s3))) = {2}"
proof -
  obtain c' k' s' where "s3fifo_evict_folios list_kfuncs demo_ctx 0 demo_kernel demo_s3 = (c', k', s')"
    by (metis prod_cases3)
  with s3fifo_evict_safe [OF list_kernel_ok this] show ?thesis
    by (simp add: s3_keys_def demo_s3_def watch_state.defs s3fifo_state.defs)
qed

section \<open>The ghost map\<close>

text \<open>
  C32: a folio evicted with its ghost entry stored, whose page comes back (in any folio of
  the same inode and offset) before the kernel drops that entry, is put on the main list with
  frequency 0 and its entry is consumed: a second return would go to the small list.
\<close>

theorem s3fifo_ghost_return:
  assumes "kf_ghost_err K k (s3_ghost_key f) = 0" "s1 = snd (s3fifo_folio_evicted K f k s)"
    and "relevant s1 g" "s3_ghost_key g = s3_ghost_key f"
    and "kf_list_add_tail K (s3_main_list s1) g k1 = (0, k2)"
    and "kf_map_err K k2 (folio_addr g) = 0" "length (s3_meta s1) < s3_meta_cap"
  shows "fst (s3fifo_folio_added K g k1 s1) = k2
    \<and> get_folio_metadata (snd (s3fifo_folio_added K g k1 s1)) g = Some \<lparr>freq = 0, in_main = True\<rparr>
    \<and> \<not> fst (folio_in_ghost g (snd (s3fifo_folio_added K g k1 s1)))"
proof -
  have "s3_ghost s1 = snd (lru_update (kf_ghost_victims K k) 0 (s3_ghost_key f) 0 (s3_ghost s))"
    using assms(1,2) by (auto simp: s3fifo_folio_evicted_def Let_def split: option.splits)
  then have "map_of (s3_ghost s1) (s3_ghost_key g) = Some 0"
    using assms(4) lru.store_hit [of "kf_ghost_victims K k" 0 "s3_ghost_key f" 0 "s3_ghost s"]
    by (simp add: lru_update_def)
  then have del: "fst (hmap_delete (s3_ghost_key g) (s3_ghost s1)) \<noteq> - ENOENT"
    "fst (hmap_delete (s3_ghost_key g) (snd (hmap_delete (s3_ghost_key g) (s3_ghost s1)))) = - ENOENT"
    by (simp_all add: hash.del_code hash.del_gone)
  obtain m where upd:
    "hmap_update s3_meta_cap 0 (folio_addr g) \<lparr>freq = 0, in_main = True\<rparr> (s3_meta s1) = (0, m)"
    "map_of m (folio_addr g) = Some \<lparr>freq = 0, in_main = True\<rparr>"
    using assms(7) by (auto simp: hmap_update_def bpf_map_simps)
  have "s3fifo_folio_added K g k1 s1 =
      (k2, s1\<lparr>s3_ghost := snd (hmap_delete (s3_ghost_key g) (s3_ghost s1)),
              main_list_size := main_list_size s1 + 1, s3_meta := m\<rparr>)"
    using assms(3,5,6) del(1) upd(1)
    by (simp add: s3fifo_folio_added_def folio_in_ghost_def split_def Let_def)
  then show ?thesis
    using upd(2) del(2) by (simp add: get_folio_metadata_def folio_in_ghost_def split_def Let_def)
qed

theorem s3fifo_ghost_return_witness:
  "get_folio_metadata (snd (s3fifo_folio_added list_kfuncs ((clean_folio 2)\<lparr>folio_addr := 9\<rparr>) demo_kernel
     (snd (s3fifo_folio_evicted list_kfuncs (clean_folio 2) demo_kernel demo_s3)))) ((clean_folio 2)\<lparr>folio_addr := 9\<rparr>)
   = Some \<lparr>freq = 0, in_main = True\<rparr>"
  using s3fifo_ghost_return [of list_kfuncs demo_kernel "clean_folio 2" _ demo_s3
      "(clean_folio 2)\<lparr>folio_addr := 9\<rparr>" demo_kernel, OF _ refl]
  by (simp add: list_kernel_simps demo_simps demo_s3_simps s3fifo_folio_evicted_def s3_ghost_key_def
      host_word_def folio_host_def clean_folio_def get_folio_metadata_def hmap_delete_def s3_meta_cap_def)

section \<open>Frequencies\<close>

text \<open>
  An access raises the frequency of a relevant tracked folio by one up to 3 and touches
  nothing else; any other access changes nothing.
\<close>

lemma s3fifo_accessed_caps:
  assumes "\<And>d. get_folio_metadata s f = Some d \<Longrightarrow> sint (freq d) < 2 ^ 62"
  shows "\<exists>s'. s3fifo_folio_accessed f k s = (k, s')
    \<and> s3_ghost s' = s3_ghost s \<and> main_list_size s' = main_list_size s \<and> small_list_size s' = small_list_size s
    \<and> (\<forall>h. folio_addr h \<noteq> folio_addr f \<longrightarrow> get_folio_metadata s' h = get_folio_metadata s h)
    \<and> (case get_folio_metadata s f of
         None \<Rightarrow> s' = s
       | Some d \<Rightarrow> if relevant s f
           then (\<exists>d'. get_folio_metadata s' f = Some d' \<and> in_main d' = in_main d
                  \<and> sint (freq d') = min 3 (sint (freq d) + 1))
           else s' = s)"
proof (cases "get_folio_metadata s f")
  case (Some d)
  have inc: "sint (freq d + 1) = sint (freq d) + 1"
    using assms [OF Some] by (simp add: sint_inc)
  have three: "sint (3 :: s64) = 3" by simp
  show ?thesis
    using Some inc three
    by (cases "relevant s f"; cases "3 < sint (freq d) + 1")
      (simp_all add: s3fifo_folio_accessed_def Let_def word_sless_alt get_folio_metadata_def
        set_folio_metadata_def bpf_map_simps)
qed (simp add: s3fifo_folio_accessed_def)

section \<open>The size counters\<close>

definition main_count :: "s3fifo_state \<Rightarrow> nat" where
  "main_count s = hmap_count in_main (s3_meta s)"

definition small_count :: "s3fifo_state \<Rightarrow> nat" where
  "small_count s = hmap_count (\<lambda>d. \<not> in_main d) (s3_meta s)"

definition s3_inv :: "s3fifo_state \<Rightarrow> bool" where
  "s3_inv s \<longleftrightarrow> hmap_ok s3_meta_cap (s3_meta s)
     \<and> main_list_size s = of_nat (main_count s) \<and> small_list_size s = of_nat (small_count s)"

text \<open>
  The calls that keep the counters exact: a folio reported as added is untracked, and adding
  it to a list and to the metadata map succeeds; an eviction scans the main list.
\<close>

fun s3_adm :: "('k, s3fifo_state) kfuncs \<Rightarrow> 'k \<Rightarrow> hook \<Rightarrow> s3fifo_state \<Rightarrow> bool" where
  "s3_adm K k (Folio_Added f) s \<longleftrightarrow> relevant s f \<longrightarrow>
     map_of (s3_meta s) (folio_addr f) = None \<and> length (s3_meta s) < s3_meta_cap \<and>
     (\<forall>l \<in> {s3_main_list s, s3_small_list s}. fst (kf_list_add_tail K l f k) = 0
        \<and> kf_map_err K (snd (kf_list_add_tail K l f k)) (folio_addr f) = 0)"
| "s3_adm K k (Evict_Folios c m) s \<longleftrightarrow> \<not> s3fifo_picks_small s"
| "s3_adm K k h s \<longleftrightarrow> True"

lemma s3_inv_set:
  assumes "s3_inv s" "\<And>d. in_main (g d) = in_main d"
  shows "s3_inv (set_folio_metadata f g s)"
  using assms
  by (simp add: s3_inv_def set_folio_metadata_def main_count_def small_count_def hmap_ok_def
      hmap_count_modify)

lemma s3_inv_main_fn: "s3_inv s \<Longrightarrow> s3_inv (snd (main_iter_fn n k i f s))"
  by (simp add: main_fn_dec main_dec_def s3_inv_set)

lemma s3_inv_main_scan:
  fixes K :: "('k, s3fifo_state) kfuncs"
  assumes "kernel_ok K" "s3_inv s" "kf_list_iterate_extended K m l (main_iter_fn n) o' c k s = (r, o1, c', k', s')"
  shows "s3_inv s'"
  using iterate_extended_inv [where P = s3_inv and cb = "main_iter_fn n",
      OF assms(1) s3_inv_main_fn assms(2), of m l o' c k] assms(3)
  by simp

lemma s3_inv_evict_main:
  fixes K :: "('k, s3fifo_state) kfuncs"
  assumes "kernel_ok K" "s3_inv s"
  shows "s3_inv (snd (snd (evict_main_iter K c m k s)))"
  unfolding evict_main_iter_def Let_def
  using assms(2) by (auto split: prod.splits dest!: s3_inv_main_scan [OF assms(1), rotated])

lemma s3_inv_added:
  assumes "s3_adm K k (Folio_Added f) s" "s3_inv s"
  shows "s3_inv (snd (s3fifo_folio_added K f k s))"
proof (cases "relevant s f")
  case True
  with assms(1) obtain k1 k2 where
    a: "map_of (s3_meta s) (folio_addr f) = None" "length (s3_meta s) < s3_meta_cap"
      "kf_list_add_tail K (s3_main_list s) f k = (0, k1)" "kf_map_err K k1 (folio_addr f) = 0"
      "kf_list_add_tail K (s3_small_list s) f k = (0, k2)" "kf_map_err K k2 (folio_addr f) = 0"
    by (cases "kf_list_add_tail K (s3_main_list s) f k"; cases "kf_list_add_tail K (s3_small_list s) f k") auto
  show ?thesis
    using True a assms(2)
    by (simp add: s3fifo_folio_added_def folio_in_ghost_def split_def Let_def hmap_update_new
        s3_inv_def main_count_def small_count_def hmap_count_insert hmap_update_new_ok add.commute)
qed (use assms in \<open>simp add: s3fifo_folio_added_def\<close>)

lemma s3_inv_evicted:
  assumes "s3_inv s"
  shows "s3_inv (snd (s3fifo_folio_evicted K f k s))"
proof (cases "map_of (s3_meta s) (folio_addr f)")
  case None
  with assms show ?thesis
    by (simp add: s3fifo_folio_evicted_def get_folio_metadata_def Let_def s3_inv_def main_count_def small_count_def)
next
  case (Some d)
  have d: "distinct (map fst (s3_meta s))" using assms by (simp add: s3_inv_def hmap_ok_def)
  have c: "hmap_count P (AList.delete (folio_addr f) (s3_meta s)) + (if P d then 1 else 0) = hmap_count P (s3_meta s)"
    for P by (rule hmap_count_delete [OF d Some])
  have w: "(of_nat (hmap_count P (AList.delete (folio_addr f) (s3_meta s))) :: u64)
      = of_nat (hmap_count P (s3_meta s)) - (if P d then 1 else 0)" for P
    by (simp flip: c [of P])
  show ?thesis
    using assms Some hmap_delete_ok [of s3_meta_cap "s3_meta s" "folio_addr f"]
    by (cases "in_main d")
      (auto simp: s3fifo_folio_evicted_def get_folio_metadata_def Let_def s3_inv_def main_count_def
        small_count_def hmap_delete_def w)
qed

lemma s3_inv_accessed: "s3_inv s \<Longrightarrow> s3_inv (snd (s3fifo_folio_accessed f k s))"
  by (auto simp: s3fifo_folio_accessed_def Let_def s3_inv_set split: option.split)

interpretation s3fifo: policy s3fifo_ops s3_adm s3_inv
proof (unfold_locales, goal_cases)
  case (1 K k f s)
  then show ?case by (simp add: s3fifo_ops_def s3_inv_added del: s3_adm.simps)
next
  case (2 K k f s h)
  then show ?case by (auto simp: s3fifo_ops_def s3_inv_accessed)
next
  case (3 K k f s)
  then show ?case by (simp add: s3fifo_ops_def s3_inv_evicted)
next
  case (4 K k c m s)
  then show ?case by (simp add: s3fifo_ops_def s3fifo_evict_folios_def s3_inv_evict_main)
qed

text \<open>
  C2: from a state whose two size counters are exact, any sequence of calls keeps them exact
  in which every folio of a watched file that is reported as added has no metadata yet and is
  accepted by the list and by the metadata map, and evictions scan the main list: the
  counters are the numbers of tracked folios with and without the main flag.
\<close>

theorem s3fifo_sizes_exact:
  assumes "kernel_ok K" "admissible (s3_adm K) (s3fifo_ops K) hs (k, s)" "s3_inv s"
    and "(k', s') = run_hooks (s3fifo_ops K) hs (k, s)"
  shows "main_list_size s' = of_nat (main_count s') \<and> small_list_size s' = of_nat (small_count s')"
  using s3fifo.run_inv [OF assms(1,2)] assms(3,4) by (auto simp: s3_inv_def dest: sym)

theorem s3fifo_sizes_exact_witness:
  "let (k', s') = run_hooks (s3fifo_ops list_kfuncs)
       [Folio_Added (clean_folio 3), Folio_Accessed (clean_folio 3), Folio_Evicted (clean_folio 2)] (demo_kernel, demo_s3)
   in main_list_size s' = of_nat (main_count s') \<and> small_list_size s' = of_nat (small_count s')"
proof -
  let ?hs = "[Folio_Added (clean_folio 3), Folio_Accessed (clean_folio 3), Folio_Evicted (clean_folio 2)]"
  obtain k' s' where r: "(k', s') = run_hooks (s3fifo_ops list_kfuncs) ?hs (demo_kernel, demo_s3)"
    by (metis surj_pair)
  have a: "admissible (s3_adm list_kfuncs) (s3fifo_ops list_kfuncs) ?hs (demo_kernel, demo_s3)"
    by (simp add: list_kernel_simps demo_simps demo_s3_simps s3_meta_cap_def)
  have i: "s3_inv demo_s3"
    by (simp add: s3_inv_def demo_s3_simps hmap_ok_def s3_meta_cap_def main_count_def small_count_def)
  show ?thesis
    using s3fifo_sizes_exact [OF list_kernel_ok a i r] unfolding r [symmetric] by simp
qed

section \<open>The scan of the small list\<close>

definition small_promotes :: "s3fifo_state \<Rightarrow> folio \<Rightarrow> bool" where
  "small_promotes s f \<longleftrightarrow> evictable f \<and>
     (case get_folio_metadata s f of None \<Rightarrow> False | Some d \<Rightarrow> 1 < sint (freq d))"

definition small_takes :: "s3fifo_state \<Rightarrow> folio \<Rightarrow> bool" where
  "small_takes s f \<longleftrightarrow> evictable f \<and>
     (case get_folio_metadata s f of None \<Rightarrow> False | Some d \<Rightarrow> sint (freq d) \<le> 1)"

definition promote :: "folio \<Rightarrow> s3fifo_state \<Rightarrow> s3fifo_state" where
  "promote f s = set_folio_metadata f (\<lambda>d. d\<lparr>in_main := True\<rparr>) s"

lemma small_fn_promote:
  "bpf_s3fifo_score_small_fn k i f s =
     (if small_takes s f then EVICT_NODE else CONTINUE_ITER, if small_promotes s f then promote f s else s)"
  by (auto simp: small_fn_eq small_takes_def small_promotes_def promote_def split: option.splits)

lemma small_tests_promote [simp]:
  "small_takes (promote f s) h = small_takes s h"
  "small_promotes (promote f s) h = small_promotes s h"
  by (auto simp: small_takes_def small_promotes_def promote_def get_set_metadata split: option.splits)

lemma small_pass:
  fixes vs :: "('k \<times> s32 \<times> folio) list"
  shows "run_cb bpf_s3fifo_score_small_fn vs s =
    (filter (small_takes s) (map (snd \<circ> snd) vs),
     fold promote (filter (small_promotes s) (map (snd \<circ> snd) vs)) s)"
proof (induction vs arbitrary: s)
  case (Cons v vs)
  obtain k i f where v: "v = (k, i, f)" by (cases v) auto
  have e: "small_takes (promote f s) = small_takes s" "small_promotes (promote f s) = small_promotes s"
    by (simp_all add: fun_eq_iff)
  show ?case
    by (cases "small_promotes s f"; cases "small_takes s f")
      (simp_all add: v small_fn_promote [of k i f s] Cons.IH e)
qed simp

lemma small_never_stops: "\<not> may_stop bpf_s3fifo_score_small_fn"
  by (auto simp: may_stop_def small_fn_promote)

lemma fold_promote_sizes [simp]:
  "small_list_size (fold promote fs s) = small_list_size s" "main_list_size (fold promote fs s) = main_list_size s"
  by (induction fs arbitrary: s) (simp_all add: promote_def set_folio_metadata_def)

text \<open>
  C40: the scan of the small list runs over its nodes until the request is met, or to the end;
  it nominates exactly the evictable folios with frequency at most 1 that it passes and gives
  the main flag to the evictable ones above it; a folio it passes over for another reason
  (dirty, under writeback, not uptodate, untracked) keeps its metadata, yet the two sizes move
  by the number of all nodes the kernel reports as continued, unless the kernel's call fails.
\<close>

theorem s3fifo_small_scan:
  fixes K :: "('k, s3fifo_state) kfuncs"
  assumes "list_walk K V" and vs: "vs = V m (s3_small_list s) k"
    and call: "kf_list_iterate_extended K m (s3_small_list s) bpf_s3fifo_score_small_fn
      \<lparr>continue_list = s3_main_list s, continue_mode = ITERATE_TAIL, evict_list = ITERATE_SELF,
       evict_mode = ITERATE_TAIL, nr_folios_continue = 0, nr_folios_evict = 0\<rparr> c k s = (r, p, c1, k1, s1)"
    and run: "evict_small K c m k s = (c', k', s')"
  shows "\<exists>n. let fs = map node_folio (take n vs);
               t = fold promote (filter (small_promotes s) fs) s;
               moved = nr_folios_continue p
    in (length vs \<le> n \<or> r <s 0 \<or> request_met c')
      \<and> c' = nominate (filter (small_takes s) fs) c
      \<and> s' = (if r <s 0 then t
              else t\<lparr>small_list_size := (if small_list_size s <s 0 then 0 else small_list_size s - moved),
                     main_list_size := (if main_list_size s <s 0 then moved else main_list_size s + moved)\<rparr>)"
proof -
  obtain n where n: "c1 = nominate (fst (run_cb bpf_s3fifo_score_small_fn (take n vs) s)) c"
    "s1 = snd (run_cb bpf_s3fifo_score_small_fn (take n vs) s)" "length vs \<le> n \<or> r <s 0 \<or> request_met c1"
    using list_walk.iterate_extended [OF assms(1) call] small_never_stops vs by (auto simp: walks_def)
  have "c' = c1" "s' = (if r <s 0 then s1 else s1\<lparr>
      small_list_size := (if small_list_size s1 <s 0 then 0 else small_list_size s1 - nr_folios_continue p),
      main_list_size := (if main_list_size s1 <s 0 then nr_folios_continue p else main_list_size s1 + nr_folios_continue p)\<rparr>)"
    using run by (auto simp: evict_small_def call Let_def split: if_splits)
  then show ?thesis using n by (intro exI [of _ n]) (simp add: small_pass Let_def comp_def)
qed

text \<open>A small list with a dirty folio and one that is promoted: one flag is set, both are counted.\<close>

theorem s3fifo_small_scan_witness:
  "fst (evict_small list_kfuncs demo_ctx 0 demo_kernel (demo_s3\<lparr>s3_small_list := 1\<rparr>)) = demo_ctx
    \<and> main_list_size (snd (snd (evict_small list_kfuncs demo_ctx 0 demo_kernel (demo_s3\<lparr>s3_small_list := 1\<rparr>)))) = 3"
proof -
  let ?s = "demo_s3\<lparr>s3_small_list := 1\<rparr>"
  let ?o = "\<lparr>continue_list = s3_main_list ?s, continue_mode = ITERATE_TAIL, evict_list = ITERATE_SELF,
       evict_mode = ITERATE_TAIL, nr_folios_continue = 0, nr_folios_evict = 0\<rparr>"
  obtain c' k' s' where e: "evict_small list_kfuncs demo_ctx 0 demo_kernel ?s = (c', k', s')" by (metis prod_cases3)
  obtain r p c1 k1 s1 where call: "kf_list_iterate_extended list_kfuncs 0 (s3_small_list ?s) bpf_s3fifo_score_small_fn
      ?o demo_ctx demo_kernel ?s = (r, p, c1, k1, s1)" by (metis prod_cases5)
  then have "r = 0" "nr_folios_continue p = 2"
    by (auto simp: list_kernel_simps demo_simps demo_s3_simps small_fn_promote small_takes_def get_folio_metadata_def
        small_promotes_def)
  moreover have "filter (small_takes ?s) (map node_folio (take n (lk_nodes 0 1 demo_kernel))) = []" for n
    by (auto simp: filter_empty_conv lk_nodes_def lk_list_def demo_simps small_takes_def get_folio_metadata_def demo_s3_simps
        dest!: in_set_takeD)
  moreover have "s3_small_list ?s = 1" "main_list_size ?s = 1" by (simp_all add: demo_s3_simps)
  moreover have "nominate [] demo_ctx = demo_ctx" by (simp add: nominate_def)
  ultimately show ?thesis
    using s3fifo_small_scan [OF lk.list_walk_axioms refl call e] e by (auto simp: Let_def word_sless_alt)
qed

text \<open>
  The sizes drift when an add fails after the counter moved: if the list refuses the
  folio, the counter of the list it was meant for has grown by one, and the folio has no
  metadata to take it back on eviction.
\<close>

lemma s3fifo_failed_add_drifts:
  assumes "relevant s f" "fst (kf_list_add_tail K (s3_small_list s) f k) \<noteq> 0"
    and "\<not> fst (folio_in_ghost f s)"
  shows "small_list_size (snd (s3fifo_folio_added K f k s)) = small_list_size s + 1
    \<and> s3_meta (snd (s3fifo_folio_added K f k s)) = s3_meta s"
  using assms
  by (auto simp: s3fifo_folio_added_def folio_in_ghost_def split_def Let_def)

end
