(* ===== verification/Mglru.thy ===== *)
theory Mglru
  imports Dir_Watcher
begin

text \<open>
  The multi-generational LRU policy, \<open>policies/cache_ext_mglru.bpf.c\<close>: four generation
  lists between two sequence numbers, access tiers, refault statistics and the controller
  that picks the tier to protect. Shown: what the tier helpers and the controller compute,
  when aging runs, that the two sequence numbers stay two or three apart and the page counts
  sum to the tracked folios over every run, where a new folio goes, what eviction nominates,
  and that a refault is charged to the tier the folio was evicted from.

  The one-entry array map of the global metadata and the per-CPU array of the eviction
  metadata always have their entry; a hook stays on its CPU. The hooks run one at a
  time here, so the spin lock has no part; \<open>Mglru_Threads\<close> has it.
\<close>

record mglru_folio_metadata =
  mg_accesses :: s64
  mg_gen :: s64

record mglru_global_metadata =
  max_seq :: u64
  min_seq :: u64
  evicted :: "s64 list"
  refaulted :: "s64 list"
  tier_selected :: "s64 list"
  success_evicted :: s64
  failed_evicted :: s64
  avg_refaulted :: "u64 list"
  avg_total :: "u64 list"
  protected_pages :: "u64 list"
  nr_pages :: "s64 list"

record eviction_metadata =
  curr_gen :: u64
  next_gen :: u64
  iter_reached :: u64
  tier_threshold :: u64

record mglru_state = watch_state +
  mg_meta :: "(u64, mglru_folio_metadata) hmap"
  mg_ghost :: "(ghost_entry, u8) hmap"
  lrugen :: mglru_global_metadata
  mglru_lists :: "u64 list"
  mglru_percpu :: eviction_metadata

definition MAX_NR_FOLIOS :: nat where "MAX_NR_FOLIOS = 4000000"
definition MAX_NR_TIERS :: s32 where "MAX_NR_TIERS = 4"
definition MIN_NR_GENS :: u64 where "MIN_NR_GENS = 2"
definition MAX_NR_GENS :: u32 where "MAX_NR_GENS = 4"
definition NR_HIST_GENS :: nat where "NR_HIST_GENS = 1"
definition MIN_LRU_BATCH :: u64 where "MIN_LRU_BATCH = 64"

section \<open>Ghost entries\<close>

definition mg_ghost_key :: "folio \<Rightarrow> ghost_entry" where
  "mg_ghost_key f = \<lparr>ge_address_space = host_word f, ge_offset = index f\<rparr>"

definition insert_ghost_entry_for_folio :: "('k, mglru_state) kfuncs \<Rightarrow> 'k \<Rightarrow> folio \<Rightarrow> s32 \<Rightarrow>
    mglru_state \<Rightarrow> mglru_state" where
  "insert_ghost_entry_for_folio K k f tier s =
     s\<lparr>mg_ghost := snd (lru_update (kf_ghost_victims K k) (kf_ghost_err K k (mg_ghost_key f))
          (mg_ghost_key f) (ucast tier) (mg_ghost s))\<rparr>"

text \<open>
  The tier is read through the pointer after the entry was deleted; no other program runs in
  between here, so the slot still holds it.
\<close>

definition mg_folio_in_ghost :: "folio \<Rightarrow> mglru_state \<Rightarrow> s32 \<times> mglru_state" where
  "mg_folio_in_ghost f s =
     (case map_of (mg_ghost s) (mg_ghost_key f) of
        None \<Rightarrow> (- 1, s)
      | Some tier \<Rightarrow> (ucast tier, s\<lparr>mg_ghost := snd (hmap_delete (mg_ghost_key f) (mg_ghost s))\<rparr>))"

section \<open>Statistics\<close>

definition valid_tier :: "s32 \<Rightarrow> bool" where
  "valid_tier t \<longleftrightarrow> \<not> (t <s 0 \<or> MAX_NR_TIERS \<le>s t)"

definition valid_gen :: "u32 \<Rightarrow> bool" where
  "valid_gen g \<longleftrightarrow> \<not> (g < 0 \<or> MAX_NR_GENS \<le> g)"

definition add_at :: "nat \<Rightarrow> 'a::plus \<Rightarrow> 'a list \<Rightarrow> 'a list" where
  "add_at i d xs = xs[i := xs ! i + d]"

definition update_refaulted_stat :: "mglru_global_metadata \<Rightarrow> s32 \<Rightarrow> s64 \<Rightarrow> mglru_global_metadata" where
  "update_refaulted_stat lr tier delta =
     (if \<not> valid_tier tier then lr else lr\<lparr>refaulted := add_at (unat tier) delta (refaulted lr)\<rparr>)"

definition update_evicted_stat :: "mglru_global_metadata \<Rightarrow> s32 \<Rightarrow> s64 \<Rightarrow> mglru_global_metadata" where
  "update_evicted_stat lr tier delta =
     (if \<not> valid_tier tier then lr else lr\<lparr>evicted := add_at (unat tier) delta (evicted lr)\<rparr>)"

definition update_nr_pages_stat :: "mglru_global_metadata \<Rightarrow> u32 \<Rightarrow> s64 \<Rightarrow> mglru_global_metadata" where
  "update_nr_pages_stat lr gen delta =
     (if \<not> valid_gen gen then lr else lr\<lparr>nr_pages := add_at (unat gen) delta (nr_pages lr)\<rparr>)"

definition update_tier_selected_stat :: "mglru_global_metadata \<Rightarrow> s32 \<Rightarrow> s64 \<Rightarrow> mglru_global_metadata" where
  "update_tier_selected_stat lr tier delta =
     (if \<not> valid_tier tier then lr else lr\<lparr>tier_selected := add_at (unat tier) delta (tier_selected lr)\<rparr>)"

definition stat_max0 :: "s64 \<Rightarrow> s64" where
  "stat_max0 x = (if x <s 0 then 0 else x)"

definition read_refaulted_stat :: "mglru_global_metadata \<Rightarrow> s32 \<Rightarrow> s64" where
  "read_refaulted_stat lr tier = (if \<not> valid_tier tier then - 1 else stat_max0 (refaulted lr ! unat tier))"

definition read_evicted_stat :: "mglru_global_metadata \<Rightarrow> s32 \<Rightarrow> s64" where
  "read_evicted_stat lr tier = (if \<not> valid_tier tier then - 1 else stat_max0 (evicted lr ! unat tier))"

definition read_nr_pages_stat :: "mglru_global_metadata \<Rightarrow> u32 \<Rightarrow> s64" where
  "read_nr_pages_stat lr gen = (if \<not> valid_gen gen then - 1 else stat_max0 (nr_pages lr ! unat gen))"

text \<open>The one caller passes a tier above a threshold of at least 0, so the index is in range.\<close>

definition update_protected_stat :: "mglru_global_metadata \<Rightarrow> s32 \<Rightarrow> s64 \<Rightarrow> mglru_global_metadata" where
  "update_protected_stat lr tier delta =
     lr\<lparr>protected_pages := add_at (unat (tier - 1)) delta (protected_pages lr)\<rparr>"

section \<open>The controller\<close>

record ctrl_pos =
  cp_refaulted :: u64
  cp_total :: u64
  cp_gain :: s32

definition read_ctrl_pos :: "mglru_global_metadata \<Rightarrow> s32 \<Rightarrow> s32 \<Rightarrow> ctrl_pos" where
  "read_ctrl_pos lr tier gain =
     (let total = avg_total lr ! unat tier + evicted lr ! unat tier
      in \<lparr>cp_refaulted = avg_refaulted lr ! unat tier + refaulted lr ! unat tier,
          cp_total = (if tier \<noteq> 0 then total + protected_pages lr ! unat (tier - 1) else total),
          cp_gain = gain\<rparr>)"

definition reset_tier :: "bool \<Rightarrow> bool \<Rightarrow> nat \<Rightarrow> mglru_global_metadata \<Rightarrow> mglru_global_metadata" where
  "reset_tier carryover clear tier lr =
     (let lr1 = (if carryover then
            let lr' = lr\<lparr>avg_refaulted := (avg_refaulted lr)[tier :=
                   (avg_refaulted lr ! tier + refaulted lr ! tier) div 2]\<rparr>;
                sum = avg_total lr' ! tier + evicted lr' ! tier;
                sum = (if tier \<noteq> 0 then sum + protected_pages lr' ! (tier - 1) else sum)
            in lr'\<lparr>avg_total := (avg_total lr')[tier := sum div 2]\<rparr>
          else lr)
      in if clear then
           let lr2 = lr1\<lparr>refaulted := (refaulted lr1)[tier := 0], evicted := (evicted lr1)[tier := 0]\<rparr>
           in if tier \<noteq> 0 then lr2\<lparr>protected_pages := (protected_pages lr2)[tier - 1 := 0]\<rparr> else lr2
         else lr1)"

definition reset_ctrl_pos :: "mglru_global_metadata \<Rightarrow> bool \<Rightarrow> mglru_global_metadata" where
  "reset_ctrl_pos lr carryover =
     (let clear = (if carryover then NR_HIST_GENS = 1 else NR_HIST_GENS > 1)
      in if \<not> carryover \<and> \<not> clear then lr
         else fold (reset_tier carryover clear) [0, 1, 2, 3] lr)"

text \<open>All operands are unsigned long (the gains are converted), so the products wrap.\<close>

definition positive_ctrl_err :: "ctrl_pos \<Rightarrow> ctrl_pos \<Rightarrow> bool" where
  "positive_ctrl_err sp pv \<longleftrightarrow>
     cp_refaulted pv < MIN_LRU_BATCH \<or>
     cp_refaulted pv * (cp_total sp + MIN_LRU_BATCH) * scast (cp_gain sp)
       \<le> (cp_refaulted sp + 1) * cp_total pv * scast (cp_gain pv)"

text \<open>The loop from \<open>tier\<close> on, with the rounds left; the value of \<open>tier\<close> at its exit.\<close>

fun tier_loop :: "mglru_global_metadata \<Rightarrow> ctrl_pos \<Rightarrow> nat \<Rightarrow> s32 \<Rightarrow> s32" where
  "tier_loop lr sp 0 tier = tier"
| "tier_loop lr sp (Suc n) tier =
     (if \<not> positive_ctrl_err sp (read_ctrl_pos lr tier 2) then tier
      else tier_loop lr sp n (tier + 1))"

definition get_tier_idx :: "mglru_global_metadata \<Rightarrow> s32" where
  "get_tier_idx lr = tier_loop lr (read_ctrl_pos lr 0 1) 3 1 - 1"

section \<open>References and tiers\<close>

definition folio_inc_refs :: "folio \<Rightarrow> mglru_state \<Rightarrow> mglru_state" where
  "folio_inc_refs f s =
     (case map_of (mg_meta s) (folio_addr f) of
        None \<Rightarrow> s
      | Some d \<Rightarrow> s\<lparr>mg_meta := hmap_modify (folio_addr f) (\<lambda>d. d\<lparr>mg_accesses := mg_accesses d + 1\<rparr>) (mg_meta s)\<rparr>)"

definition folio_lru_refs :: "mglru_state \<Rightarrow> folio \<Rightarrow> s32" where
  "folio_lru_refs s f =
     (case map_of (mg_meta s) (folio_addr f) of None \<Rightarrow> - 1 | Some d \<Rightarrow> ucast (mg_accesses d))"

definition lru_gen_from_seq :: "u64 \<Rightarrow> u32" where
  "lru_gen_from_seq seq = ucast (seq mod ucast MAX_NR_GENS)"

definition folio_test_active :: "mglru_state \<Rightarrow> folio \<Rightarrow> bool" where
  "folio_test_active s f \<longleftrightarrow> 2 \<le>s folio_lru_refs s f"

definition order_base_2 :: "s32 \<Rightarrow> s32" where
  "order_base_2 n =
     (if n \<le>s 1 then 0 else if n \<le>s 3 then 1 else if n \<le>s 7 then 2 else if n \<le>s 8 then 3 else 3)"

definition lru_tier_from_refs :: "s32 \<Rightarrow> s32" where
  "lru_tier_from_refs refs = order_base_2 refs"

definition gen_within_limits :: "u32 \<Rightarrow> bool" where
  "gen_within_limits gen \<longleftrightarrow> 0 \<le> gen \<and> gen \<le> MAX_NR_GENS"

definition get_nr_gens :: "mglru_global_metadata \<Rightarrow> s32" where
  "get_nr_gens lr = ucast (max_seq lr - min_seq lr + 1)"

definition gen_almost_empty :: "mglru_global_metadata \<Rightarrow> s32 \<Rightarrow> bool" where
  "gen_almost_empty lr mn =
     (let oldest_gen = lru_gen_from_seq (scast mn);
          nr_folios = (ucast (read_nr_pages_stat lr oldest_gen) :: s32);
          threshold = 4
      in nr_folios \<le>s threshold)"

section \<open>Adding a folio\<close>

definition lru_gen_add_seq :: "mglru_state \<Rightarrow> folio \<Rightarrow> u64" where
  "lru_gen_add_seq s f =
     (let mn = min_seq (lrugen s); mx = max_seq (lrugen s)
      in if folio_test_active s f then mx
         else if folio_test_reclaim f \<and> (folio_test_dirty f \<or> folio_test_writeback f) then mx - 1
         else if mx \<le> mn + MIN_NR_GENS then mn
         else mn + 1)"

definition lru_gen_add_folio :: "('k, mglru_state) kfuncs \<Rightarrow> folio \<Rightarrow> 'k \<Rightarrow> mglru_state \<Rightarrow>
    bool \<times> 'k \<times> mglru_state" where
  "lru_gen_add_folio K f k s =
     (if folio_test_unevictable f then (False, k, s)
      else let gen = lru_gen_from_seq (lru_gen_add_seq s f) in
        if \<not> gen_within_limits gen then (False, k, s)
        else let (ret, m) = hmap_update MAX_NR_FOLIOS (kf_map_err K k (folio_addr f)) (folio_addr f)
                   \<lparr>mg_accesses = 1, mg_gen = ucast gen\<rparr> (mg_meta s);
                 s1 = s\<lparr>mg_meta := m\<rparr>
        in if ret \<noteq> 0 then (False, k, s1)
        else let s2 = s1\<lparr>lrugen := update_nr_pages_stat (lrugen s1) gen (folio_nr_pages f)\<rparr>;
                 (ret2, s3) = mg_folio_in_ghost f s2;
                 s4 = (if 0 \<le>s ret2 then s3\<lparr>lrugen := update_refaulted_stat (lrugen s3) ret2 1\<rparr> else s3);
                 (ret3, k1) = kf_list_add K (mglru_lists s4 ! unat gen) f k
        in if ret3 \<noteq> 0 then (False, k1, s4) else (True, k1, s4))"

section \<open>Aging\<close>

text \<open>The loop over the generations: \<open>young\<close>, \<open>old\<close> and the total after the rounds left from \<open>i\<close> on.\<close>

fun aging_sums :: "mglru_global_metadata \<Rightarrow> u64 \<Rightarrow> u64 \<Rightarrow> nat \<Rightarrow> u64 \<Rightarrow> u64 \<times> u64 \<times> u64 \<Rightarrow>
    u64 \<times> u64 \<times> u64" where
  "aging_sums lr mx mn 0 i acc = acc"
| "aging_sums lr mx mn (Suc n) i (young, old, tot) =
     (let seq = mn + i;
          gen = lru_gen_from_seq seq;
          size = stat_max0 (read_nr_pages_stat lr gen);
          tot' = tot + size
      in aging_sums lr mx mn n (i + 1)
           (if seq = mx then (young + size, old, tot')
            else if seq + MIN_NR_GENS = mx then (young, old + size, tot')
            else (young, old, tot')))"

definition should_run_aging :: "mglru_global_metadata \<Rightarrow> u64 \<Rightarrow> bool" where
  "should_run_aging lr mx =
     (let mn = min_seq lr
      in if mx < mn + MIN_NR_GENS then True
         else let max_iter = (if ucast MAX_NR_GENS < mx - mn then ucast MAX_NR_GENS else mx - mn);
                  (young, old, tot) = aging_sums lr mx mn (unat max_iter) 0 (0, 0, 0)
              in if mn + MIN_NR_GENS < mx then False
                 else if tot < young * MIN_NR_GENS then True
                 else if old * (MIN_NR_GENS + 2) < tot then True
                 else False)"

definition try_to_inc_min_seq :: "mglru_global_metadata \<Rightarrow> bool \<times> mglru_global_metadata" where
  "try_to_inc_min_seq lr =
     (if \<not> gen_almost_empty lr (ucast (min_seq lr)) then (False, lr)
      else (True, reset_ctrl_pos (lr\<lparr>min_seq := min_seq lr + 1\<rparr>) True))"

definition try_to_inc_max_seq :: "mglru_global_metadata \<Rightarrow> bool \<times> mglru_global_metadata" where
  "try_to_inc_max_seq lr =
     (let (ret, lr1) = (if get_nr_gens lr = scast MAX_NR_GENS then try_to_inc_min_seq lr else (True, lr))
      in if \<not> ret then (False, lr1)
         else let lr2 = reset_ctrl_pos lr1 False
              in (True, lr2\<lparr>max_seq := max_seq lr2 + 1\<rparr>))"

section \<open>The hooks\<close>

definition mglru_is_folio_relevant :: "'a watch_state_scheme \<Rightarrow> folio option \<Rightarrow> bool" where
  "mglru_is_folio_relevant s fo =
     (case fo of
        None \<Rightarrow> False
      | Some f \<Rightarrow> (case mapping f of
          None \<Rightarrow> False
        | Some m \<Rightarrow> (case host m of
            None \<Rightarrow> False
          | Some i \<Rightarrow> (let res = inode_in_watchlist s (i_ino i) in res))))"

fun mglru_init_lists :: "('k, mglru_state) kfuncs \<Rightarrow> u64 \<Rightarrow> nat list \<Rightarrow> 'k \<Rightarrow> mglru_state \<Rightarrow>
    s32 \<times> 'k \<times> mglru_state" where
  "mglru_init_lists K memcg [] k s = (0, k, s)"
| "mglru_init_lists K memcg (i # is) k s =
     (let (list_ptr, k1) = kf_new_list K memcg k
      in if list_ptr = 0 then (- 1, k1, s)
         else mglru_init_lists K memcg is k1 (s\<lparr>mglru_lists := (mglru_lists s)[i := list_ptr]\<rparr>))"

definition mglru_init :: "('k, mglru_state) kfuncs \<Rightarrow> u64 \<Rightarrow> 'k \<Rightarrow> mglru_state \<Rightarrow>
    s32 \<times> 'k \<times> mglru_state" where
  "mglru_init K memcg k s =
     mglru_init_lists K memcg [0, 1, 2, 3] k (s\<lparr>lrugen := (lrugen s)\<lparr>max_seq := MIN_NR_GENS + 1\<rparr>\<rparr>)"

text \<open>Both ways of keeping a folio move its pages to the next generation in the same way.\<close>

definition mglru_promote :: "folio \<Rightarrow> mglru_state \<Rightarrow> mglru_state" where
  "mglru_promote f s =
     (let ev = mglru_percpu s; num_pages = (ucast (folio_nr_pages f) :: s32);
          lr1 = update_nr_pages_stat (lrugen s) (ucast (curr_gen ev)) (scast (- num_pages));
          lr2 = update_nr_pages_stat lr1 (ucast (next_gen ev)) (scast num_pages)
      in s\<lparr>lrugen := lr2,
           mg_meta := hmap_modify (folio_addr f) (\<lambda>d. d\<lparr>mg_gen := next_gen ev\<rparr>) (mg_meta s)\<rparr>)"

definition mglru_iter_fn :: "'k \<Rightarrow> s32 \<Rightarrow> folio \<Rightarrow> mglru_state \<Rightarrow> cb_ret \<times> mglru_state" where
  "mglru_iter_fn k idx f s0 =
     (let s = s0\<lparr>mglru_percpu := (mglru_percpu s0)\<lparr>iter_reached := scast idx\<rparr>\<rparr>
      in case map_of (mg_meta s) (folio_addr f) of
        None \<Rightarrow> (EVICT_NODE, s)
      | Some meta \<Rightarrow>
          let threshold = (ucast (tier_threshold (mglru_percpu s)) :: s32);
              tier = lru_tier_from_refs (ucast (mg_accesses meta))
          in if threshold <s tier then
               (CONTINUE_ITER, mglru_promote f (s\<lparr>lrugen := update_protected_stat (lrugen s) tier (folio_nr_pages f)\<rparr>))
             else if folio_test_locked f \<or> folio_test_writeback f \<or> folio_test_dirty f then
               (CONTINUE_ITER, mglru_promote f s)
             else (EVICT_NODE, s))"

definition mglru_opts :: "u64 \<Rightarrow> iterate_opts" where
  "mglru_opts next_gen_list = \<lparr>continue_list = next_gen_list, continue_mode = ITERATE_TAIL,
     evict_list = ITERATE_SELF, evict_mode = ITERATE_TAIL, nr_folios_continue = 0, nr_folios_evict = 0\<rparr>"

text \<open>The part of an eviction under the lock: aging, then dropping an almost empty oldest generation.\<close>

definition mglru_advance :: "mglru_global_metadata \<Rightarrow> mglru_global_metadata" where
  "mglru_advance lr =
     (let mn = min_seq lr; mx = max_seq lr;
          lr1 = (if should_run_aging lr mx then snd (try_to_inc_max_seq lr) else lr)
      in if MIN_NR_GENS < mx - mn then snd (try_to_inc_min_seq lr1) else lr1)"

text \<open>
  The scan of the oldest generation, made once or twice: the \<open>max(0, request - nominated)\<close>
  that counts failures is unsigned, so it is the difference itself.
\<close>

definition mglru_scan_oldest :: "('k, mglru_state) kfuncs \<Rightarrow> evict_ctx \<Rightarrow> u64 \<Rightarrow> 'k \<Rightarrow> mglru_state \<Rightarrow>
    s32 \<times> evict_ctx \<times> 'k \<times> mglru_state" where
  "mglru_scan_oldest K ctx memcg k s =
     (let oldest_gen = lru_gen_from_seq (min_seq (lrugen s));
          next_gen = (oldest_gen + 1) mod MAX_NR_GENS;
          (ret, opts, ctx1, k1, s1) = kf_list_iterate_extended K memcg (mglru_lists s ! unat oldest_gen)
             mglru_iter_fn (mglru_opts (mglru_lists s ! unat next_gen)) ctx k s
      in (ret, ctx1, k1, s1))"

definition mglru_evict_folios :: "('k, mglru_state) kfuncs \<Rightarrow> evict_ctx \<Rightarrow> u64 \<Rightarrow> 'k \<Rightarrow> mglru_state \<Rightarrow>
    evict_ctx \<times> 'k \<times> mglru_state" where
  "mglru_evict_folios K ctx memcg k s =
     (let lr1 = mglru_advance (lrugen s);
          oldest_gen = lru_gen_from_seq (min_seq lr1);
          next_gen = (oldest_gen + 1) mod MAX_NR_GENS;
          threshold = get_tier_idx lr1;
          s1 = s\<lparr>lrugen := update_tier_selected_stat lr1 threshold 1,
                 mglru_percpu := \<lparr>curr_gen = scast oldest_gen, next_gen = ucast next_gen,
                   iter_reached = 0, tier_threshold = scast threshold\<rparr>\<rparr>
      in if \<not> valid_gen next_gen then (ctx, k, s1)
         else let (ret, ctx1, k1, s2) = mglru_scan_oldest K ctx memcg k s1
         in if ret <s 0 then (ctx1, k1, s2)
         else let (ret2, ctx2, k2, s3) =
                (if nr_folios_to_evict ctx1 < request_nr_folios_to_evict ctx1
                 then mglru_scan_oldest K ctx1 memcg k1 s2 else (0, ctx1, k1, s2))
         in if ret2 <s 0 then (ctx2, k2, s3)
         else (ctx2, k2, s3\<lparr>lrugen := (lrugen s3)\<lparr>
                 failed_evicted := failed_evicted (lrugen s3)
                   + (request_nr_folios_to_evict ctx2 - nr_folios_to_evict ctx2),
                 success_evicted := success_evicted (lrugen s3) + nr_folios_to_evict ctx2\<rparr>\<rparr>))"

definition mglru_folio_added :: "('k, mglru_state) kfuncs \<Rightarrow> folio \<Rightarrow> 'k \<Rightarrow> mglru_state \<Rightarrow>
    'k \<times> mglru_state" where
  "mglru_folio_added K f k s =
     (if \<not> mglru_is_folio_relevant s (Some f) then (k, s)
      else let (r, k1, s1) = lru_gen_add_folio K f k s in (k1, s1))"

definition mglru_folio_accessed :: "folio \<Rightarrow> 'k \<Rightarrow> mglru_state \<Rightarrow> 'k \<times> mglru_state" where
  "mglru_folio_accessed f k s =
     (if \<not> mglru_is_folio_relevant s (Some f) then (k, s) else (k, folio_inc_refs f s))"

definition mglru_folio_evicted :: "('k, mglru_state) kfuncs \<Rightarrow> folio \<Rightarrow> 'k \<Rightarrow> mglru_state \<Rightarrow>
    'k \<times> mglru_state" where
  "mglru_folio_evicted K f k s =
     (if \<not> mglru_is_folio_relevant s (Some f) then (k, s)
      else case map_of (mg_meta s) (folio_addr f) of
        None \<Rightarrow> (k, s)
      | Some metadata \<Rightarrow>
          let tier = lru_tier_from_refs (ucast (mg_accesses metadata));
              s1 = insert_ghost_entry_for_folio K k f tier s;
              lr = update_nr_pages_stat (update_evicted_stat (lrugen s1) tier 1)
                     (ucast (mg_gen metadata)) (- folio_nr_pages f)
          in (k, s1\<lparr>lrugen := lr, mg_meta := snd (hmap_delete (folio_addr f) (mg_meta s1))\<rparr>))"

definition mglru_ops :: "('k, mglru_state) kfuncs \<Rightarrow> ('k, mglru_state) cache_ext_ops" where
  "mglru_ops K = \<lparr>
     op_init = mglru_init K,
     op_evict_folios = mglru_evict_folios K,
     op_folio_added = mglru_folio_added K,
     op_folio_accessed = Some mglru_folio_accessed,
     op_folio_evicted = mglru_folio_evicted K\<rparr>"

lemma mglru_is_folio_relevant_eq [simp]:
  "mglru_is_folio_relevant s (Some f) = relevant s f"
  by (simp add: mglru_is_folio_relevant_def relevant_def folio_host_def split: option.splits)

section \<open>Tiers\<close>

lemma order_base_2_cases: "order_base_2 n \<in> {0, 1, 2, 3}"
  by (simp add: order_base_2_def)

lemma valid_tier_order [simp]: "valid_tier (order_base_2 n)"
  using order_base_2_cases [of n] by (auto simp: valid_tier_def MAX_NR_TIERS_def word_sless_alt word_sle_eq)

text \<open>
  The tier of a positive number of references is its binary logarithm rounded down, at
  most 3.
\<close>

lemma tier_is_log:
  assumes "1 \<le> sint refs"
  shows "unat (lru_tier_from_refs refs) \<le> 3
    \<and> 2 ^ unat (lru_tier_from_refs refs) \<le> sint refs
    \<and> (unat (lru_tier_from_refs refs) < 3 \<longrightarrow> sint refs < 2 ^ (unat (lru_tier_from_refs refs) + 1))"
  using assms by (simp add: lru_tier_from_refs_def order_base_2_def word_sle_eq)

abbreviation tier_ok :: "mglru_global_metadata \<Rightarrow> s32 \<Rightarrow> bool" where
  "tier_ok lr t \<equiv> positive_ctrl_err (read_ctrl_pos lr 0 1) (read_ctrl_pos lr t 2)"

lemma get_tier_idx_cases:
  "get_tier_idx lr =
     (if \<not> tier_ok lr 1 then 0 else if \<not> tier_ok lr 2 then 1 else if \<not> tier_ok lr 3 then 2 else 3)"
  by (simp add: get_tier_idx_def numeral_3_eq_3)

text \<open>
  The controller protects above the largest tier up to which every tier compares well with
  tier 0: its answer is between 0 and 3, each tier from 1 to it passes the test, and the next
  one, if there is one, fails it.
\<close>

lemma tier_idx_maximal:
  "\<exists>t. t \<le> 3 \<and> get_tier_idx lr = of_nat t
     \<and> (\<forall>i. 1 \<le> i \<and> i \<le> t \<longrightarrow> positive_ctrl_err (read_ctrl_pos lr 0 1) (read_ctrl_pos lr (of_nat i) 2))
     \<and> (t < 3 \<longrightarrow> \<not> positive_ctrl_err (read_ctrl_pos lr 0 1) (read_ctrl_pos lr (of_nat (t + 1)) 2))"
proof -
  let ?ok = "tier_ok lr"
  note e = get_tier_idx_cases [of lr]
  have i: "i = 1 \<or> i = 2 \<or> i = 3" if "1 \<le> i" "i \<le> 3" for i :: nat using that by auto
  consider "\<not> ?ok 1" | "?ok 1" "\<not> ?ok 2" | "?ok 1" "?ok 2" "\<not> ?ok 3" | "?ok 1" "?ok 2" "?ok 3" by blast
  then show ?thesis
  proof cases
    case 1
    then show ?thesis by (intro exI [of _ 0]) (simp add: e)
  next
    case 2
    then show ?thesis by (intro exI [of _ 1]) (auto simp: e dest: le_antisym)
  next
    case 3
    then show ?thesis by (intro exI [of _ 2]) (use i in \<open>force simp: e\<close>)
  next
    case 4
    then show ?thesis by (intro exI [of _ 3]) (use i in \<open>force simp: e\<close>)
  qed
qed

lemma tier_idx_range: "sint (get_tier_idx lr) \<in> {0..3}" "valid_tier (get_tier_idx lr)"
proof -
  have "get_tier_idx lr \<in> {0, 1, 2, 3}" by (simp add: get_tier_idx_def numeral_3_eq_3)
  then show "sint (get_tier_idx lr) \<in> {0..3}" "valid_tier (get_tier_idx lr)"
    by (auto simp: valid_tier_def MAX_NR_TIERS_def word_sless_alt word_sle_eq)
qed

section \<open>The statistics at a change of generation\<close>

definition lr_shape :: "mglru_global_metadata \<Rightarrow> bool" where
  "lr_shape lr \<longleftrightarrow> length (evicted lr) = 4 \<and> length (refaulted lr) = 4
     \<and> length (tier_selected lr) = 4 \<and> length (avg_refaulted lr) = 4 \<and> length (avg_total lr) = 4
     \<and> length (protected_pages lr) = 3 \<and> length (nr_pages lr) = 4"

lemma length4: "length xs = 4 \<Longrightarrow> \<exists>a b c d. xs = [a, b, c, d]"
  by (auto simp: eval_nat_numeral length_Suc_conv)

lemma length3: "length xs = 3 \<Longrightarrow> \<exists>a b c. xs = [a, b, c]"
  by (auto simp: eval_nat_numeral length_Suc_conv)

lemma reset_false [simp]: "reset_ctrl_pos lr False = lr"
  by (simp add: reset_ctrl_pos_def NR_HIST_GENS_def)

lemma reset_tier_carry:
  "reset_tier True True t lr = lr\<lparr>
     avg_refaulted := (avg_refaulted lr)[t := (avg_refaulted lr ! t + refaulted lr ! t) div 2],
     avg_total := (avg_total lr)[t := (avg_total lr ! t + evicted lr ! t
        + (if t = 0 then 0 else protected_pages lr ! (t - 1))) div 2],
     refaulted := (refaulted lr)[t := 0], evicted := (evicted lr)[t := 0],
     protected_pages := (if t = 0 then protected_pages lr else (protected_pages lr)[t - 1 := 0])\<rparr>"
  by (simp add: reset_tier_def Let_def)

text \<open>
  A carry-over halves, per tier, the sum of the running averages and the counts of the
  finished generation (for tiers above 0 with the protected pages), and clears those counts; a
  reset without carry-over changes nothing, since one generation of history is kept.
\<close>

lemma reset_carries_over:
  assumes "lr_shape lr"
  shows "reset_ctrl_pos lr True = lr\<lparr>
      avg_refaulted := map2 (\<lambda>a r. (a + r) div 2) (avg_refaulted lr) (refaulted lr),
      avg_total := map2 (\<lambda>a e. (a + e) div 2) (avg_total lr) (map2 (+) (evicted lr) (0 # protected_pages lr)),
      refaulted := [0, 0, 0, 0], evicted := [0, 0, 0, 0], protected_pages := [0, 0, 0]\<rparr>
    \<and> reset_ctrl_pos lr False = lr"
proof -
  obtain a0 a1 a2 a3 b0 b1 b2 b3 c0 c1 c2 c3 d0 d1 d2 d3 e1 e2 e3 where
    "evicted lr = [a0, a1, a2, a3]" "refaulted lr = [b0, b1, b2, b3]"
    "avg_refaulted lr = [c0, c1, c2, c3]" "avg_total lr = [d0, d1, d2, d3]" "protected_pages lr = [e1, e2, e3]"
    using assms by (auto simp: lr_shape_def dest!: length4 length3)
  moreover have "[0, 1, 2, 3] = [0, Suc 0, Suc (Suc 0), Suc (Suc (Suc 0))]" by simp
  ultimately show ?thesis
    unfolding reset_ctrl_pos_def
    by (cases lr) (simp add: reset_tier_carry NR_HIST_GENS_def add.assoc)
qed

section \<open>When aging runs\<close>

lemma gen_less: "unat (lru_gen_from_seq x) < 4" "valid_gen (lru_gen_from_seq x)"
proof -
  have "unat (lru_gen_from_seq x) = unat x mod 4"
    by (simp add: lru_gen_from_seq_def MAX_NR_GENS_def unsigned_ucast_eq unat_mod take_bit_nat_eq_self)
  then show "unat (lru_gen_from_seq x) < 4" "valid_gen (lru_gen_from_seq x)"
    by (simp_all add: valid_gen_def MAX_NR_GENS_def word_less_nat_alt word_le_nat_alt)
qed

definition gen_pages :: "mglru_global_metadata \<Rightarrow> u64 \<Rightarrow> u64" where
  "gen_pages lr seq = stat_max0 (nr_pages lr ! unat (lru_gen_from_seq seq))"

lemma read_gen [simp]: "read_nr_pages_stat lr (lru_gen_from_seq seq) = gen_pages lr seq"
  by (simp add: read_nr_pages_stat_def gen_less gen_pages_def)

lemma max0_gen [simp]: "stat_max0 (gen_pages lr seq) = gen_pages lr seq"
  by (auto simp: gen_pages_def stat_max0_def)

text \<open>
  While the sequence numbers are two apart, aging runs exactly when the oldest generation
  holds less than a quarter of the pages of the two oldest ones; while they are three apart
  it does not run. The count of young pages never matters: the loop stops before the youngest
  generation.
\<close>

lemma aging_condition:
  assumes "max_seq lr - min_seq lr \<in> {2, 3}" "min_seq lr < 2 ^ 63"
  shows "should_run_aging lr (max_seq lr) \<longleftrightarrow>
    max_seq lr - min_seq lr = 2 \<and>
    gen_pages lr (min_seq lr) * 4 < gen_pages lr (min_seq lr) + gen_pages lr (min_seq lr + 1)"
proof -
  have u: "unat (min_seq lr + 2) = unat (min_seq lr) + 2" "unat (min_seq lr + 3) = unat (min_seq lr) + 3"
    using assms(2) by (simp_all add: word_less_nat_alt unat_add_lem [THEN iffD1])
  consider "max_seq lr = min_seq lr + 2" | "max_seq lr = min_seq lr + 3"
    using assms(1) by (auto simp: algebra_simps)
  then show ?thesis
  proof cases
    case 1
    have two: "unat (2 :: u64) = Suc (Suc 0)" by simp
    have "aging_sums lr (min_seq lr + 2) (min_seq lr) (unat (2 :: u64)) 0 (0, 0, 0)
        = (0, gen_pages lr (min_seq lr), gen_pages lr (min_seq lr) + gen_pages lr (min_seq lr + 1))"
      unfolding two by (simp add: Let_def MIN_NR_GENS_def)
    then show ?thesis
      using 1 by (simp add: should_run_aging_def Let_def MIN_NR_GENS_def MAX_NR_GENS_def)
  next
    case 2
    then have "\<not> max_seq lr < min_seq lr + 2" "min_seq lr + 2 < max_seq lr"
      using u by (simp_all add: word_less_nat_alt)
    then show ?thesis
      using 2 by (simp add: should_run_aging_def MIN_NR_GENS_def split_def Let_def)
  qed
qed

definition demo_lr :: mglru_global_metadata where
  "demo_lr = \<lparr>max_seq = 2, min_seq = 0, evicted = [0, 0, 0, 0], refaulted = [0, 0, 0, 0],
     tier_selected = [0, 0, 0, 0], success_evicted = 0, failed_evicted = 0, avg_refaulted = [0, 0, 0, 0],
     avg_total = [0, 0, 0, 0], protected_pages = [0, 0, 0], nr_pages = [1, 0, 0, 0]\<rparr>"

section \<open>The invariant of the global metadata\<close>

lemma sum_list_add_at:
  fixes xs :: "u64 list"
  shows "i < length xs \<Longrightarrow> sum_list (add_at i d xs) = sum_list xs + d"
  unfolding add_at_def
proof (induction xs arbitrary: i)
  case (Cons x xs)
  then show ?case by (cases i) (simp_all add: ac_simps)
qed simp

lemma length_add_at [simp]: "length (add_at i d xs) = length xs"
  by (simp add: add_at_def)

text \<open>\<open>n\<close> is the number of tracked folios.\<close>

definition lr_ok :: "mglru_global_metadata \<Rightarrow> nat \<Rightarrow> bool" where
  "lr_ok lr n \<longleftrightarrow> lr_shape lr \<and> max_seq lr - min_seq lr \<in> {2, 3} \<and> sum_list (nr_pages lr) = of_nat n"

lemma valid_gen_less: "valid_gen g \<Longrightarrow> unat g < 4"
  by (simp add: valid_gen_def MAX_NR_GENS_def word_less_nat_alt word_le_nat_alt)

lemma lr_ok_stats [simp]:
  "lr_ok (update_refaulted_stat lr t d) n = lr_ok lr n"
  "lr_ok (update_evicted_stat lr t d) n = lr_ok lr n"
  "lr_ok (update_tier_selected_stat lr t d) n = lr_ok lr n"
  "lr_ok (update_protected_stat lr t d) n = lr_ok lr n"
  "lr_ok (lr\<lparr>failed_evicted := x\<rparr>) n = lr_ok lr n"
  "lr_ok (lr\<lparr>success_evicted := x\<rparr>) n = lr_ok lr n"
  by (simp_all add: lr_ok_def lr_shape_def update_refaulted_stat_def update_evicted_stat_def
      update_tier_selected_stat_def update_protected_stat_def)

lemma lr_ok_pages:
  assumes "lr_ok lr n" "valid_gen g" "of_nat n + d = of_nat m"
  shows "lr_ok (update_nr_pages_stat lr g d) m"
  using assms valid_gen_less [of g]
  by (simp add: lr_ok_def lr_shape_def update_nr_pages_stat_def sum_list_add_at)

lemma lr_ok_move:
  assumes "lr_ok lr n" "valid_gen g" "valid_gen h"
  shows "lr_ok (update_nr_pages_stat (update_nr_pages_stat lr g (- d)) h d) n"
proof -
  have "update_nr_pages_stat (update_nr_pages_stat lr g (- d)) h d =
      lr\<lparr>nr_pages := add_at (unat h) d (add_at (unat g) (- d) (nr_pages lr))\<rparr>"
    using assms(2,3) by (simp add: update_nr_pages_stat_def)
  then show ?thesis
    using assms valid_gen_less [of g] valid_gen_less [of h]
    by (simp add: lr_ok_def lr_shape_def sum_list_add_at)
qed

lemma reset_tier_frame [simp]:
  "max_seq (reset_tier a b t lr) = max_seq lr" "min_seq (reset_tier a b t lr) = min_seq lr"
  "nr_pages (reset_tier a b t lr) = nr_pages lr" "lr_shape (reset_tier a b t lr) = lr_shape lr"
  by (simp_all add: reset_tier_def lr_shape_def Let_def)

lemma reset_ctrl_pos_frame [simp]:
  "max_seq (reset_ctrl_pos lr b) = max_seq lr" "min_seq (reset_ctrl_pos lr b) = min_seq lr"
  "nr_pages (reset_ctrl_pos lr b) = nr_pages lr" "lr_shape (reset_ctrl_pos lr b) = lr_shape lr"
  by (simp_all add: reset_ctrl_pos_def Let_def)

lemma lr_shape_seq [simp]:
  "lr_shape (lr\<lparr>max_seq := a\<rparr>) = lr_shape lr" "lr_shape (lr\<lparr>min_seq := a\<rparr>) = lr_shape lr"
  by (simp_all add: lr_shape_def)

lemma inc_min_frame:
  "snd (try_to_inc_min_seq lr) = lr
   \<or> (max_seq (snd (try_to_inc_min_seq lr)) = max_seq lr
      \<and> min_seq (snd (try_to_inc_min_seq lr)) = min_seq lr + 1
      \<and> nr_pages (snd (try_to_inc_min_seq lr)) = nr_pages lr
      \<and> lr_shape (snd (try_to_inc_min_seq lr)) = lr_shape lr
      \<and> fst (try_to_inc_min_seq lr))"
  by (simp add: try_to_inc_min_seq_def)

lemma lr_ok_inc_min:
  assumes "lr_ok lr n" "max_seq lr - min_seq lr = 3"
  shows "lr_ok (snd (try_to_inc_min_seq lr)) n"
  using assms inc_min_frame [of lr] by (auto simp: lr_ok_def algebra_simps)

lemma inc_max_two:
  assumes "lr_ok lr n" "max_seq lr - min_seq lr = 2"
  shows "lr_ok (snd (try_to_inc_max_seq lr)) n
    \<and> max_seq (snd (try_to_inc_max_seq lr)) - min_seq (snd (try_to_inc_max_seq lr)) = 3"
proof -
  have "get_nr_gens lr = 3" using assms(2) by (simp add: get_nr_gens_def)
  then have "get_nr_gens lr \<noteq> scast MAX_NR_GENS" by (simp add: MAX_NR_GENS_def)
  then show ?thesis
    using assms by (auto simp: try_to_inc_max_seq_def lr_ok_def algebra_simps)
qed

lemma inc_max_three:
  assumes "lr_ok lr n" "max_seq lr - min_seq lr = 3"
  shows "lr_ok (snd (try_to_inc_max_seq lr)) n
    \<and> max_seq (snd (try_to_inc_max_seq lr)) - min_seq (snd (try_to_inc_max_seq lr)) = 3"
proof -
  have "get_nr_gens lr = 4" using assms(2) by (simp add: get_nr_gens_def)
  then have g: "get_nr_gens lr = scast MAX_NR_GENS" by (simp add: MAX_NR_GENS_def)
  obtain r lr1 where t: "try_to_inc_min_seq lr = (r, lr1)" by force
  have "\<not> r \<Longrightarrow> lr1 = lr" using t by (simp add: try_to_inc_min_seq_def split: if_splits)
  moreover have "r \<Longrightarrow> lr_shape lr1 = lr_shape lr \<and> nr_pages lr1 = nr_pages lr \<and> max_seq lr1 = max_seq lr
      \<and> min_seq lr1 = min_seq lr + 1"
    using t by (auto simp: try_to_inc_min_seq_def split: if_splits)
  ultimately show ?thesis
    using assms g t by (cases r) (auto simp: try_to_inc_max_seq_def lr_ok_def)
qed

lemma lr_ok_advance:
  assumes "lr_ok lr n"
  shows "lr_ok (mglru_advance lr) n"
proof -
  consider (two) "max_seq lr - min_seq lr = 2" | (three) "max_seq lr - min_seq lr = 3"
    using assms by (auto simp: lr_ok_def)
  then show ?thesis
  proof cases
    case two
    then show ?thesis
      using assms inc_max_two [OF assms two] by (simp add: mglru_advance_def MIN_NR_GENS_def Let_def)
  next
    case three
    let ?lr1 = "if should_run_aging lr (max_seq lr) then snd (try_to_inc_max_seq lr) else lr"
    have "lr_ok ?lr1 n" "max_seq ?lr1 - min_seq ?lr1 = 3"
      using assms three inc_max_three [OF assms three] by auto
    then show ?thesis
      using three lr_ok_inc_min [of ?lr1 n] by (simp add: mglru_advance_def MIN_NR_GENS_def Let_def)
  qed
qed

section \<open>The invariant of the policy\<close>

definition mglru_inv :: "mglru_state \<Rightarrow> bool" where
  "mglru_inv s \<longleftrightarrow> hmap_ok MAX_NR_FOLIOS (mg_meta s) \<and> lr_ok (lrugen s) (length (mg_meta s))
     \<and> (\<forall>x d. map_of (mg_meta s) x = Some d \<longrightarrow> valid_gen (ucast (mg_gen d)))
     \<and> valid_gen (ucast (curr_gen (mglru_percpu s))) \<and> valid_gen (ucast (next_gen (mglru_percpu s)))"

text \<open>The kernel reports a folio as added only while it is not tracked.\<close>

fun mglru_adm :: "('k, mglru_state) kfuncs \<Rightarrow> 'k \<Rightarrow> hook \<Rightarrow> mglru_state \<Rightarrow> bool" where
  "mglru_adm K k (Folio_Added f) s \<longleftrightarrow> map_of (mg_meta s) (folio_addr f) = None"
| "mglru_adm K k h s \<longleftrightarrow> True"

lemma mglru_inv_frame [simp]:
  "mglru_inv (s\<lparr>lrugen := update_refaulted_stat lr t d\<rparr>) = mglru_inv (s\<lparr>lrugen := lr\<rparr>)"
  "mglru_inv (s\<lparr>lrugen := update_protected_stat lr t d\<rparr>) = mglru_inv (s\<lparr>lrugen := lr\<rparr>)"
  "mglru_inv (s\<lparr>mg_ghost := g\<rparr>) = mglru_inv s"
  by (simp_all add: mglru_inv_def)

lemma mglru_inv_self [simp]: "mglru_inv (s\<lparr>lrugen := lrugen s\<rparr>) = mglru_inv s"
  by simp

lemma mglru_inv_promote:
  assumes "mglru_inv s"
  shows "mglru_inv (mglru_promote f s)"
proof -
  let ?ev = "mglru_percpu s"
  have n: "(scast (- (ucast (folio_nr_pages f) :: s32)) :: s64) = - 1"
    "(scast (ucast (folio_nr_pages f) :: s32) :: s64) = 1"
    by (simp_all add: folio_nr_pages_def)
  have "lr_ok (update_nr_pages_stat (update_nr_pages_stat (lrugen s) (ucast (curr_gen ?ev)) (- 1))
      (ucast (next_gen ?ev)) 1) (length (mg_meta s))"
    using assms by (intro lr_ok_move) (simp_all add: mglru_inv_def)
  then show ?thesis
    using assms by (auto simp: mglru_inv_def mglru_promote_def Let_def n bpf_map_simps split: if_splits)
qed

lemma mglru_inv_iter:
  assumes "mglru_inv s"
  shows "mglru_inv (snd (mglru_iter_fn k i f s))"
proof -
  let ?s = "s\<lparr>mglru_percpu := (mglru_percpu s)\<lparr>iter_reached := scast i\<rparr>\<rparr>"
  have "mglru_inv ?s" using assms by (simp add: mglru_inv_def)
  moreover from this have "mglru_inv (?s\<lparr>lrugen := update_protected_stat (lrugen ?s) t d\<rparr>)" for t d
    by (simp only: mglru_inv_frame mglru_inv_self)
  ultimately show ?thesis
    unfolding mglru_iter_fn_def Let_def
    by (auto simp del: mglru_inv_frame split: option.split intro: mglru_inv_promote)
qed

lemma ucast_up_down [simp]: "(ucast (ucast (x :: u32) :: u64) :: u32) = x"
  by (rule bit_word_eqI) (simp add: bit_simps)

lemma scast_up_down [simp]: "(ucast (scast (x :: u32) :: u64) :: u32) = x"
  by (rule bit_word_eqI) (simp add: bit_simps)

lemma mglru_inv_scan:
  fixes K :: "('k, mglru_state) kfuncs"
  assumes "kernel_ok K" "mglru_inv s"
  shows "mglru_inv (snd (snd (snd (mglru_scan_oldest K c m k s))))"
  using iterate_extended_inv [where P = mglru_inv and cb = mglru_iter_fn, OF assms(1) mglru_inv_iter assms(2)]
  by (simp add: mglru_scan_oldest_def Let_def split_def)

lemma mglru_inv_evict:
  fixes K :: "('k, mglru_state) kfuncs"
  assumes "kernel_ok K" "mglru_inv s"
  shows "mglru_inv (snd (snd (mglru_evict_folios K c m k s)))"
proof -
  let ?lr = "mglru_advance (lrugen s)"
  let ?g = "lru_gen_from_seq (min_seq ?lr)"
  let ?n = "(?g + 1) mod MAX_NR_GENS"
  let ?s1 = "s\<lparr>lrugen := update_tier_selected_stat ?lr (get_tier_idx ?lr) 1,
      mglru_percpu := \<lparr>curr_gen = scast ?g, next_gen = ucast ?n, iter_reached = 0,
        tier_threshold = scast (get_tier_idx ?lr)\<rparr>\<rparr>"
  have v: "valid_gen ?g" "valid_gen ?n"
    by (simp_all add: gen_less) (simp add: valid_gen_def MAX_NR_GENS_def word_le_nat_alt word_less_nat_alt unat_mod)
  have base: "mglru_inv ?s1"
    using assms(2) v lr_ok_advance [of "lrugen s" "length (mg_meta s)"] by (simp add: mglru_inv_def)
  obtain r c1 k1 s2 where first: "mglru_scan_oldest K c m k ?s1 = (r, c1, k1, s2)"
    using prod_cases4 by blast
  then have s2: "mglru_inv s2" using mglru_inv_scan [OF assms(1) base, of c m k] by simp
  obtain r2 c2 k2 s3 where second: "mglru_scan_oldest K c1 m k1 s2 = (r2, c2, k2, s3)"
    using prod_cases4 by blast
  then have s3: "mglru_inv s3" using mglru_inv_scan [OF assms(1) s2, of c1 m k1] by simp
  have stats: "mglru_inv (t\<lparr>lrugen := (lrugen t)\<lparr>failed_evicted := a, success_evicted := b\<rparr>\<rparr>) = mglru_inv t" for t a b
    by (simp add: mglru_inv_def)
  show ?thesis
    using base s2 s3 by (simp add: mglru_evict_folios_def Let_def first second stats)
qed

lemma mglru_inv_added:
  assumes "mglru_inv s" "map_of (mg_meta s) (folio_addr f) = None"
  shows "mglru_inv (snd (mglru_folio_added K f k s))"
proof -
  let ?gen = "lru_gen_from_seq (lru_gen_add_seq s f)"
  obtain r m where u: "hmap_update MAX_NR_FOLIOS (kf_map_err K k (folio_addr f)) (folio_addr f)
      \<lparr>mg_accesses = 1, mg_gen = ucast ?gen\<rparr> (mg_meta s) = (r, m)" by force
  have fail: "m = mg_meta s" if "r \<noteq> 0"
    using u that by (auto simp: hmap_update_def split: if_splits)
  have ok: "m = AList.update (folio_addr f) \<lparr>mg_accesses = 1, mg_gen = ucast ?gen\<rparr> (mg_meta s)
      \<and> length (mg_meta s) < MAX_NR_FOLIOS" if "r = 0"
    using u that assms(2) by (auto simp: hmap_update_def E2BIG_def split: if_splits)
  have inv2: "mglru_inv (s\<lparr>mg_meta := m, lrugen := update_nr_pages_stat (lrugen s) ?gen (folio_nr_pages f)\<rparr>)"
    if "r = 0"
    using assms ok [OF that] gen_less
      lr_ok_pages [of "lrugen s" "length (mg_meta s)" ?gen 1 "Suc (length (mg_meta s))"]
    by (auto simp: mglru_inv_def hmap_update_new_ok length_AList_update folio_nr_pages_def bpf_map_simps
        split: if_splits)
  have ghost: "mglru_inv (snd (mg_folio_in_ghost f t)) = mglru_inv t"
    "mglru_inv ((snd (mg_folio_in_ghost f t))\<lparr>lrugen := lr\<rparr>) = mglru_inv (t\<lparr>lrugen := lr\<rparr>)"
    "lrugen (snd (mg_folio_in_ghost f t)) = lrugen t" for t lr
    by (simp_all add: mg_folio_in_ghost_def mglru_inv_def split: option.split)
  show ?thesis
    using assms(1) fail inv2
    by (cases "r = 0")
      (auto simp: mglru_folio_added_def lru_gen_add_folio_def Let_def u split_def ghost)
qed

lemma mglru_inv_evicted:
  assumes "mglru_inv s"
  shows "mglru_inv (snd (mglru_folio_evicted K f k s))"
proof (cases "map_of (mg_meta s) (folio_addr f)")
  case None
  with assms show ?thesis by (simp add: mglru_folio_evicted_def)
next
  case (Some d)
  have d: "distinct (map fst (mg_meta s))" "valid_gen (ucast (mg_gen d))"
    using assms Some by (auto simp: mglru_inv_def hmap_ok_def)
  have len: "Suc (length (AList.delete (folio_addr f) (mg_meta s))) = length (mg_meta s)"
    using hmap_count_delete [OF d(1) Some, of "\<lambda>_. True"] by (simp add: hmap_count_True)
  have "hmap_ok MAX_NR_FOLIOS (AList.delete (folio_addr f) (mg_meta s))"
    using assms Some hmap_delete_ok [of MAX_NR_FOLIOS "mg_meta s" "folio_addr f"]
    by (simp add: mglru_inv_def hmap_delete_def)
  moreover have "lr_ok (update_nr_pages_stat (update_evicted_stat (lrugen s) t 1) (ucast (mg_gen d)) (- 1))
      (length (AList.delete (folio_addr f) (mg_meta s)))" for t
    using assms d(2) by (intro lr_ok_pages [where n = "length (mg_meta s)"])
      (simp_all add: mglru_inv_def flip: len)
  ultimately show ?thesis
    using assms Some
    by (auto simp: mglru_folio_evicted_def insert_ghost_entry_for_folio_def folio_nr_pages_def mglru_inv_def
        hmap_delete_def bpf_map_simps Let_def split: if_splits)
qed

lemma mglru_inv_accessed:
  assumes "mglru_inv s"
  shows "mglru_inv (snd (mglru_folio_accessed f k s))"
  using assms
  by (auto simp: mglru_folio_accessed_def folio_inc_refs_def mglru_inv_def bpf_map_simps split: option.splits if_splits)

interpretation mglru: policy mglru_ops mglru_adm mglru_inv
  by unfold_locales
    (auto simp: mglru_ops_def mglru_inv_added mglru_inv_accessed mglru_inv_evicted mglru_inv_evict)

text \<open>
  C1: over every run in which a folio is reported as added only while untracked, the two
  sequence numbers stay two or three apart, every tracked folio is in one of the four
  generations, and the page counts of the generations sum to the number of tracked folios,
  whatever calls to the kernel fail on the way.
\<close>

theorem mglru_generations:
  assumes "kernel_ok K" "admissible (mglru_adm K) (mglru_ops K) hs w" "mglru_inv (snd w)"
    and "s' = snd (run_hooks (mglru_ops K) hs w)"
  shows "max_seq (lrugen s') - min_seq (lrugen s') \<in> {2, 3}
    \<and> sum_list (nr_pages (lrugen s')) = of_nat (length (mg_meta s'))
    \<and> (\<forall>x d. map_of (mg_meta s') x = Some d \<longrightarrow> unat (ucast (mg_gen d) :: u32) < 4)"
  using mglru.run_inv [OF assms(1-3)] assms(4)
  by (auto simp: mglru_inv_def lr_ok_def dest: valid_gen_less)

definition demo_mglru :: mglru_state where
  "demo_mglru = watch_state.extend (demo_watch\<lparr>inode_watchlist := [(42, 1)]\<rparr>)
     (mglru_state.fields [(2, \<lparr>mg_accesses = 5, mg_gen = 0\<rparr>)] [] demo_lr [1, 2, 3, 4]
        \<lparr>curr_gen = 0, next_gen = 1, iter_reached = 0, tier_threshold = 0\<rparr>)"

lemmas demo_mglru_simps = demo_mglru_def watch_state.defs mglru_state.defs demo_watch_def
  relevant_def inode_in_watchlist_def inode_get_client_tag_def

lemma demo_mglru_inv: "mglru_inv demo_mglru"
  by (simp add: mglru_inv_def demo_mglru_simps hmap_ok_def MAX_NR_FOLIOS_def lr_ok_def lr_shape_def
      demo_lr_def valid_gen_def MAX_NR_GENS_def word_le_nat_alt)

theorem mglru_generations_witness:
  "sum_list (nr_pages (lrugen (snd (run_hooks (mglru_ops list_kfuncs)
     [Folio_Added (clean_folio 3), Evict_Folios demo_ctx 0, Folio_Evicted (clean_folio 2)] (demo_kernel, demo_mglru)))))
   = of_nat (length (mg_meta (snd (run_hooks (mglru_ops list_kfuncs)
     [Folio_Added (clean_folio 3), Evict_Folios demo_ctx 0, Folio_Evicted (clean_folio 2)] (demo_kernel, demo_mglru)))))"
proof -
  let ?hs = "[Folio_Added (clean_folio 3), Evict_Folios demo_ctx 0, Folio_Evicted (clean_folio 2)]"
  have "admissible (mglru_adm list_kfuncs) (mglru_ops list_kfuncs) ?hs (demo_kernel, demo_mglru)"
    by (simp add: demo_mglru_simps)
  then show ?thesis
    using mglru_generations [OF list_kernel_ok, of ?hs "(demo_kernel, demo_mglru)"] demo_mglru_inv
    by (simp del: run_hooks.simps)
qed

section \<open>What eviction nominates\<close>

text \<open>The tier of a tracked folio.\<close>

definition folio_tier :: "mglru_state \<Rightarrow> folio \<Rightarrow> s32 option" where
  "folio_tier s f = map_option (\<lambda>d. lru_tier_from_refs (ucast (mg_accesses d))) (map_of (mg_meta s) (folio_addr f))"

definition mglru_takes :: "s32 \<Rightarrow> s32 option \<Rightarrow> folio \<Rightarrow> bool" where
  "mglru_takes threshold tier f \<longleftrightarrow>
     (case tier of None \<Rightarrow> True
      | Some t \<Rightarrow> t \<le>s threshold \<and> \<not> folio_test_locked f \<and> \<not> folio_test_writeback f \<and> \<not> folio_test_dirty f)"

definition scan_view :: "mglru_state \<Rightarrow> (folio \<Rightarrow> s32 option) \<times> u64" where
  "scan_view s = (folio_tier s, tier_threshold (mglru_percpu s))"

lemma promote_view: "scan_view (mglru_promote f s) = scan_view s"
proof -
  have "folio_tier (mglru_promote f s) = folio_tier s"
    by (rule ext) (simp add: folio_tier_def mglru_promote_def Let_def bpf_map_simps option.map_comp o_def)
  then show ?thesis by (simp add: scan_view_def mglru_promote_def Let_def)
qed

lemma view_frame [simp]:
  "scan_view (s\<lparr>lrugen := lr\<rparr>) = scan_view s"
  "scan_view (s\<lparr>mglru_percpu := (mglru_percpu s)\<lparr>iter_reached := i\<rparr>\<rparr>) = scan_view s"
  by (simp_all add: scan_view_def folio_tier_def fun_eq_iff)

lemma iter_view: "scan_view (snd (mglru_iter_fn k i f s)) = scan_view s"
  by (simp add: mglru_iter_fn_def Let_def promote_view split: option.split)

lemma iter_takes:
  assumes "fst (mglru_iter_fn k i f s) = EVICT_NODE"
  shows "mglru_takes (ucast (snd (scan_view s))) (fst (scan_view s) f) f"
  using assms
  by (auto simp: mglru_iter_fn_def scan_view_def folio_tier_def mglru_takes_def Let_def word_sless_alt
      word_sle_eq not_less split: option.splits if_splits)

definition mglru_stretch :: "mglru_state \<Rightarrow> evict_ctx \<Rightarrow> mglru_state \<Rightarrow> evict_ctx \<Rightarrow> bool" where
  "mglru_stretch s c s' c' \<longleftrightarrow> scan_view s' = scan_view s
     \<and> (\<exists>es. c' = nominate es c
          \<and> (\<forall>f \<in> set es. mglru_takes (ucast (snd (scan_view s))) (fst (scan_view s) f) f))"

lemma mglru_scan_stretch:
  fixes K :: "('k, mglru_state) kfuncs"
  assumes "kernel_ok K" "mglru_scan_oldest K c m k s = (r, c', k', s')"
  shows "mglru_stretch s c s' c'"
proof -
  let ?g = "lru_gen_from_seq (min_seq (lrugen s))"
  let ?o = "mglru_opts (mglru_lists s ! unat ((?g + 1) mod MAX_NR_GENS))"
  obtain vs :: "('k \<times> s32 \<times> folio) list" and r1 p k1 where
    "kf_list_iterate_extended K m (mglru_lists s ! unat ?g) mglru_iter_fn ?o c k s =
       (r1, p, nominate (fst (run_cb mglru_iter_fn vs s)) c, k1, snd (run_cb mglru_iter_fn vs s))"
    using iterate_extended_result [OF assms(1), of m "mglru_lists s ! unat ?g" mglru_iter_fn ?o c k s] by blast
  then have v: "c' = nominate (fst (run_cb mglru_iter_fn vs s)) c" "s' = snd (run_cb mglru_iter_fn vs s)"
    using assms(2) by (simp_all add: mglru_scan_oldest_def Let_def)
  let ?P = "\<lambda>t. scan_view t = scan_view s"
  have "?P (snd (run_cb mglru_iter_fn vs s))"
    by (rule run_cb_inv [where P = ?P]) (simp_all add: iter_view)
  moreover have "\<forall>f \<in> set (fst (run_cb mglru_iter_fn vs s)).
      mglru_takes (ucast (snd (scan_view s))) (fst (scan_view s) f) f"
    by (rule run_cb_evicted [where P = ?P]) (auto simp: iter_view dest: iter_takes)
  ultimately show ?thesis by (auto simp: mglru_stretch_def v)
qed

lemma mglru_stretch_trans:
  assumes "mglru_stretch s c s' c'" "mglru_stretch s' c' s'' c''"
  shows "mglru_stretch s c s'' c''"
proof -
  obtain es es' where e: "c' = nominate es c" "c'' = nominate es' c'"
    "\<forall>f \<in> set (es @ es'). mglru_takes (ucast (snd (scan_view s))) (fst (scan_view s) f) f"
    using assms unfolding mglru_stretch_def by (metis Un_iff set_append)
  then have "c'' = nominate (es @ es') c" by (simp add: nominate_def add.assoc)
  with e assms show ?thesis unfolding mglru_stretch_def by metis
qed

lemma mglru_stretch_refl: "mglru_stretch s c s c"
  unfolding mglru_stretch_def by (intro conjI exI [of _ "[]"]) (simp_all add: nominate_def)

text \<open>
  C31: after any generations it advances, an eviction nominates only folios without metadata
  and folios whose tier is at most the one the controller picked and that are neither locked
  nor dirty nor under writeback.
\<close>

theorem mglru_evict_safe:
  fixes K :: "('k, mglru_state) kfuncs"
  assumes "kernel_ok K"
  shows "\<exists>es. fst (mglru_evict_folios K c m k s) = nominate es c
    \<and> (\<forall>f \<in> set es. mglru_takes (get_tier_idx (mglru_advance (lrugen s))) (folio_tier s f) f)"
proof -
  let ?lr = "mglru_advance (lrugen s)"
  let ?g = "lru_gen_from_seq (min_seq ?lr)"
  let ?n = "(?g + 1) mod MAX_NR_GENS"
  let ?s1 = "s\<lparr>lrugen := update_tier_selected_stat ?lr (get_tier_idx ?lr) 1,
      mglru_percpu := \<lparr>curr_gen = scast ?g, next_gen = ucast ?n, iter_reached = 0,
        tier_threshold = scast (get_tier_idx ?lr)\<rparr>\<rparr>"
  have view: "scan_view ?s1 = (folio_tier s, scast (get_tier_idx ?lr))"
    by (simp add: scan_view_def folio_tier_def fun_eq_iff)
  obtain r c1 k1 s2 where first: "mglru_scan_oldest K c m k ?s1 = (r, c1, k1, s2)"
    using prod_cases4 by blast
  obtain r2 c2 k2 s3 where second: "mglru_scan_oldest K c1 m k1 s2 = (r2, c2, k2, s3)"
    using prod_cases4 by blast
  have "mglru_stretch ?s1 c s2 c1" using mglru_scan_stretch [OF assms first] .
  moreover from this have "mglru_stretch ?s1 c s3 c2"
    using mglru_scan_stretch [OF assms second] by (rule mglru_stretch_trans)
  moreover have "fst (mglru_evict_folios K c m k s) \<in> {c, c1, c2}"
    by (simp add: mglru_evict_folios_def Let_def first second)
  ultimately have "\<exists>t. mglru_stretch ?s1 c t (fst (mglru_evict_folios K c m k s))"
    using mglru_stretch_refl [of ?s1 c] by (metis insertE singletonD)
  then show ?thesis by (auto simp: mglru_stretch_def view)
qed

theorem mglru_evict_safe_witness:
  "\<exists>es. fst (mglru_evict_folios list_kfuncs demo_ctx 0 demo_kernel demo_mglru) = nominate es demo_ctx
    \<and> (\<forall>f \<in> set es. mglru_takes (get_tier_idx (mglru_advance demo_lr)) (folio_tier demo_mglru f) f)"
  using mglru_evict_safe [OF list_kernel_ok, of demo_ctx 0 demo_kernel demo_mglru]
  by (simp add: demo_mglru_def watch_state.defs mglru_state.defs)

section \<open>Where a folio goes\<close>

text \<open>
  A folio not tracked before goes, while the sequence numbers are two apart, to the oldest
  generation and otherwise to the second oldest, unless it is a dirty page (or one under
  writeback) marked for reclaim, which goes to the second youngest: the branch for active
  folios is never taken for one.
\<close>

lemma mglru_add_generation:
  assumes "map_of (mg_meta s) (folio_addr f) = None" "\<not> folio_test_unevictable f"
    and "max_seq (lrugen s) - min_seq (lrugen s) \<in> {2, 3}" "min_seq (lrugen s) < 2 ^ 63"
    and "kf_map_err K k (folio_addr f) = 0" "length (mg_meta s) < MAX_NR_FOLIOS"
    and "seq = (if folio_test_reclaim f \<and> (folio_test_dirty f \<or> folio_test_writeback f) then max_seq (lrugen s) - 1
         else if max_seq (lrugen s) - min_seq (lrugen s) = 2 then min_seq (lrugen s) else min_seq (lrugen s) + 1)"
  shows "map_of (mg_meta (snd (snd (lru_gen_add_folio K f k s)))) (folio_addr f)
    = Some \<lparr>mg_accesses = 1, mg_gen = ucast (lru_gen_from_seq seq)\<rparr>"
proof -
  have u: "unat (min_seq (lrugen s) + 2) = unat (min_seq (lrugen s)) + 2"
    "unat (min_seq (lrugen s) + 3) = unat (min_seq (lrugen s)) + 3"
    using assms(4) by (simp_all add: word_less_nat_alt unat_add_lem [THEN iffD1])
  have two: "max_seq (lrugen s) \<le> min_seq (lrugen s) + 2 \<longleftrightarrow> max_seq (lrugen s) - min_seq (lrugen s) = 2"
  proof -
    consider "max_seq (lrugen s) = min_seq (lrugen s) + 2" | "max_seq (lrugen s) = min_seq (lrugen s) + 3"
      using assms(3) by (auto simp: algebra_simps)
    then show ?thesis using u by cases (simp_all add: word_le_nat_alt)
  qed
  have "\<not> folio_test_active s f"
    using assms(1) by (simp add: folio_test_active_def folio_lru_refs_def word_sle_eq)
  then have seq: "lru_gen_add_seq s f = seq"
    using assms(7) two by (auto simp: lru_gen_add_seq_def MIN_NR_GENS_def Let_def)
  have gen: "gen_within_limits (lru_gen_from_seq seq)"
    using gen_less(1) [of seq] by (simp add: gen_within_limits_def MAX_NR_GENS_def word_le_nat_alt)
  have ghost: "mg_meta (snd (mg_folio_in_ghost f t)) = mg_meta t" for t
    by (simp add: mg_folio_in_ghost_def split: option.split)
  show ?thesis
    using assms(1,2,5,6) seq gen
    by (simp add: lru_gen_add_folio_def hmap_update_new split_def Let_def ghost bpf_map_simps)
qed

section \<open>Refaults\<close>

text \<open>
  C33: a page evicted from tier \<open>t\<close>, its ghost entry stored, that faults in again while the
  entry lives adds one to the refault count of exactly that tier.
\<close>

theorem mglru_refault_tier:
  assumes "relevant s f" "map_of (mg_meta s) (folio_addr f) = Some d"
    and "kf_ghost_err K k (mg_ghost_key f) = 0"
    and "s1 = snd (mglru_folio_evicted K f k s)" "tier = lru_tier_from_refs (ucast (mg_accesses d))"
    and "relevant s1 g" "mg_ghost_key g = mg_ghost_key f" "\<not> folio_test_unevictable g"
    and "kf_map_err K k1 (folio_addr g) = 0" "map_of (mg_meta s1) (folio_addr g) = None"
    and "length (mg_meta s1) < MAX_NR_FOLIOS"
  shows "refaulted (lrugen (snd (mglru_folio_added K g k1 s1))) =
    add_at (unat tier) 1 (refaulted (lrugen s))"
proof -
  have tv: "tier \<in> {0, 1, 2, 3}" "valid_tier tier"
    using assms(5) order_base_2_cases by (simp_all add: lru_tier_from_refs_def)
  then have tier: "ucast (ucast tier :: u8) = tier" "0 \<le>s tier"
    by (auto simp: word_sle_eq)
  have s1: "mg_ghost s1 = snd (lru_update (kf_ghost_victims K k) 0 (mg_ghost_key f) (ucast tier) (mg_ghost s))"
    "refaulted (lrugen s1) = refaulted (lrugen s)"
    using assms(1-5)
    by (simp_all add: mglru_folio_evicted_def insert_ghost_entry_for_folio_def Let_def
        update_nr_pages_stat_def update_evicted_stat_def)
  then have ghost: "map_of (mg_ghost s1) (mg_ghost_key f) = Some (ucast tier)"
    using lru.store_hit [of "kf_ghost_victims K k" 0 "mg_ghost_key f" "ucast tier" "mg_ghost s"]
    by (simp add: lru_update_def)
  have gen: "gen_within_limits (lru_gen_from_seq seq)" for seq
    using gen_less(1) [of seq] by (simp add: gen_within_limits_def MAX_NR_GENS_def word_le_nat_alt)
  show ?thesis
    using assms(6-11) gen tv tier ghost s1(2)
    by (simp add: mglru_folio_added_def lru_gen_add_folio_def hmap_update_new mg_folio_in_ghost_def
        split_def Let_def update_refaulted_stat_def update_nr_pages_stat_def)
qed

theorem mglru_refault_tier_witness:
  "refaulted (lrugen (snd (mglru_folio_added list_kfuncs ((clean_folio 2)\<lparr>folio_addr := 9\<rparr>) demo_kernel
     (snd (mglru_folio_evicted list_kfuncs (clean_folio 2) demo_kernel demo_mglru))))) = [0, 0, 1, 0]"
proof -
  let ?g = "(clean_folio 2)\<lparr>folio_addr := 9\<rparr>"
  let ?s1 = "snd (mglru_folio_evicted list_kfuncs (clean_folio 2) demo_kernel demo_mglru)"
  have s1: "relevant ?s1 ?g" "mg_meta ?s1 = []"
    by (simp_all add: mglru_folio_evicted_def demo_mglru_simps insert_ghost_entry_for_folio_def
        hmap_delete_def Let_def folio_host_def clean_folio_def)
  show ?thesis
    using mglru_refault_tier [of demo_mglru "clean_folio 2" _ list_kfuncs demo_kernel ?s1 _ ?g demo_kernel,
        OF _ _ _ refl refl s1(1)] s1(2)
    by (simp add: demo_mglru_simps list_kfuncs_def mg_ghost_key_def host_word_def folio_host_def clean_folio_def
        folio_test_bits MAX_NR_FOLIOS_def lru_tier_from_refs_def order_base_2_def word_sle_eq add_at_def demo_lr_def)
qed

end
