(* ===== verification/Lhd.thy ===== *)
theory Lhd
  imports Dir_Watcher
begin

text \<open>
  The least-hit-density policy, \<open>policies/cache_ext_lhd.bpf.c\<close> with the constants of
  \<open>cache_ext_lhd.bpf.h\<close>: hits and evictions counted per class and age, hit densities
  recomputed by \<open>reconfigure\<close> every 2 to the 20 requests, and an age scale adapted to the
  number of objects. Shown: ages and class numbers stay inside their arrays; what the
  decay, the densities and the two rescalings compute; the range of the age scale; the
  bookkeeping of objects and requests over every run.

  An array is a function on indexes, written only below its length. BPF defines division by
  zero as 0, as HOL's words do. The while loop over ages and the one over scales run at most
  15 and 10 times, which is their fuel.
\<close>

definition HIT_AGE_CLASSES :: u32 where "HIT_AGE_CLASSES = 16"
definition NUM_CLASSES :: nat where "NUM_CLASSES = 256"
definition NUM_CLASSES_MASK :: u32 where "NUM_CLASSES_MASK = 255"
definition REQS_PER_RECONFIG :: u64 where "REQS_PER_RECONFIG = 1048576"
definition MAX_AGE :: nat where "MAX_AGE = 16384"
definition HIT_SCALING_FACTOR :: u64 where "HIT_SCALING_FACTOR = 1048576"
definition HIT_DENSITY_SCALING_FACTOR :: u64 where "HIT_DENSITY_SCALING_FACTOR = 1048576"
definition NUM_OBJECTS_SCALING_FACTOR :: u64 where "NUM_OBJECTS_SCALING_FACTOR = 1048576"
definition TOTAL_EVENTS_THRESH :: u64 where "TOTAL_EVENTS_THRESH = HIT_SCALING_FACTOR div 100000"
definition AGE_COARSENING_ERROR_TOLERANCE :: u64 where "AGE_COARSENING_ERROR_TOLERANCE = 100"
definition DEFAULT_APP_ID :: u32 where "DEFAULT_APP_ID = 1"
definition APP_CLASSES :: u32 where "APP_CLASSES = 16"
definition lhd_meta_cap :: nat where "lhd_meta_cap = 4000000"

record lhd_folio_metadata =
  last_access_time :: u64
  last_hit_age :: u64
  last_last_hit_age :: u64
  app :: u32

record lhd_class =
  total_hits :: u64
  total_evictions :: u64
  hits :: "nat \<Rightarrow> u64"
  evictions :: "nat \<Rightarrow> u64"
  hit_densities :: "nat \<Rightarrow> u64"

record lhd_state = watch_state +
  next_reconfiguration :: u64
  num_reconfigurations :: u32
  age_coarsening_shift :: u64
  ewma_num_objects :: u64
  ewma_num_objects_mass :: u64
  ewma_victim_hit_density :: u64
  lhd_timestamp :: u64
  overflows :: u64
  lhd_list :: u64
  num_objects :: u64
  classes :: "nat \<Rightarrow> lhd_class"
  lhd_meta :: "(u64, lhd_folio_metadata) hmap"
  lhd_events :: "u32 list"

definition ewma_decay :: "u64 \<Rightarrow> u64" where
  "ewma_decay val = (val * 9) div 10"

definition rem_ewma_decay :: "u64 \<Rightarrow> u64" where
  "rem_ewma_decay val = val div 10"

definition lhd_is_folio_relevant :: "'a watch_state_scheme \<Rightarrow> folio option \<Rightarrow> bool" where
  "lhd_is_folio_relevant s fo =
     (case fo of
        None \<Rightarrow> False
      | Some f \<Rightarrow> (case mapping f of
          None \<Rightarrow> False
        | Some m \<Rightarrow> (case host m of
            None \<Rightarrow> False
          | Some i \<Rightarrow> inode_in_watchlist s (i_ino i))))"

section \<open>Classes and ages\<close>

text \<open>The rounds left stand for the bound \<open>class < HIT_AGE_CLASSES - 1\<close> of the loop.\<close>

fun hit_age_loop :: "nat \<Rightarrow> u64 \<Rightarrow> u32 \<Rightarrow> u32" where
  "hit_age_loop 0 hit_age cls = cls"
| "hit_age_loop (Suc n) hit_age cls =
     (if hit_age < of_nat MAX_AGE then hit_age_loop n (push_bit 1 hit_age) (cls + 1) else cls)"

definition hit_age_to_class :: "u64 \<Rightarrow> u32" where
  "hit_age_to_class hit_age = (if hit_age = 0 then 0 else hit_age_loop 15 hit_age 0)"

definition get_class_id :: "lhd_folio_metadata \<Rightarrow> u32" where
  "get_class_id data =
     (let hit_age_id = hit_age_to_class (last_hit_age data + last_last_hit_age data)
      in app data * HIT_AGE_CLASSES + hit_age_id)"

text \<open>The index of the class in the array.\<close>

definition get_class :: "lhd_folio_metadata \<Rightarrow> nat" where
  "get_class data = unat (get_class_id data AND NUM_CLASSES_MASK)"

definition get_age :: "lhd_folio_metadata \<Rightarrow> lhd_state \<Rightarrow> u64 \<times> lhd_state" where
  "get_age data s =
     (let age = drop_bit (unat (age_coarsening_shift s)) (lhd_timestamp s - last_access_time data)
      in if of_nat MAX_AGE \<le> age then (of_nat MAX_AGE - 1, s\<lparr>overflows := overflows s + 1\<rparr>)
         else (age, s))"

definition get_hit_density :: "lhd_folio_metadata \<Rightarrow> lhd_state \<Rightarrow> u64 \<times> lhd_state" where
  "get_hit_density data s =
     (let (age, s1) = get_age data s
      in if age = of_nat MAX_AGE - 1 then (0, s1)
         else (hit_densities (classes s1 (get_class data)) (unat (age AND (of_nat MAX_AGE - 1))), s1))"

section \<open>Reconfiguration\<close>

text \<open>The loops of \<open>bpf_for\<close> are folds over their index ranges.\<close>

definition update_class_step :: "nat \<Rightarrow> lhd_class \<Rightarrow> lhd_class" where
  "update_class_step i c =
     (let c1 = c\<lparr>hits := (hits c)(i := ewma_decay (hits c i)),
                 evictions := (evictions c)(i := ewma_decay (evictions c i))\<rparr>
      in c1\<lparr>total_hits := total_hits c1 + hits c1 i,
            total_evictions := total_evictions c1 + evictions c1 i\<rparr>)"

definition update_class :: "lhd_class \<Rightarrow> lhd_class" where
  "update_class c = fold update_class_step [0..<MAX_AGE] (c\<lparr>total_hits := 0, total_evictions := 0\<rparr>)"

text \<open>The mask \<open>MAX_AGE_MASK\<close> on an index.\<close>

definition age_ix :: "nat \<Rightarrow> nat" where
  "age_ix i = i mod MAX_AGE"

definition stretch_class :: "nat \<Rightarrow> lhd_class \<Rightarrow> lhd_class" where
  "stretch_class d c =
     (let init_age = MAX_AGE div 2 ^ d;
          c1 = fold (\<lambda>j c. c\<lparr>hits := (hits c)(MAX_AGE - 1 := hits c (MAX_AGE - 1) + hits c j),
                            evictions := (evictions c)(MAX_AGE - 1 := evictions c j)\<rparr>)
                 [init_age..<MAX_AGE - 1] c
      in fold (\<lambda>j c. let index = MAX_AGE - j in
                 c\<lparr>hits := (hits c)(age_ix index := hits c (age_ix (j div 2 ^ d)) div 2 ^ d),
                   evictions := (evictions c)(age_ix index := evictions c (age_ix (j div 2 ^ d)) div 2 ^ d)\<rparr>)
           [2..<MAX_AGE + 1] c1)"

definition stretch_distribution :: "s32 \<Rightarrow> (nat \<Rightarrow> lhd_class) \<Rightarrow> (nat \<Rightarrow> lhd_class)" where
  "stretch_distribution delta cs = (\<lambda>i. if i < NUM_CLASSES then stretch_class (unat (- delta)) (cs i) else cs i)"

definition compress_slot :: "nat \<Rightarrow> nat \<Rightarrow> lhd_class \<Rightarrow> lhd_class" where
  "compress_slot d j c =
     (let c1 = c\<lparr>hits := (hits c)(age_ix j := hits c (age_ix (j * 2 ^ d))),
                 evictions := (evictions c)(age_ix j := evictions c (age_ix (j * 2 ^ d)))\<rparr>
      in fold (\<lambda>k c. c\<lparr>hits := (hits c)(age_ix j := hits c (age_ix j) + hits c (age_ix (j * 2 ^ d + k))),
                      evictions := (evictions c)(age_ix j := evictions c (age_ix j) + evictions c (age_ix (j * 2 ^ d + k)))\<rparr>)
           [1..<2 ^ d] c1)"

definition compress_class :: "nat \<Rightarrow> lhd_class \<Rightarrow> lhd_class" where
  "compress_class d c =
     (let c1 = fold (compress_slot d) [0..<MAX_AGE div 2 ^ d] c
      in fold (\<lambda>j c. c\<lparr>hits := (hits c)(age_ix j := 0), evictions := (evictions c)(age_ix j := 0)\<rparr>)
           [MAX_AGE div 2 ^ d..<MAX_AGE - 1] c1)"

definition compress_distribution :: "s32 \<Rightarrow> (nat \<Rightarrow> lhd_class) \<Rightarrow> (nat \<Rightarrow> lhd_class)" where
  "compress_distribution delta cs = (\<lambda>i. if i < NUM_CLASSES then compress_class (unat delta) (cs i) else cs i)"

text \<open>
  The bound \<open>(1 << log2) * NUM_OBJECTS_SCALING_FACTOR\<close> is computed in 32 signed bits and
  converted to 64 unsigned ones for the comparison.
\<close>

definition coarsening_bound :: "u32 \<Rightarrow> u64" where
  "coarsening_bound l = scast ((push_bit (unat l) 1 :: s32) * ucast NUM_OBJECTS_SCALING_FACTOR)"

fun coarsening_loop :: "nat \<Rightarrow> u64 \<Rightarrow> u32 \<Rightarrow> u32" where
  "coarsening_loop 0 optimal l = l"
| "coarsening_loop (Suc n) optimal l =
     (if coarsening_bound l < optimal then coarsening_loop n optimal (l + 1) else l)"

definition adapt_age_coarsening :: "lhd_state \<Rightarrow> lhd_state" where
  "adapt_age_coarsening s =
     (let num = ewma_decay (ewma_num_objects s) + num_objects s * NUM_OBJECTS_SCALING_FACTOR;
          mass = ewma_decay (ewma_num_objects_mass s) + 1;
          s1 = s\<lparr>ewma_num_objects := num, ewma_num_objects_mass := mass\<rparr>;
          num_objects_coarsening = num div mass;
          optimal_age_coarsening =
            num_objects_coarsening * AGE_COARSENING_ERROR_TOLERANCE div of_nat MAX_AGE
      in if num_reconfigurations s1 = 5 \<or> num_reconfigurations s1 = 25 then
           let log2 = coarsening_loop 10 optimal_age_coarsening 1;
               delta = (ucast (ucast log2 - age_coarsening_shift s1) :: s32);
               s2 = s1\<lparr>age_coarsening_shift := ucast log2, ewma_num_objects := num * 8,
                       ewma_num_objects_mass := mass * 8\<rparr>
           in if delta <s 0 then s2\<lparr>classes := stretch_distribution delta (classes s2)\<rparr>
              else if 0 <s delta then s2\<lparr>classes := compress_distribution delta (classes s2)\<rparr>
              else s2
         else s1)"

text \<open>One round of the inner loop, with the running sums.\<close>

definition density_step :: "nat \<Rightarrow> u64 \<times> u64 \<times> u64 \<times> lhd_class \<Rightarrow> u64 \<times> u64 \<times> u64 \<times> lhd_class" where
  "density_step j st =
     (let (th, te, lu, c) = st; index = age_ix (MAX_AGE - j);
          th = th + hits c index;
          te = te + evictions c index;
          lu = lu + te
      in (th, te, lu, c\<lparr>hit_densities := (hit_densities c)(index :=
            if TOTAL_EVENTS_THRESH < te then th * HIT_DENSITY_SCALING_FACTOR div lu else 0)\<rparr>))"

definition model_class :: "lhd_class \<Rightarrow> lhd_class" where
  "model_class c =
     (let th = hits c (MAX_AGE - 1); te = th + evictions c (MAX_AGE - 1)
      in snd (snd (snd (fold density_step [2..<MAX_AGE + 1] (th, te, te, c)))))"

definition model_hit_density :: "(nat \<Rightarrow> lhd_class) \<Rightarrow> (nat \<Rightarrow> lhd_class)" where
  "model_hit_density cs = (\<lambda>i. if i < NUM_CLASSES then model_class (cs i) else cs i)"

definition reconfigure :: "lhd_state \<Rightarrow> s32 \<times> lhd_state" where
  "reconfigure s =
     (let s1 = s\<lparr>classes := (\<lambda>i. if i < NUM_CLASSES then update_class (classes s i) else classes s i)\<rparr>;
          s2 = adapt_age_coarsening s1;
          s3 = s2\<lparr>classes := model_hit_density (classes s2)\<rparr>
      in (0, s3\<lparr>overflows := 0\<rparr>))"

section \<open>The hooks\<close>

definition init_class :: "nat \<Rightarrow> lhd_class \<Rightarrow> lhd_class" where
  "init_class i c = c\<lparr>hit_densities := (\<lambda>j. if j < MAX_AGE
     then ucast ((1 * ucast HIT_DENSITY_SCALING_FACTOR * (of_nat i + 1)) div (of_nat j + 1) :: u32)
     else hit_densities c j)\<rparr>"

definition lhd_init :: "('k, lhd_state) kfuncs \<Rightarrow> u64 \<Rightarrow> 'k \<Rightarrow> lhd_state \<Rightarrow> s32 \<times> 'k \<times> lhd_state" where
  "lhd_init K memcg k s =
     (let (l, k1) = kf_new_list K memcg k; s1 = s\<lparr>lhd_list := l\<rparr>
      in if l = 0 then (- 1, k1, s1)
         else (0, k1, s1\<lparr>classes := (\<lambda>i. if i < NUM_CLASSES then init_class i (classes s1 i) else classes s1 i)\<rparr>))"

definition bpf_lhd_score_fn :: "'k \<Rightarrow> folio \<Rightarrow> lhd_state \<Rightarrow> s64 \<times> lhd_state" where
  "bpf_lhd_score_fn k f s =
     (if \<not> folio_test_uptodate f \<or> \<not> folio_test_lru f then (INT64_MAX, s)
      else if folio_test_dirty f \<or> folio_test_writeback f then (INT64_MAX, s)
      else case map_of (lhd_meta s) (folio_addr f) of
        None \<Rightarrow> (INT64_MAX, s)
      | Some data \<Rightarrow> get_hit_density data s)"

definition lhd_evict_folios :: "('k, lhd_state) kfuncs \<Rightarrow> evict_ctx \<Rightarrow> u64 \<Rightarrow> 'k \<Rightarrow> lhd_state \<Rightarrow>
    evict_ctx \<times> 'k \<times> lhd_state" where
  "lhd_evict_folios K ctx memcg k s =
     (let (r, ctx1, k1, s1) = kf_list_sample K memcg (lhd_list s) bpf_lhd_score_fn
            \<lparr>sample_size = 16, select_size = 0\<rparr> ctx k s
      in (ctx1, k1, s1))"

text \<open>
  The end both counting hooks share: one request fewer until the next reconfiguration, and
  an event with its number in the ring buffer when none is left.
\<close>

definition count_request :: "('k, lhd_state) kfuncs \<Rightarrow> 'k \<Rightarrow> lhd_state \<Rightarrow> lhd_state" where
  "count_request K k s =
     (let s1 = s\<lparr>next_reconfiguration := next_reconfiguration s - 1\<rparr>
      in if next_reconfiguration s1 = 0 then
           let s2 = s1\<lparr>next_reconfiguration := REQS_PER_RECONFIG,
                       num_reconfigurations := num_reconfigurations s1 + 1\<rparr>
           in if kf_ringbuf_output K k = 0 then s2\<lparr>lhd_events := lhd_events s2 @ [num_reconfigurations s2]\<rparr> else s2
         else s1)"

definition class_hit :: "nat \<Rightarrow> nat \<Rightarrow> lhd_state \<Rightarrow> lhd_state" where
  "class_hit i age s = s\<lparr>classes := (classes s)(i := (classes s i)\<lparr>hits :=
     (hits (classes s i))(age := hits (classes s i) age + HIT_SCALING_FACTOR)\<rparr>)\<rparr>"

definition class_eviction :: "nat \<Rightarrow> nat \<Rightarrow> lhd_state \<Rightarrow> lhd_state" where
  "class_eviction i age s = s\<lparr>classes := (classes s)(i := (classes s i)\<lparr>evictions :=
     (evictions (classes s i))(age := evictions (classes s i) age + HIT_SCALING_FACTOR)\<rparr>)\<rparr>"

definition lhd_folio_accessed :: "('k, lhd_state) kfuncs \<Rightarrow> folio \<Rightarrow> 'k \<Rightarrow> lhd_state \<Rightarrow> 'k \<times> lhd_state" where
  "lhd_folio_accessed K f k s =
     (if \<not> lhd_is_folio_relevant s (Some f) then (k, s)
      else case map_of (lhd_meta s) (folio_addr f) of
        None \<Rightarrow> (k, s)
      | Some data \<Rightarrow>
          let (age, s1) = get_age data s;
              cls = get_class data;
              s2 = s1\<lparr>lhd_meta := hmap_modify (folio_addr f) (\<lambda>d. d\<lparr>last_last_hit_age := last_hit_age d,
                     last_hit_age := age, last_access_time := lhd_timestamp s1\<rparr>) (lhd_meta s1)\<rparr>;
              s3 = class_hit cls (unat age) s2;
              s4 = s3\<lparr>lhd_timestamp := lhd_timestamp s3 + 1\<rparr>
          in (k, count_request K k s4))"

definition lhd_folio_evicted :: "folio \<Rightarrow> 'k \<Rightarrow> lhd_state \<Rightarrow> 'k \<times> lhd_state" where
  "lhd_folio_evicted f k s =
     (case map_of (lhd_meta s) (folio_addr f) of
        None \<Rightarrow> (k, s)
      | Some data \<Rightarrow>
          let (age, s1) = get_age data s;
              cls = get_class data;
              s2 = class_eviction cls (unat age) s1;
              s3 = s2\<lparr>num_objects := num_objects s2 - 1\<rparr>;
              hit_density = hit_densities (classes s3 cls) (unat age);
              s4 = s3\<lparr>ewma_victim_hit_density :=
                     ewma_decay (ewma_victim_hit_density s3) + rem_ewma_decay hit_density\<rparr>
          in (k, s4\<lparr>lhd_meta := snd (hmap_delete (folio_addr f) (lhd_meta s4))\<rparr>))"

definition lhd_folio_added :: "('k, lhd_state) kfuncs \<Rightarrow> folio \<Rightarrow> 'k \<Rightarrow> lhd_state \<Rightarrow> 'k \<times> lhd_state" where
  "lhd_folio_added K f k s =
     (if \<not> lhd_is_folio_relevant s (Some f) then (k, s)
      else let (ret, k1) = kf_list_add_tail K (lhd_list s) f k
        in if ret \<noteq> 0 then (k1, s)
        else let (ret2, m) = hmap_update lhd_meta_cap (kf_map_err K k1 (folio_addr f)) (folio_addr f)
                   \<lparr>last_access_time = lhd_timestamp s, last_hit_age = 0,
                    last_last_hit_age = of_nat MAX_AGE, app = DEFAULT_APP_ID mod APP_CLASSES\<rparr> (lhd_meta s);
                 s1 = s\<lparr>lhd_meta := m\<rparr>
        in if ret2 \<noteq> 0 then (snd (kf_list_del K f k1), s1)
        else let s2 = s1\<lparr>lhd_timestamp := lhd_timestamp s1 + 1\<rparr>;
                 s3 = s2\<lparr>num_objects := num_objects s2 + 1\<rparr>
             in (k1, count_request K k1 s3))"

definition lhd_ops :: "('k, lhd_state) kfuncs \<Rightarrow> ('k, lhd_state) cache_ext_ops" where
  "lhd_ops K = \<lparr>
     op_init = lhd_init K,
     op_evict_folios = lhd_evict_folios K,
     op_folio_added = lhd_folio_added K,
     op_folio_accessed = Some (lhd_folio_accessed K),
     op_folio_evicted = lhd_folio_evicted\<rparr>"

lemma lhd_is_folio_relevant_eq [simp]:
  "lhd_is_folio_relevant s (Some f) = relevant s f"
  by (simp add: lhd_is_folio_relevant_def relevant_def folio_host_def split: option.splits)

section \<open>Bounds\<close>

lemma age_bound: "unat (fst (get_age data s)) < MAX_AGE"
  by (simp add: get_age_def Let_def MAX_AGE_def word_le_nat_alt)

lemma hit_age_loop_bound:
  "unat cls + n \<le> 15 \<Longrightarrow> unat (hit_age_loop n a cls) \<le> unat cls + n"
proof (induction n arbitrary: a cls)
  case (Suc n)
  then have "unat (cls + 1) = unat cls + 1" by (simp add: unat_word_ariths)
  with Suc.IH [of "cls + 1" "push_bit 1 a"] Suc.prems show ?case by simp
qed simp

text \<open>The while loop: the class counts the doublings that take the age to \<open>MAX_AGE\<close>.\<close>

lemma hit_age_loop_spec:
  assumes "unat a = x * 2 ^ unat cls" "0 < x" "unat cls + n = 15" "unat a < 2 * MAX_AGE"
  shows "MAX_AGE \<le> x * 2 ^ unat (hit_age_loop n a cls)
    \<and> (0 < unat (hit_age_loop n a cls) \<longrightarrow> unat (hit_age_loop n a cls) = unat cls
        \<or> x * 2 ^ (unat (hit_age_loop n a cls) - 1) < MAX_AGE)"
  using assms
proof (induction n arbitrary: a cls)
  case 0
  have "(2 :: nat) ^ 15 \<le> x * 2 ^ 15" using 0(2) by simp
  then show ?case using 0 by (simp add: MAX_AGE_def)
next
  case (Suc n)
  show ?case
  proof (cases "unat a < MAX_AGE")
    case False
    then have "\<not> a < of_nat MAX_AGE" by (simp add: word_less_nat_alt MAX_AGE_def)
    with False Suc.prems show ?thesis by simp
  next
    case True
    have c: "unat (cls + 1) = unat cls + 1" using Suc.prems by (simp add: unat_word_ariths)
    have "unat (push_bit 1 a) = 2 * unat a"
      using True by (simp add: push_bit_eq_mult unat_mult_lem [THEN iffD1] MAX_AGE_def mult.commute)
    then have "unat (push_bit 1 a) = x * 2 ^ unat (cls + 1)" "unat (push_bit 1 a) < 2 * MAX_AGE"
      using Suc.prems True by (simp_all add: c)
    then have IH: "MAX_AGE \<le> x * 2 ^ unat (hit_age_loop n (push_bit 1 a) (cls + 1))
        \<and> (0 < unat (hit_age_loop n (push_bit 1 a) (cls + 1)) \<longrightarrow>
            unat (hit_age_loop n (push_bit 1 a) (cls + 1)) = unat (cls + 1)
          \<or> x * 2 ^ (unat (hit_age_loop n (push_bit 1 a) (cls + 1)) - 1) < MAX_AGE)"
      using Suc.prems c by (intro Suc.IH) simp_all
    have "a < of_nat MAX_AGE" using True by (simp add: word_less_nat_alt MAX_AGE_def)
    then show ?thesis using IH True Suc.prems c by auto
  qed
qed

text \<open>
  The class of a positive age below \<open>MAX_AGE\<close> is the least number of doublings that take
  it to \<open>MAX_AGE\<close>, between 1 and 14; an age of 0 or one past the end is in class 0.
\<close>

lemma hit_age_class_log:
  assumes "0 < unat a" "unat a < MAX_AGE"
  shows "MAX_AGE \<le> unat a * 2 ^ unat (hit_age_to_class a)
    \<and> unat a * 2 ^ (unat (hit_age_to_class a) - 1) < MAX_AGE
    \<and> 1 \<le> unat (hit_age_to_class a) \<and> unat (hit_age_to_class a) \<le> 14"
proof -
  let ?c = "unat (hit_age_to_class a)"
  have c: "hit_age_to_class a = hit_age_loop 15 a 0" using assms(1) by (auto simp: hit_age_to_class_def)
  have spec: "MAX_AGE \<le> unat a * 2 ^ ?c
      \<and> (0 < ?c \<longrightarrow> ?c = 0 \<or> unat a * 2 ^ (?c - 1) < MAX_AGE)"
    using hit_age_loop_spec [of a "unat a" 0 15] assms by (simp add: c)
  then have pos: "0 < ?c" using assms(2) by (cases "?c = 0") auto
  with spec have less: "unat a * 2 ^ (?c - 1) < MAX_AGE" by simp
  have "(2 :: nat) ^ (?c - 1) \<le> unat a * 2 ^ (?c - 1)" using assms(1) by simp
  also note less
  finally have "(2 :: nat) ^ (?c - 1) < 2 ^ 14" by (simp add: MAX_AGE_def)
  then have "?c - 1 < 14" by (rule power_less_imp_less_exp [rotated]) simp
  with spec less pos show ?thesis by simp
qed

lemma hit_age_class_le: "unat (hit_age_to_class a) \<le> 15"
  using hit_age_loop_bound [of 0 15 a] by (simp add: hit_age_to_class_def)

text \<open>
  Whatever the metadata, the age and the class number computed from it are inside the
  arrays of counters they index.
\<close>

lemma lhd_indexes_in_range:
  "unat (fst (get_age data s)) < MAX_AGE \<and> get_class data < NUM_CLASSES"
proof -
  have "get_class_id data AND 255 \<le> 255" by (rule word_and_le1)
  then show ?thesis
    using age_bound [of data s]
    by (simp add: get_class_def NUM_CLASSES_MASK_def NUM_CLASSES_def word_le_nat_alt)
qed

text \<open>With the one application id in use, only 16 of the 256 classes are.\<close>

lemma default_app_class:
  assumes "app data = DEFAULT_APP_ID mod APP_CLASSES"
  shows "16 \<le> get_class data \<and> get_class data \<le> 31"
proof -
  let ?c = "hit_age_to_class (last_hit_age data + last_last_hit_age data)"
  have u: "unat (16 + ?c) = 16 + unat ?c"
    using hit_age_class_le by (simp add: unat_word_ariths le_less_trans [OF hit_age_class_le])
  have "(16 + ?c) AND 255 = take_bit 8 (16 + ?c)"
    by (simp add: take_bit_eq_mask mask_eq_exp_minus_1)
  then have m: "(16 + ?c) AND 255 = (16 + ?c) mod 256" by (simp add: take_bit_eq_mod)
  then show ?thesis
    using assms u m hit_age_class_le [of "last_hit_age data + last_last_hit_age data"]
    by (simp add: get_class_def get_class_id_def NUM_CLASSES_MASK_def HIT_AGE_CLASSES_def DEFAULT_APP_ID_def
        APP_CLASSES_def unat_mod Let_def)
qed

section \<open>Decay\<close>

lemma fold_update_class:
  "n \<le> MAX_AGE \<Longrightarrow> fold update_class_step [0..<n] (c\<lparr>total_hits := 0, total_evictions := 0\<rparr>) = c\<lparr>
     hits := (\<lambda>i. if i < n then ewma_decay (hits c i) else hits c i),
     evictions := (\<lambda>i. if i < n then ewma_decay (evictions c i) else evictions c i),
     total_hits := (\<Sum>i<n. ewma_decay (hits c i)),
     total_evictions := (\<Sum>i<n. ewma_decay (evictions c i))\<rparr>"
proof (induction n)
  case (Suc n)
  then show ?case
    by (simp add: update_class_step_def Let_def fun_upd_def less_Suc_eq fun_eq_iff add.commute)
qed simp

text \<open>
  Updating a class decays the hits and evictions of every age by a tenth, rounded down,
  and leaves in its totals the sums of the decayed counts.
\<close>

lemma update_class_decays:
  "update_class c = c\<lparr>
     hits := (\<lambda>i. if i < MAX_AGE then ewma_decay (hits c i) else hits c i),
     evictions := (\<lambda>i. if i < MAX_AGE then ewma_decay (evictions c i) else evictions c i),
     total_hits := (\<Sum>i<MAX_AGE. ewma_decay (hits c i)),
     total_evictions := (\<Sum>i<MAX_AGE. ewma_decay (evictions c i))\<rparr>"
  by (simp add: update_class_def fold_update_class)

section \<open>Compressing the age scale\<close>

text \<open>Both counters of a class go through the same loops, one array at a time.\<close>

lemma fold_both:
  "fold (\<lambda>j c. c\<lparr>hits := F j (hits c), evictions := G j (evictions c)\<rparr>) js c =
     c\<lparr>hits := fold F js (hits c), evictions := fold G js (evictions c)\<rparr>"
  by (induction js arbitrary: c) simp_all

definition compress_array_slot :: "nat \<Rightarrow> nat \<Rightarrow> (nat \<Rightarrow> u64) \<Rightarrow> (nat \<Rightarrow> u64)" where
  "compress_array_slot d j h =
     fold (\<lambda>k h. h(age_ix j := h (age_ix j) + h (age_ix (j * 2 ^ d + k)))) [1..<2 ^ d]
       (h(age_ix j := h (age_ix (j * 2 ^ d))))"

lemma compress_slot_arrays:
  "compress_slot d j c = c\<lparr>hits := compress_array_slot d j (hits c),
     evictions := compress_array_slot d j (evictions c)\<rparr>"
  unfolding compress_slot_def compress_array_slot_def Let_def
  by (subst fold_both [where F = "\<lambda>k h. h(age_ix j := h (age_ix j) + h (age_ix (j * 2 ^ d + k)))"
        and G = "\<lambda>k h. h(age_ix j := h (age_ix j) + h (age_ix (j * 2 ^ d + k)))"]) simp

definition group_sum :: "nat \<Rightarrow> (nat \<Rightarrow> u64) \<Rightarrow> nat \<Rightarrow> u64" where
  "group_sum d h j = (\<Sum>k<2 ^ d. h (j * 2 ^ d + k))"

lemma group_in_range:
  fixes j k d :: nat
  assumes "j < MAX_AGE div 2 ^ d" "k < 2 ^ d"
  shows "j * 2 ^ d + k < MAX_AGE"
proof -
  have "j * 2 ^ d + k < Suc j * 2 ^ d" using assms(2) by simp
  also have "\<dots> \<le> (MAX_AGE div 2 ^ d) * 2 ^ d" using assms(1) by (intro mult_le_mono1) simp
  also have "\<dots> \<le> MAX_AGE" by simp
  finally show ?thesis .
qed

lemma group_above:
  fixes j k d :: nat
  assumes "0 < k"
  shows "j * 2 ^ d + k \<noteq> j"
proof -
  have "j * 1 \<le> j * 2 ^ d" by (intro mult_le_mono2) simp
  with assms show ?thesis by linarith
qed

lemma compress_array_slot_eq:
  assumes "j < MAX_AGE div 2 ^ d"
  shows "compress_array_slot d j h = h(j := group_sum d h j)"
proof -
  let ?F = "\<lambda>k h. h(age_ix j := h (age_ix j) + h (age_ix (j * 2 ^ d + k)))"
  have jlt: "j < MAX_AGE" using assms by (meson div_le_dividend less_le_trans)
  have "fold ?F [1..<m] (h(j := h (j * 2 ^ d))) = h(j := (\<Sum>k<m. h (j * 2 ^ d + k)))"
    if "1 \<le> m" "m \<le> 2 ^ d" for m
    using that
  proof (induction m rule: dec_induct)
    case base
    then show ?case by simp
  next
    case (step m)
    then have r: "j * 2 ^ d + m < MAX_AGE" using group_in_range [OF assms, of m] by simp
    have ne: "j * 2 ^ d + m \<noteq> j" using step.hyps group_above [of m j d] by simp
    have "fold ?F [1..<Suc m] (h(j := h (j * 2 ^ d))) = ?F m (fold ?F [1..<m] (h(j := h (j * 2 ^ d))))"
      using step.hyps by simp
    also have "\<dots> = ?F m (h(j := (\<Sum>k<m. h (j * 2 ^ d + k))))"
      using step.prems by (simp only: step.IH Suc_leD)
    also have "\<dots> = h(j := (\<Sum>k<Suc m. h (j * 2 ^ d + k)))"
      using r jlt ne by (simp add: age_ix_def)
    finally show ?case .
  qed
  moreover have "age_ix j = j" "age_ix (j * 2 ^ d) = j * 2 ^ d"
    using jlt group_in_range [OF assms, of 0] by (simp_all add: age_ix_def)
  ultimately show ?thesis by (simp add: compress_array_slot_def group_sum_def)
qed

lemma compress_array:
  assumes "n \<le> MAX_AGE div 2 ^ d"
  shows "fold (compress_array_slot d) [0..<n] h = (\<lambda>i. if i < n then group_sum d h i else h i)"
  using assms
proof (induction n)
  case (Suc n)
  have "\<not> n * 2 ^ d + k < n" for k
  proof -
    have "n * 1 \<le> n * 2 ^ d" by (intro mult_le_mono2) simp
    then show ?thesis by linarith
  qed
  then have "group_sum d (\<lambda>i. if i < n then group_sum d h i else h i) n = group_sum d h n"
    by (simp add: group_sum_def [of d _ n])
  moreover have IH: "fold (compress_array_slot d) [0..<n] h = (\<lambda>i. if i < n then group_sum d h i else h i)"
    using Suc by simp
  ultimately show ?case
    using Suc.prems by (simp add: IH compress_array_slot_eq) (auto simp: fun_eq_iff less_Suc_eq)
qed simp

lemma clear_array:
  assumes "b \<le> MAX_AGE"
  shows "fold (\<lambda>j h. h(age_ix j := 0)) [a..<b] h = (\<lambda>i. if a \<le> i \<and> i < b then 0 else h i)"
  using assms
proof (induction b)
  case (Suc b)
  then show ?case
    by (cases "a \<le> b") (auto simp: age_ix_def fun_eq_iff less_Suc_eq)
qed simp

text \<open>
  C34: compressing by \<open>d\<close> puts into slot \<open>j\<close> the sum of the \<open>2 ^ d\<close> old slots it stands for,
  although the array is rewritten in place, and clears the slots behind, except that the
  last one keeps its count.
\<close>

theorem compress_class_sums:
  assumes "1 \<le> d"
  shows "compress_class d c = c\<lparr>
     hits := (\<lambda>i. if i < MAX_AGE div 2 ^ d then group_sum d (hits c) i
                  else if i < MAX_AGE - 1 then 0 else hits c i),
     evictions := (\<lambda>i. if i < MAX_AGE div 2 ^ d then group_sum d (evictions c) i
                       else if i < MAX_AGE - 1 then 0 else evictions c i)\<rparr>"
proof -
  have slots: "compress_slot d = (\<lambda>j c. c\<lparr>hits := compress_array_slot d j (hits c),
      evictions := compress_array_slot d j (evictions c)\<rparr>)"
    by (simp add: fun_eq_iff compress_slot_arrays)
  have clear: "fold (\<lambda>j h. h(age_ix j := 0)) [a..<MAX_AGE - 1] h
      = (\<lambda>i. if a \<le> i \<and> i < MAX_AGE - 1 then 0 else h i)" for a h
    by (rule clear_array) simp
  show ?thesis
    unfolding compress_class_def Let_def slots
    by (simp add: fold_both compress_array clear
        fold_both [where F = "\<lambda>j h. h(age_ix j := 0)" and G = "\<lambda>j h. h(age_ix j := 0)"]
        del: One_nat_def) (auto simp: fun_eq_iff)
qed

definition demo_class :: lhd_class where
  "demo_class = \<lparr>total_hits = 0, total_evictions = 0, hits = of_nat, evictions = (\<lambda>i. 0), hit_densities = (\<lambda>i. 7)\<rparr>"

theorem compress_class_sums_witness:
  "hits (compress_class 1 demo_class) 3 = 6 + 7"
  by (subst compress_class_sums) (simp_all add: demo_class_def group_sum_def MAX_AGE_def, simp add: numeral_2_eq_2)

section \<open>Stretching the age scale\<close>

text \<open>
  The intent is to spread slot \<open>i div 2 ^ d\<close> over the slots \<open>i\<close> it becomes. The loop indexes
  the slot read by its counter \<open>j\<close>, which runs from the top, instead of \<open>MAX_AGE - j\<close>.
\<close>

definition stretch_array_slot :: "nat \<Rightarrow> nat \<Rightarrow> (nat \<Rightarrow> u64) \<Rightarrow> (nat \<Rightarrow> u64)" where
  "stretch_array_slot d j h = h(age_ix (MAX_AGE - j) := h (age_ix (j div 2 ^ d)) div 2 ^ d)"

definition stretch_array :: "nat \<Rightarrow> (nat \<Rightarrow> u64) \<Rightarrow> (nat \<Rightarrow> u64)" where
  "stretch_array d h = fold (stretch_array_slot d) [2..<MAX_AGE + 1] h"

lemma stretch_array_frame:
  assumes "2 \<le> m" "m \<le> MAX_AGE + 1" "i + m \<le> MAX_AGE \<or> i = MAX_AGE - 1"
  shows "fold (stretch_array_slot d) [2..<m] h i = h i"
  using assms
proof (induction m rule: dec_induct)
  case (step m)
  then have "age_ix (MAX_AGE - m) \<noteq> i" by (auto simp: age_ix_def MAX_AGE_def)
  with step show ?case by (auto simp: stretch_array_slot_def)
qed simp

lemma stretch_array_top:
  assumes "m \<le> MAX_AGE + 1" "MAX_AGE < i + m" "2 \<le> m"
  shows "fold (stretch_array_slot d) [m..<MAX_AGE + 1] h i = h i"
proof -
  have keep: "fold (stretch_array_slot d) js h i = h i" if "\<forall>j \<in> set js. m \<le> j \<and> j \<le> MAX_AGE" for js h
    using that
  proof (induction js arbitrary: h)
    case (Cons j js)
    then have "age_ix (MAX_AGE - j) \<noteq> i" using assms by (auto simp: age_ix_def MAX_AGE_def)
    with Cons show ?case by (simp add: stretch_array_slot_def)
  qed simp
  show ?thesis by (rule keep) auto
qed

lemma stretch_array_mirrors:
  assumes "2 \<le> j" "j + j div 2 ^ d \<le> MAX_AGE" "1 \<le> d"
  shows "stretch_array d h (MAX_AGE - j) = h (j div 2 ^ d) div 2 ^ d"
proof -
  have r: "j \<le> MAX_AGE" "j div 2 ^ d + j \<le> MAX_AGE" using assms by linarith+
  have split: "[2..<MAX_AGE + 1] = [2..<j] @ j # [j + 1..<MAX_AGE + 1]"
    using assms(1) r(1) upt_add_eq_append [of 2 j "MAX_AGE + 1 - j"] by (simp add: upt_conv_Cons)
  have read: "fold (stretch_array_slot d) [2..<j] h (j div 2 ^ d) = h (j div 2 ^ d)"
    using assms(1) r by (intro stretch_array_frame) simp_all
  have "age_ix (MAX_AGE - j) = MAX_AGE - j" "age_ix (j div 2 ^ d) = j div 2 ^ d"
    using assms(1) r by (simp_all add: age_ix_def MAX_AGE_def)
  then have written: "fold (stretch_array_slot d) ([2..<j] @ [j]) h (MAX_AGE - j) = h (j div 2 ^ d) div 2 ^ d"
    by (simp add: stretch_array_slot_def [of d j] read)
  have "fold (stretch_array_slot d) [j + 1..<MAX_AGE + 1] g (MAX_AGE - j) = g (MAX_AGE - j)" for g
    using assms(1) r by (intro stretch_array_top) (simp_all add: MAX_AGE_def)
  moreover have "stretch_array d h = fold (stretch_array_slot d) [j + 1..<MAX_AGE + 1]
      (fold (stretch_array_slot d) ([2..<j] @ [j]) h)"
    by (simp only: stretch_array_def split fold_append fold.simps o_apply id_apply)
  ultimately show ?thesis using written by (simp only:)
qed

definition tail_sum :: "nat \<Rightarrow> (nat \<Rightarrow> u64) \<Rightarrow> u64" where
  "tail_sum a h = (\<Sum>j \<in> {a..<MAX_AGE - 1}. h j)"

definition gather_hit :: "nat \<Rightarrow> (nat \<Rightarrow> u64) \<Rightarrow> (nat \<Rightarrow> u64)" where
  "gather_hit j h = h(MAX_AGE - 1 := h (MAX_AGE - 1) + h j)"

definition gather_eviction :: "nat \<Rightarrow> (nat \<Rightarrow> u64) \<Rightarrow> (nat \<Rightarrow> u64)" where
  "gather_eviction j h = h(MAX_AGE - 1 := h j)"

lemma gather_hits:
  assumes "a \<le> b" "b \<le> MAX_AGE - 1"
  shows "fold gather_hit [a..<b] h = h(MAX_AGE - 1 := h (MAX_AGE - 1) + (\<Sum>j \<in> {a..<b}. h j))"
  using assms
proof (induction b rule: dec_induct)
  case (step n)
  then show ?case by (auto simp: gather_hit_def [of n] add.assoc fun_eq_iff)
qed simp

lemma gather_frame: "i \<noteq> MAX_AGE - 1 \<Longrightarrow> fold gather_eviction js h i = h i"
  by (induction js arbitrary: h) (simp_all add: gather_eviction_def)

lemma gather_evictions:
  assumes "a < MAX_AGE - 1"
  shows "fold gather_eviction [a..<MAX_AGE - 1] h = h(MAX_AGE - 1 := h (MAX_AGE - 2))"
proof -
  have "[a..<MAX_AGE - 1] = [a..<MAX_AGE - 2] @ [MAX_AGE - 2]"
    using assms upt_Suc_append [of a "MAX_AGE - 2"] by (simp add: MAX_AGE_def)
  moreover have "fold gather_eviction [a..<MAX_AGE - 2] h (MAX_AGE - 2) = h (MAX_AGE - 2)"
    by (rule gather_frame) (simp add: MAX_AGE_def)
  ultimately show ?thesis
    by (auto simp: gather_eviction_def [of "MAX_AGE - 2"] gather_frame fun_eq_iff)
qed

text \<open>
  Stretching by \<open>d\<close> fills the slots from the top in mirrored order: slot \<open>MAX_AGE - j\<close>
  gets the share of old slot \<open>j div 2 ^ d\<close> as long as that one has not been overwritten. The
  last slot collects the hits of the slots pushed past the end, but of the evictions it keeps
  only those of the slot before it.
\<close>

lemma stretch_class_mirrors:
  assumes "1 \<le> d" "2 \<le> j" "j + j div 2 ^ d \<le> MAX_AGE"
  shows "hits (stretch_class d c) (MAX_AGE - j) = hits c (j div 2 ^ d) div 2 ^ d
    \<and> evictions (stretch_class d c) (MAX_AGE - j) = evictions c (j div 2 ^ d) div 2 ^ d
    \<and> hits (stretch_class d c) (MAX_AGE - 1) =
        hits c (MAX_AGE - 1) + (\<Sum>i \<in> {MAX_AGE div 2 ^ d..<MAX_AGE - 1}. hits c i)
    \<and> evictions (stretch_class d c) (MAX_AGE - 1) = evictions c (MAX_AGE - 2)"
proof -
  have half: "MAX_AGE div 2 ^ d < MAX_AGE - 1"
  proof -
    have "MAX_AGE div 2 ^ d \<le> MAX_AGE div 2 ^ 1" using assms(1) by (intro div_le_mono2 power_increasing) simp_all
    then show ?thesis by (simp add: MAX_AGE_def)
  qed
  have eq: "stretch_class d c = c\<lparr>
      hits := stretch_array d (fold gather_hit [MAX_AGE div 2 ^ d..<MAX_AGE - 1] (hits c)),
      evictions := stretch_array d (fold gather_eviction [MAX_AGE div 2 ^ d..<MAX_AGE - 1] (evictions c))\<rparr>"
    unfolding stretch_class_def Let_def stretch_array_def
    by (simp add: fold_both [where F = gather_hit and G = gather_eviction, unfolded gather_hit_def gather_eviction_def]
        fold_both [where F = "stretch_array_slot d" and G = "stretch_array_slot d", unfolded stretch_array_slot_def]
        gather_hit_def [abs_def] gather_eviction_def [abs_def] stretch_array_slot_def [abs_def]
        del: One_nat_def)
  have src: "j div 2 ^ d \<noteq> MAX_AGE - 1"
    using assms(2,3) by (simp add: MAX_AGE_def)
  have top: "stretch_array d h (MAX_AGE - 1) = h (MAX_AGE - 1)" for h
    unfolding stretch_array_def by (rule stretch_array_frame) (simp_all add: MAX_AGE_def)
  show ?thesis
    using stretch_array_mirrors [OF assms(2,3,1)] top src half
    by (simp add: eq gather_hits gather_evictions del: One_nat_def)
qed

section \<open>Hit densities\<close>

text \<open>The sums over the ages from \<open>a\<close> to the last, as the loop accumulates them.\<close>

definition hits_from :: "lhd_class \<Rightarrow> nat \<Rightarrow> u64" where
  "hits_from c a = (\<Sum>i \<in> {a..<MAX_AGE}. hits c i)"

definition events_from :: "lhd_class \<Rightarrow> nat \<Rightarrow> u64" where
  "events_from c a = hits c (MAX_AGE - 1) + (\<Sum>i \<in> {a..<MAX_AGE}. evictions c i)"

definition lifetime_from :: "lhd_class \<Rightarrow> nat \<Rightarrow> u64" where
  "lifetime_from c a = (\<Sum>b \<in> {a..<MAX_AGE}. events_from c b)"

definition density_at :: "lhd_class \<Rightarrow> nat \<Rightarrow> u64" where
  "density_at c a = (if TOTAL_EVENTS_THRESH < events_from c a
     then hits_from c a * HIT_DENSITY_SCALING_FACTOR div lifetime_from c a else 0)"

lemma sum_from: "a < MAX_AGE \<Longrightarrow> (\<Sum>i \<in> {a..<MAX_AGE}. f i) = (\<Sum>i \<in> {Suc a..<MAX_AGE}. f i) + (f a :: u64)"
  by (simp add: sum.atLeast_Suc_lessThan add.commute)

lemma fold_density:
  assumes "1 \<le> m" "m \<le> MAX_AGE"
  shows "fold density_step [2..<m + 1] (hits c (MAX_AGE - 1), hits c (MAX_AGE - 1) + evictions c (MAX_AGE - 1),
        hits c (MAX_AGE - 1) + evictions c (MAX_AGE - 1), c)
    = (hits_from c (MAX_AGE - m), events_from c (MAX_AGE - m), lifetime_from c (MAX_AGE - m),
       c\<lparr>hit_densities := (\<lambda>i. if MAX_AGE - m \<le> i \<and> i < MAX_AGE - 1 then density_at c i else hit_densities c i)\<rparr>)"
  using assms
proof (induction m rule: dec_induct)
  case base
  have "{MAX_AGE - 1..<MAX_AGE} = {MAX_AGE - 1}" by (auto simp: MAX_AGE_def)
  moreover have "(\<lambda>i. if MAX_AGE - 1 \<le> i \<and> i < MAX_AGE - 1 then density_at c i else hit_densities c i) = hit_densities c"
    by (auto simp: fun_eq_iff)
  ultimately show ?case
    by (simp add: hits_from_def events_from_def lifetime_from_def)
next
  case (step m)
  let ?i = "MAX_AGE - Suc m"
  have i: "?i < MAX_AGE" "Suc ?i = MAX_AGE - m" "age_ix ?i = ?i" "?i < MAX_AGE - 1"
    using step by (simp_all add: age_ix_def)
  have upt: "[2..<Suc m + 1] = [2..<m + 1] @ [Suc m]" using step.hyps by simp
  have sums: "hits_from c ?i = hits_from c (MAX_AGE - m) + hits c ?i"
    "events_from c ?i = events_from c (MAX_AGE - m) + evictions c ?i"
    "lifetime_from c ?i = lifetime_from c (MAX_AGE - m) + events_from c ?i"
    using sum_from [OF i(1)] by (simp_all add: hits_from_def events_from_def [of c ?i]
        events_from_def [of c "MAX_AGE - m"] lifetime_from_def i(2) add.assoc)
  have dens: "(\<lambda>x. if x = ?i then density_at c ?i
        else if MAX_AGE - m \<le> x \<and> x < MAX_AGE - 1 then density_at c x else hit_densities c x)
      = (\<lambda>x. if ?i \<le> x \<and> x < MAX_AGE - 1 then density_at c x else hit_densities c x)"
    using i(2,4) by (auto simp: fun_eq_iff)
  let ?c = "c\<lparr>hit_densities := (\<lambda>i. if MAX_AGE - m \<le> i \<and> i < MAX_AGE - 1 then density_at c i else hit_densities c i)\<rparr>"
  have one: "density_step (Suc m) (hits_from c (MAX_AGE - m), events_from c (MAX_AGE - m), lifetime_from c (MAX_AGE - m), ?c)
      = (hits_from c ?i, events_from c ?i, lifetime_from c ?i,
         c\<lparr>hit_densities := (\<lambda>x. if ?i \<le> x \<and> x < MAX_AGE - 1 then density_at c x else hit_densities c x)\<rparr>)"
    unfolding dens [symmetric]
    by (simp add: density_step_def Let_def i(3) sums(3) density_at_def [of c ?i] fun_upd_def cong: if_cong)
      (simp add: sums cong: if_cong)
  show ?case
    unfolding upt using step by (simp only: fold_append fold.simps o_apply id_apply one Suc_leD)
qed

lemma model_class_eq:
  "model_class c = c\<lparr>hit_densities :=
     (\<lambda>i. if i < MAX_AGE - 1 then density_at c i else hit_densities c i)\<rparr>"
proof -
  have "1 \<le> MAX_AGE" by (simp add: MAX_AGE_def)
  from fold_density [OF this order_refl, of c] show ?thesis
    by (simp add: model_class_def Let_def del: upt_Suc)
qed

text \<open>
  Since hits before the last age are not counted as events, a class in which every object
  is hit and none evicted gets density 0 at every age, the density of a folio never used
  again.
\<close>

lemma pure_hits_density_zero:
  assumes "\<And>i. i < MAX_AGE \<Longrightarrow> evictions c i = 0" "hits c (MAX_AGE - 1) = 0" "i < MAX_AGE - 1"
  shows "hit_densities (model_class c) i = 0"
proof -
  have "events_from c i = 0" using assms by (simp add: events_from_def)
  then show ?thesis
    using assms(3) by (simp add: model_class_eq density_at_def)
qed

section \<open>The age scale\<close>

lemma coarsening_bounds:
  "coarsening_bound 1 = 2 ^ 21" "coarsening_bound 2 = 2 ^ 22" "coarsening_bound 3 = 2 ^ 23"
  "coarsening_bound 4 = 2 ^ 24" "coarsening_bound 5 = 2 ^ 25" "coarsening_bound 6 = 2 ^ 26"
  "coarsening_bound 7 = 2 ^ 27" "coarsening_bound 8 = 2 ^ 28" "coarsening_bound 9 = 2 ^ 29"
  "coarsening_bound 10 = 2 ^ 30" "coarsening_bound 11 = 2 ^ 64 - 2 ^ 31"
  by (simp_all add: coarsening_bound_def NUM_OBJECTS_SCALING_FACTOR_def)

lemma coarsening_bound_small:
  assumes "1 \<le> unat l" "unat l \<le> 10"
  shows "unat (coarsening_bound l) = 2 ^ (20 + unat l)"
proof -
  have "unat l \<in> set [1..<11]" using assms by simp
  then have "l \<in> of_nat ` set [1..<11]" by (intro rev_image_eqI [of "unat l"]) simp_all
  then have "l \<in> {1, 2, 3, 4, 5, 6, 7, 8, 9, 10}" by (simp add: upt_rec)
  then show ?thesis by (auto simp: coarsening_bounds)
qed

lemma coarsening_loop_spec:
  assumes "unat l + n = 11" "1 \<le> unat l" "unat optimal \<le> 2 ^ 50"
  shows "\<not> coarsening_bound (coarsening_loop n optimal l) < optimal
    \<and> unat l \<le> unat (coarsening_loop n optimal l) \<and> unat (coarsening_loop n optimal l) \<le> 11
    \<and> (\<forall>i \<in> {unat l..<unat (coarsening_loop n optimal l)}. 2 ^ (20 + i) < unat optimal)"
  using assms
proof (induction n arbitrary: l)
  case 0
  then have "l = 11" by (simp add: word_unat_eq_iff)
  then show ?case using 0(3) by (simp add: coarsening_bounds word_less_nat_alt)
next
  case (Suc n)
  have l1: "unat (l + 1) = unat l + 1" using Suc.prems(1) by (simp add: unat_word_ariths)
  show ?case
  proof (cases "coarsening_bound l < optimal")
    case True
    have "2 ^ (20 + unat l) < unat optimal"
      using True coarsening_bound_small [of l] Suc.prems(1,2) by (simp add: word_less_nat_alt)
    then have more: "\<forall>i \<in> {unat l..<m}. 2 ^ (20 + i) < unat optimal"
      if "\<forall>i \<in> {unat l + 1..<m}. 2 ^ (20 + i) < unat optimal" for m
      using that by (metis Suc_eq_plus1 atLeastLessThan_iff le_neq_implies_less less_eq_Suc_le)
    show ?thesis
      using True Suc.IH [of "l + 1"] Suc.prems l1 more [of "unat (coarsening_loop n optimal (l + 1))"] by simp
  qed (use Suc.prems in simp)
qed

text \<open>
  C35: for any optimum the formula can produce, the loop that picks the age scale ends within
  ten rounds with its guard false, at a scale between 1 and 11; below 11 it is the least
  scale that reaches the optimum, while 11 is where the 32-bit product turns negative and so
  compares above everything.
\<close>

theorem coarsening_scale:
  assumes "unat optimal \<le> 2 ^ 50"
  shows "\<not> coarsening_bound (coarsening_loop 10 optimal 1) < optimal
    \<and> 1 \<le> unat (coarsening_loop 10 optimal 1) \<and> unat (coarsening_loop 10 optimal 1) \<le> 11
    \<and> (\<forall>l \<in> {1..<unat (coarsening_loop 10 optimal 1)}. 2 ^ (20 + l) < unat optimal)"
  using coarsening_loop_spec [of 1 10 optimal] assms by simp

theorem coarsening_scale_witness:
  "unat (coarsening_loop 10 (2 ^ 40) 1) \<le> 11 \<and> 1 \<le> unat (coarsening_loop 10 3 1)"
  using coarsening_scale [of "2 ^ 40"] coarsening_scale [of 3] by simp

lemma optimal_bound:
  "unat ((x :: u64) div of_nat MAX_AGE) \<le> 2 ^ 50"
proof -
  have "unat x < 2 ^ 64" using unsigned_less [of x] by simp
  then have "unat x div 16384 \<le> 2 ^ 50" by (simp add: div_le_mono less_imp_le)
  then show ?thesis by (simp add: unat_div MAX_AGE_def)
qed

definition optimal_coarsening :: "lhd_state \<Rightarrow> u64" where
  "optimal_coarsening s =
     (ewma_decay (ewma_num_objects s) + num_objects s * NUM_OBJECTS_SCALING_FACTOR)
       div (ewma_decay (ewma_num_objects_mass s) + 1) * AGE_COARSENING_ERROR_TOLERANCE div of_nat MAX_AGE"

lemma adapt_shift:
  "age_coarsening_shift (adapt_age_coarsening s) =
     (if num_reconfigurations s = 5 \<or> num_reconfigurations s = 25
      then ucast (coarsening_loop 10 (optimal_coarsening s) 1) else age_coarsening_shift s)"
  by (simp add: adapt_age_coarsening_def optimal_coarsening_def Let_def)

text \<open>
  The shift of the age scale, 10 at the start, stays between 1 and 11 over every
  adaptation, so ages are always shifted by less than the width of the counter.
\<close>

lemma adapt_keeps_shift:
  assumes "1 \<le> unat (age_coarsening_shift s)" "unat (age_coarsening_shift s) \<le> 11"
  shows "1 \<le> unat (age_coarsening_shift (adapt_age_coarsening s))
    \<and> unat (age_coarsening_shift (adapt_age_coarsening s)) \<le> 11"
proof -
  have "1 \<le> unat (coarsening_loop 10 (optimal_coarsening s) 1)
      \<and> unat (coarsening_loop 10 (optimal_coarsening s) 1) \<le> 11"
    using coarsening_loop_spec [of 1 10 "optimal_coarsening s"] optimal_bound
    by (simp add: optimal_coarsening_def)
  then show ?thesis
    using assms by (simp add: adapt_shift unsigned_ucast_eq take_bit_nat_eq_self)
qed

definition demo_lhd :: lhd_state where
  "demo_lhd = watch_state.extend (demo_watch\<lparr>inode_watchlist := [(42, 1)]\<rparr>)
     (lhd_state.fields 1048575 0 10 0 0 0 1 0 1 1 (\<lambda>i. demo_class)
        [(2, \<lparr>last_access_time = 0, last_hit_age = 0, last_last_hit_age = 16384, app = 1\<rparr>)] [])"

lemmas demo_lhd_simps = demo_lhd_def watch_state.defs lhd_state.defs demo_watch_def
  relevant_def inode_in_watchlist_def inode_get_client_tag_def

lemma adapt_keeps_shift_demo:
  "unat (age_coarsening_shift (adapt_age_coarsening (demo_lhd\<lparr>num_reconfigurations := 5\<rparr>))) \<le> 11"
  using adapt_keeps_shift [of "demo_lhd\<lparr>num_reconfigurations := 5\<rparr>"] by (simp add: demo_lhd_simps)

text \<open>
  The mass of the moving average of the number of objects does not accumulate: it decays
  from 1 to 0 before 1 is added, so outside the two adaptations of the scale the sum is
  divided by 1 and the estimate is the sum of all decayed counts, not their mean.
\<close>

lemma ewma_mass_stuck:
  assumes "ewma_num_objects_mass s \<le> 1" "num_reconfigurations s \<notin> {5, 25}"
  shows "ewma_num_objects_mass (adapt_age_coarsening s) = 1
    \<and> ewma_num_objects (adapt_age_coarsening s) div ewma_num_objects_mass (adapt_age_coarsening s)
      = ewma_decay (ewma_num_objects s) + num_objects s * NUM_OBJECTS_SCALING_FACTOR"
proof -
  have "ewma_num_objects_mass s = 0 \<or> ewma_num_objects_mass s = 1"
    using assms(1) by (auto simp: word_le_nat_alt word_unat_eq_iff)
  then have "ewma_decay (ewma_num_objects_mass s) = 0" by (auto simp: ewma_decay_def)
  then show ?thesis using assms(2) by (simp add: adapt_age_coarsening_def Let_def)
qed

section \<open>Scores\<close>

lemma lhd_score_eq:
  "bpf_lhd_score_fn k f s =
     (case map_of (lhd_meta s) (folio_addr f) of
        Some data \<Rightarrow> if evictable f then get_hit_density data s else (INT64_MAX, s)
      | None \<Rightarrow> (INT64_MAX, s))"
  by (auto simp: bpf_lhd_score_fn_def evictable_tests split: option.splits)

text \<open>A score changes nothing but the counter of ages past the scale.\<close>

lemma score_frame:
  "\<exists>n. snd (bpf_lhd_score_fn k f s) = s\<lparr>overflows := n\<rparr>"
proof -
  have self: "\<exists>n. s = s\<lparr>overflows := n\<rparr>" by (rule exI [of _ "overflows s"]) simp
  show ?thesis
    using self by (auto simp: lhd_score_eq get_hit_density_def get_age_def Let_def split: option.split)
qed

lemma get_age_frame:
  "\<exists>n. snd (get_age data s) = s\<lparr>overflows := n\<rparr>"
proof -
  have self: "\<exists>n. s = s\<lparr>overflows := n\<rparr>" by (rule exI [of _ "overflows s"]) simp
  show ?thesis using self by (auto simp: get_age_def Let_def)
qed

section \<open>Objects and requests over a run\<close>

text \<open>
  Requests are counted modulo the wrap of the 32-bit number of reconfigurations: scaled by
  \<open>2 ^ 12\<close>, both sides lose exactly the bits that wrap.
\<close>

definition requests_ok :: "lhd_state \<Rightarrow> bool" where
  "requests_ok s \<longleftrightarrow>
     2 ^ 12 * (lhd_timestamp s + next_reconfiguration s) = 2 ^ 32 * (ucast (num_reconfigurations s) + 1)
     \<and> 1 \<le> next_reconfiguration s \<and> next_reconfiguration s \<le> REQS_PER_RECONFIG"

definition lhd_inv :: "lhd_state \<Rightarrow> bool" where
  "lhd_inv s \<longleftrightarrow> hmap_ok lhd_meta_cap (lhd_meta s) \<and> num_objects s = of_nat (length (lhd_meta s)) \<and> requests_ok s"

fun lhd_adm :: "('k, lhd_state) kfuncs \<Rightarrow> 'k \<Rightarrow> hook \<Rightarrow> lhd_state \<Rightarrow> bool" where
  "lhd_adm K k (Folio_Added f) s \<longleftrightarrow> map_of (lhd_meta s) (folio_addr f) = None"
| "lhd_adm K k h s \<longleftrightarrow> True"

lemma ucast_inc:
  "2 ^ 32 * (ucast ((n :: u32) + 1) :: u64) = 2 ^ 32 * (ucast n + 1)"
proof (cases "1 + n = 0")
  case True
  then have "n = - 1" by (metis minus_unique)
  then have n: "n = 4294967295" by simp
  show ?thesis by (simp add: n)
next
  case False
  then have "unat (n + 1) = Suc (unat n)" using unatSuc [of n] by (simp add: add.commute)
  then have "(ucast (n + 1) :: u64) = ucast n + 1" by (metis of_nat_unat of_nat_Suc add.commute)
  then show ?thesis by simp
qed

lemma count_request_ok:
  assumes "requests_ok s"
  shows "requests_ok (count_request K k (s\<lparr>lhd_timestamp := lhd_timestamp s + 1\<rparr>))"
proof (cases "next_reconfiguration s = 1")
  case False
  have "1 \<le> next_reconfiguration s - 1" "next_reconfiguration s - 1 \<le> REQS_PER_RECONFIG"
  proof -
    have n: "1 \<le> unat (next_reconfiguration s)" "unat (next_reconfiguration s) \<le> unat REQS_PER_RECONFIG"
      using assms by (simp_all add: requests_ok_def word_le_nat_alt)
    then have u: "unat (next_reconfiguration s - 1) = unat (next_reconfiguration s) - 1"
      by (simp add: unat_sub word_le_nat_alt)
    have "unat (next_reconfiguration s) \<noteq> 1" using False by (simp add: word_unat_eq_iff)
    with n u have "1 \<le> unat (next_reconfiguration s - 1)"
      "unat (next_reconfiguration s - 1) \<le> unat REQS_PER_RECONFIG" by linarith+
    then show "1 \<le> next_reconfiguration s - 1" "next_reconfiguration s - 1 \<le> REQS_PER_RECONFIG"
      by (simp_all add: word_le_nat_alt)
  qed
  then show ?thesis
    using assms False by (simp add: requests_ok_def count_request_def Let_def)
next
  case True
  have "2 ^ 12 * (lhd_timestamp s + 1) = 2 ^ 32 * (ucast (num_reconfigurations s) + 1)"
    using assms True by (simp add: requests_ok_def)
  moreover have "2 ^ 32 * (ucast (num_reconfigurations s + 1) :: u64) = 2 ^ 32 * (ucast (num_reconfigurations s) + 1)"
    by (rule ucast_inc)
  moreover have "(1 :: u64) \<le> 1048576" by (simp add: word_le_nat_alt)
  ultimately show ?thesis
    using True
    by (auto simp: requests_ok_def count_request_def REQS_PER_RECONFIG_def Let_def algebra_simps)
qed

lemma count_request_frame [simp]:
  "lhd_meta (count_request K k s) = lhd_meta s" "num_objects (count_request K k s) = num_objects s"
  by (simp_all add: count_request_def Let_def)

lemma requests_ok_frame [simp]:
  "requests_ok (count_request K k (s\<lparr>num_objects := n\<rparr>)) = requests_ok (count_request K k s)"
  "requests_ok (s\<lparr>overflows := a\<rparr>) = requests_ok s"
  "requests_ok (s\<lparr>lhd_meta := m\<rparr>) = requests_ok s"
  "requests_ok (s\<lparr>num_objects := n\<rparr>) = requests_ok s"
  "requests_ok (s\<lparr>ewma_victim_hit_density := n\<rparr>) = requests_ok s"
  "requests_ok (class_hit i j s) = requests_ok s"
  "requests_ok (class_eviction i j s) = requests_ok s"
  by (simp_all add: requests_ok_def class_hit_def class_eviction_def count_request_def Let_def)

lemma class_frame [simp]:
  "lhd_meta (class_hit i j s) = lhd_meta s" "num_objects (class_hit i j s) = num_objects s"
  "lhd_meta (class_eviction i j s) = lhd_meta s" "num_objects (class_eviction i j s) = num_objects s"
  by (simp_all add: class_hit_def class_eviction_def)

lemma lhd_inv_accessed:
  assumes "lhd_inv s"
  shows "lhd_inv (snd (lhd_folio_accessed K f k s))"
proof (cases "map_of (lhd_meta s) (folio_addr f)")
  case (Some data)
  obtain age n where a: "get_age data s = (age, s\<lparr>overflows := n\<rparr>)"
    using get_age_frame [of data s] by (cases "get_age data s") auto
  show ?thesis
    using assms Some
    by (simp add: lhd_folio_accessed_def a Let_def lhd_inv_def count_request_ok)
qed (use assms in \<open>simp add: lhd_folio_accessed_def\<close>)

lemma lhd_inv_evicted:
  assumes "lhd_inv s"
  shows "lhd_inv (snd (lhd_folio_evicted f k s))"
proof (cases "map_of (lhd_meta s) (folio_addr f)")
  case (Some data)
  obtain age n where a: "get_age data s = (age, s\<lparr>overflows := n\<rparr>)"
    using get_age_frame [of data s] by (cases "get_age data s") auto
  have d: "distinct (map fst (lhd_meta s))" using assms by (simp add: lhd_inv_def hmap_ok_def)
  have len: "length (lhd_meta s) = Suc (length (AList.delete (folio_addr f) (lhd_meta s)))"
    using hmap_count_delete [OF d Some, of "\<lambda>_. True"] by (simp add: hmap_count_True)
  have "hmap_ok lhd_meta_cap (AList.delete (folio_addr f) (lhd_meta s))"
    using assms Some hmap_delete_ok [of lhd_meta_cap "lhd_meta s" "folio_addr f"]
    by (simp add: lhd_inv_def hmap_delete_def)
  then show ?thesis
    using assms Some
    by (simp add: lhd_folio_evicted_def a Let_def lhd_inv_def hmap_delete_def len)
qed (use assms in \<open>simp add: lhd_folio_evicted_def\<close>)

lemma lhd_inv_added:
  assumes "lhd_inv s" "map_of (lhd_meta s) (folio_addr f) = None"
  shows "lhd_inv (snd (lhd_folio_added K f k s))"
proof -
  obtain ret k1 where l: "kf_list_add_tail K (lhd_list s) f k = (ret, k1)" by force
  let ?v = "\<lparr>last_access_time = lhd_timestamp s, last_hit_age = 0,
      last_last_hit_age = of_nat MAX_AGE, app = DEFAULT_APP_ID mod APP_CLASSES\<rparr>"
  obtain r m where u: "hmap_update lhd_meta_cap (kf_map_err K k1 (folio_addr f)) (folio_addr f) ?v (lhd_meta s) = (r, m)"
    by force
  have m: "hmap_ok lhd_meta_cap m" "length m = (if r = 0 then Suc (length (lhd_meta s)) else length (lhd_meta s))"
    using assms u hmap_update_ok [of lhd_meta_cap "lhd_meta s" "kf_map_err K k1 (folio_addr f)" "folio_addr f" ?v]
    by (auto simp: lhd_inv_def hmap_update_def length_AList_update E2BIG_def split: if_splits)
  have req: "requests_ok (count_request K k1 (s\<lparr>lhd_meta := m, lhd_timestamp := lhd_timestamp s + 1\<rparr>))"
    using count_request_ok [of "s\<lparr>lhd_meta := m\<rparr>" K k1] assms(1) by (simp add: lhd_inv_def)
  show ?thesis
    using assms(1) m req
    by (auto simp: lhd_folio_added_def l u Let_def lhd_inv_def)
qed

lemma lhd_inv_evict:
  fixes K :: "('k, lhd_state) kfuncs"
  assumes "kernel_ok K" "lhd_inv s"
  shows "lhd_inv (snd (snd (lhd_evict_folios K c m k s)))"
proof -
  have keep: "lhd_inv (snd (bpf_lhd_score_fn k f t))" if "lhd_inv t" for k :: 'k and f t
  proof -
    obtain n where "snd (bpf_lhd_score_fn k f t) = t\<lparr>overflows := n\<rparr>" using score_frame [of k f t] by (rule exE)
    with that show ?thesis by (simp add: lhd_inv_def)
  qed
  show ?thesis
    using sample_inv [where P = lhd_inv and sc = bpf_lhd_score_fn, OF assms(1) keep assms(2)]
    by (simp add: lhd_evict_folios_def split_def Let_def)
qed

interpretation lhd: policy lhd_ops lhd_adm lhd_inv
  by unfold_locales
    (auto simp: lhd_ops_def lhd_inv_accessed lhd_inv_evicted lhd_inv_added lhd_inv_evict)

text \<open>
  Over every run in which a folio is reported as added only while untracked, the counter
  of objects is the number of tracked folios, and a reconfiguration is due every 2 to the 20
  requests: the clock and the requests left until the next one always add up to the number
  of reconfigurations so far and one more, times that period.
\<close>

lemma lhd_bookkeeping:
  assumes "kernel_ok K" "admissible (lhd_adm K) (lhd_ops K) hs w" "lhd_inv (snd w)"
    and "s' = snd (run_hooks (lhd_ops K) hs w)"
  shows "num_objects s' = of_nat (length (lhd_meta s'))
    \<and> 2 ^ 12 * (lhd_timestamp s' + next_reconfiguration s') = 2 ^ 32 * (ucast (num_reconfigurations s') + 1)
    \<and> 1 \<le> next_reconfiguration s' \<and> next_reconfiguration s' \<le> 2 ^ 20"
  using lhd.run_inv [OF assms(1-3)] assms(4)
  by (simp add: lhd_inv_def requests_ok_def REQS_PER_RECONFIG_def)

end
