(* ===== verification/Watch_Init.thy ===== *)
theory Watch_Init
  imports Dir_Watcher
begin

text \<open>
  The user-space half of the directory watcher, \<open>policies/dir_watcher.h\<close> and
  \<open>policies/cache_ext_policy_watch.h\<close>: the walk that enters every inode below a watched
  directory into the map \<open>inode_watchlist\<close> before the policy runs, the resolution of the
  command line's paths and the inode numbers of the watch roots. Shown: the walk ends on
  every file system that refuses over-long paths; a walk that succeeds tags exactly the
  inodes listed below its root; the two roots of the dual mode get their own tags, the second
  one prevailing; a walk closes every directory it opens unless a \<open>stat\<close> fails.
\<close>

section \<open>The file system as the loader sees it\<close>

text \<open>
  The answers of the C library: \<open>fs_opendir\<close> is the error number, or the entries (name and
  \<open>d_ino\<close>) in the order \<open>readdir\<close> returns them; \<open>fs_stat\<close> follows symbolic links and says
  whether the path is a directory, and its inode number; \<open>fs_store_err n\<close> is the error the
  kernel raises for the \<open>n\<close>-th store into the map, 0 for none.
\<close>

record fs =
  fs_opendir :: "string \<Rightarrow> s32 + (string \<times> u64) list"
  fs_stat :: "string \<Rightarrow> (bool \<times> u64) option"
  fs_access :: "string \<Rightarrow> bool"
  fs_realpath :: "string \<Rightarrow> string option"
  fs_store_err :: "nat \<Rightarrow> s32"

text \<open>The watchlist, the stores made so far and the directory streams left open.\<close>

record walk_state =
  ws_map :: "(u64, u32) hmap"
  ws_stores :: nat
  ws_open :: nat

section \<open>The walk\<close>

definition skip_name :: "string \<Rightarrow> bool" where
  "skip_name name \<longleftrightarrow> take 1 name = ''.'' \<or> take 2 name = ''..'' \<or> name = ''.git''"

definition filepath :: "string \<Rightarrow> string \<Rightarrow> string" where
  "filepath path name = path @ ''/'' @ name"

definition watch_store :: "fs \<Rightarrow> u64 \<Rightarrow> u32 \<Rightarrow> walk_state \<Rightarrow> s32 \<times> walk_state" where
  "watch_store fs ino tag s =
     (let (ret, m) = hmap_update watch_cap (fs_store_err fs (ws_stores s)) ino tag (ws_map s)
      in (ret, s\<lparr>ws_map := m, ws_stores := ws_stores s + 1\<rparr>))"

definition closedir :: "walk_state \<Rightarrow> walk_state" where
  "closedir s = s\<lparr>ws_open := ws_open s - 1\<rparr>"

text \<open>
  \<open>initialize_watch_dir_map_tagged\<close> calls itself on subdirectories: \<open>watch_dir\<close> is the
  function, with the depth left as fuel (\<open>None\<close> when it runs out), and \<open>watch_entries\<close> its
  loop over the entries not yet read.
\<close>

function (sequential) watch_dir :: "fs \<Rightarrow> bool \<Rightarrow> u32 \<Rightarrow> nat \<Rightarrow> string \<Rightarrow> walk_state \<Rightarrow>
    (s32 \<times> walk_state) option"
  and watch_entries :: "fs \<Rightarrow> bool \<Rightarrow> u32 \<Rightarrow> nat \<Rightarrow> string \<Rightarrow> (string \<times> u64) list \<Rightarrow> walk_state \<Rightarrow>
    (s32 \<times> walk_state) option" where
  "watch_dir fs recursive tag 0 path s = None"
| "watch_dir fs recursive tag (Suc n) path s =
     (case fs_opendir fs path of
        Inl errno \<Rightarrow> Some (errno, s)
      | Inr es \<Rightarrow> watch_entries fs recursive tag n path es (s\<lparr>ws_open := ws_open s + 1\<rparr>))"
| "watch_entries fs recursive tag n path [] s = Some (0, closedir s)"
| "watch_entries fs recursive tag n path ((name, ino) # es) s =
     (if skip_name name then watch_entries fs recursive tag n path es s
      else case fs_stat fs (filepath path name) of
        None \<Rightarrow> Some (- 1, s)
      | Some (isdir, st_ino) \<Rightarrow>
          if isdir \<and> \<not> recursive then watch_entries fs recursive tag n path es s
          else case (if isdir then watch_dir fs recursive tag n (filepath path name) s
                     else Some (0, s)) of
            None \<Rightarrow> None
          | Some (ret, s1) \<Rightarrow>
              if isdir \<and> ret <s 0 then Some (ret, closedir s1)
              else let (ret2, s2) = watch_store fs ino tag s1
                   in if ret2 \<noteq> 0 then Some (- 1, closedir s2)
                      else watch_entries fs recursive tag n path es s2)"
  by pat_completeness auto
termination
  by (relation "measures [case_sum (\<lambda>(fs, r, t, n, p, s). n) (\<lambda>(fs, r, t, n, p, es, s). n),
      case_sum (\<lambda>_. 0) (\<lambda>(fs, r, t, n, p, es, s). length es)]") auto

definition walk_fuel :: nat where
  "walk_fuel = 4097"

definition initialize_watch_dir_map_tagged :: "fs \<Rightarrow> string \<Rightarrow> bool \<Rightarrow> u32 \<Rightarrow> walk_state \<Rightarrow>
    (s32 \<times> walk_state) option" where
  "initialize_watch_dir_map_tagged fs path recursive tag s = watch_dir fs recursive tag walk_fuel path s"

definition initialize_watch_dir_map :: "fs \<Rightarrow> string \<Rightarrow> bool \<Rightarrow> walk_state \<Rightarrow>
    (s32 \<times> walk_state) option" where
  "initialize_watch_dir_map fs path recursive s = initialize_watch_dir_map_tagged fs path recursive 1 s"

definition initialize_dual_watch_dir_maps :: "fs \<Rightarrow> string \<Rightarrow> string \<Rightarrow> u32 \<Rightarrow> u32 \<Rightarrow> walk_state \<Rightarrow>
    (s32 \<times> walk_state) option" where
  "initialize_dual_watch_dir_maps fs path1 path2 tag1 tag2 s =
     (case initialize_watch_dir_map_tagged fs path1 True tag1 s of
        None \<Rightarrow> None
      | Some (ret, s1) \<Rightarrow>
          if ret \<noteq> 0 then Some (ret, s1)
          else initialize_watch_dir_map_tagged fs path2 True tag2 s1)"

definition cache_ext_init_inode_watch_map :: "fs \<Rightarrow> string \<Rightarrow> string \<Rightarrow> bool \<Rightarrow> bool \<Rightarrow> walk_state \<Rightarrow>
    (s32 \<times> walk_state) option" where
  "cache_ext_init_inode_watch_map fs path1 path2 dual recursive s =
     (if dual then initialize_dual_watch_dir_maps fs path1 path2 1 2 s
      else initialize_watch_dir_map fs path1 recursive s)"

section \<open>Paths and watch roots\<close>

text \<open>
  The result \<open>None\<close> stands for -1. A resolved path is shorter than \<open>PATH_MAX\<close>, so
  \<open>snprintf\<close> never truncates into the larger buffers for the two subdirectories.
\<close>

definition cache_ext_resolve_watch_paths :: "fs \<Rightarrow> string option \<Rightarrow> string option \<Rightarrow>
    (string \<times> string \<times> bool) option" where
  "cache_ext_resolve_watch_paths fs single dual_pair =
     (case (single, dual_pair) of
        (Some _, Some _) \<Rightarrow> None
      | (None, None) \<Rightarrow> None
      | (None, Some pair) \<Rightarrow>
          if \<not> fs_access fs pair then None
          else (case fs_realpath fs pair of
            None \<Rightarrow> None
          | Some root \<Rightarrow>
              let sub1 = filepath root ''client1''; sub2 = filepath root ''client2''
              in if \<not> fs_access fs sub1 then None
                 else if \<not> fs_access fs sub2 then None
                 else (case (fs_realpath fs sub1, fs_realpath fs sub2) of
                   (Some path1, Some path2) \<Rightarrow>
                     if 128 < length path1 \<or> 128 < length path2 then None
                     else Some (path1, path2, True)
                 | _ \<Rightarrow> None))
      | (Some dir, None) \<Rightarrow>
          if \<not> fs_access fs dir then None
          else (case fs_realpath fs dir of
            None \<Rightarrow> None
          | Some path1 \<Rightarrow> if 128 < length path1 then None else Some (path1, '''', False)))"

definition cache_ext_watch_root_stat :: "fs \<Rightarrow> string \<Rightarrow> string \<Rightarrow> bool \<Rightarrow> (u64 \<times> u64) option" where
  "cache_ext_watch_root_stat fs path1 path2 dual =
     (case fs_stat fs path1 of
        Some (True, ino1) \<Rightarrow>
          if dual then (case fs_stat fs path2 of
              Some (True, ino2) \<Rightarrow> Some (ino1, ino2)
            | _ \<Rightarrow> None)
          else Some (ino1, 0)
      | _ \<Rightarrow> None)"

definition set_watch_root_inos :: "u64 \<Rightarrow> u64 \<Rightarrow> bool \<Rightarrow> 'a watch_state_scheme \<Rightarrow> 'a watch_state_scheme" where
  "set_watch_root_inos ino1 ino2 is_dual s =
     s\<lparr>watch_root_ino_1 := ino1, watch_root_ino_2 := if is_dual then ino2 else 0\<rparr>"

section \<open>What a walk can reach\<close>

text \<open>
  \<open>listed fs recursive path ino\<close>: \<open>ino\<close> is the number of an entry below \<open>path\<close> that is not
  hidden and, unless \<open>recursive\<close>, directly in \<open>path\<close> and no directory.
\<close>

definition enters :: "fs \<Rightarrow> bool \<Rightarrow> string \<Rightarrow> string \<Rightarrow> bool \<Rightarrow> bool" where
  "enters fs recursive path name isdir \<longleftrightarrow>
     \<not> skip_name name \<and> (\<exists>j. fs_stat fs (filepath path name) = Some (isdir, j)) \<and> (isdir \<longrightarrow> recursive)"

inductive listed :: "fs \<Rightarrow> bool \<Rightarrow> string \<Rightarrow> u64 \<Rightarrow> bool" for fs recursive where
  entry: "fs_opendir fs path = Inr es \<Longrightarrow> (name, ino) \<in> set es \<Longrightarrow>
    enters fs recursive path name isdir \<Longrightarrow> listed fs recursive path ino"
| below: "fs_opendir fs path = Inr es \<Longrightarrow> (name, ino) \<in> set es \<Longrightarrow>
    enters fs recursive path name True \<Longrightarrow> listed fs recursive (filepath path name) x \<Longrightarrow>
    listed fs recursive path x"

inductive_cases listedE: "listed fs recursive path x"

definition from_entries :: "fs \<Rightarrow> bool \<Rightarrow> string \<Rightarrow> (string \<times> u64) list \<Rightarrow> u64 \<Rightarrow> bool" where
  "from_entries fs recursive path es x \<longleftrightarrow>
     (\<exists>(name, ino) \<in> set es. \<exists>isdir. enters fs recursive path name isdir \<and>
        (ino = x \<or> isdir \<and> listed fs recursive (filepath path name) x))"

lemma listed_from_entries:
  assumes "fs_opendir fs path = Inr es"
  shows "listed fs recursive path x \<longleftrightarrow> from_entries fs recursive path es x"
proof
  assume "listed fs recursive path x"
  then show "from_entries fs recursive path es x"
    by (rule listedE) (use assms in \<open>fastforce simp: from_entries_def\<close>)+
next
  assume "from_entries fs recursive path es x"
  then obtain name ino isdir where e: "(name, ino) \<in> set es" "enters fs recursive path name isdir"
    "ino = x \<or> isdir \<and> listed fs recursive (filepath path name) x"
    by (auto simp: from_entries_def)
  from e(3) show "listed fs recursive path x"
    using listed.entry [OF assms e(1,2)] listed.below [OF assms e(1), of recursive x] e(2) by (cases isdir) auto
qed

lemma listed_unreadable: "fs_opendir fs path = Inl e \<Longrightarrow> \<not> listed fs recursive path x"
  by (auto elim: listedE)

lemma from_entries_simps:
  "from_entries fs recursive path [] x \<longleftrightarrow> False"
  "from_entries fs recursive path ((name, ino) # es) x \<longleftrightarrow>
     (\<exists>isdir. enters fs recursive path name isdir \<and> (ino = x \<or> isdir \<and> listed fs recursive (filepath path name) x))
     \<or> from_entries fs recursive path es x"
  by (auto simp: from_entries_def)

lemma watch_store_map:
  "watch_store fs ino tag s = (0, s1) \<Longrightarrow>
   map_of (ws_map s1) x = (if x = ino then Some tag else map_of (ws_map s) x)"
  by (auto simp: watch_store_def split_def Let_def hash.lookup_store)

lemma watch_store_open [simp]:
  "watch_store fs ino tag s = (ret, s1) \<Longrightarrow> ws_open s1 = ws_open s"
  by (auto simp: watch_store_def split_def Let_def)

lemma closedir_map [simp]: "ws_map (closedir s) = ws_map s"
  by (simp add: closedir_def)

section \<open>A walk that succeeds\<close>

lemma watch_walk_map:
  "watch_dir fs recursive tag n path s = Some (ret, s1) \<Longrightarrow> \<not> ret <s 0 \<Longrightarrow>
     map_of (ws_map s1) x = (if listed fs recursive path x then Some tag else map_of (ws_map s) x)"
  "watch_entries fs recursive tag n path es s = Some (ret, s1) \<Longrightarrow> \<not> ret <s 0 \<Longrightarrow>
     map_of (ws_map s1) x = (if from_entries fs recursive path es x then Some tag else map_of (ws_map s) x)"
proof (induction fs recursive tag n path s and fs recursive tag n path es s
    arbitrary: ret s1 and ret s1 rule: watch_dir_watch_entries.induct)
  case (2 fs recursive tag n path s)
  then show ?case
    by (cases "fs_opendir fs path") (auto simp: listed_from_entries listed_unreadable)
next
  case (4 fs recursive tag n path name ino es s)
  let ?p = "filepath path name"
  show ?case
  proof (cases "skip_name name")
    case True
    then show ?thesis using 4 by (simp add: from_entries_simps enters_def)
  next
    case False
    then obtain isdir j where st: "fs_stat fs ?p = Some (isdir, j)"
      using "4.prems" by (cases "fs_stat fs ?p") auto
    show ?thesis
    proof (cases "isdir \<and> \<not> recursive")
      case True
      then show ?thesis using 4 False st by (simp add: from_entries_simps enters_def)
    next
      case go: False
      let ?sub = "if isdir then watch_dir fs recursive tag n ?p s else Some (0, s)"
      obtain r s2 where sub: "?sub = Some (r, s2)"
        using "4.prems"(1) False st go by (cases ?sub) (auto split: if_splits)
      have r: "\<not> (isdir \<and> r <s 0)" using "4.prems" False st go sub by auto
      obtain r2 s3 where store: "watch_store fs ino tag s2 = (r2, s3)" by (cases "watch_store fs ino tag s2")
      have rest: "r2 = 0" "watch_entries fs recursive tag n path es s3 = Some (ret, s1)"
        using "4.prems" False st go sub r store by (auto simp: Let_def split: if_splits)
      have "map_of (ws_map s2) x = (if isdir \<and> listed fs recursive ?p x then Some tag else map_of (ws_map s) x)"
        using sub r "4.IH"(3) [OF False st] go by (cases isdir) auto
      then show ?thesis
        using "4.IH"(4) [OF False st _ go sub _ r store [symmetric]] rest
          watch_store_map [OF store [unfolded rest(1)]] False st go "4.prems"(2)
        by (auto simp: from_entries_simps enters_def)
    qed
  qed
qed (auto simp: from_entries_simps)

lemma watch_store_ok:
  "watch_store fs ino tag s = (ret, s1) \<Longrightarrow> hmap_ok watch_cap (ws_map s) \<Longrightarrow> hmap_ok watch_cap (ws_map s1)"
  by (auto simp: watch_store_def split_def Let_def intro: hmap_update_ok)

lemma watch_walk_ok:
  "watch_dir fs recursive tag n path s = Some (ret, s1) \<Longrightarrow> hmap_ok watch_cap (ws_map s) \<Longrightarrow>
     hmap_ok watch_cap (ws_map s1)"
  "watch_entries fs recursive tag n path es s = Some (ret, s1) \<Longrightarrow> hmap_ok watch_cap (ws_map s) \<Longrightarrow>
     hmap_ok watch_cap (ws_map s1)"
proof (induction fs recursive tag n path s and fs recursive tag n path es s
    arbitrary: ret s1 and ret s1 rule: watch_dir_watch_entries.induct)
  case (2 fs recursive tag n path s)
  then show ?case by (cases "fs_opendir fs path") auto
next
  case (4 fs recursive tag n path name ino es s)
  let ?p = "filepath path name"
  show ?case
  proof (cases "skip_name name")
    case True
    then show ?thesis using 4 by simp
  next
    case False
    show ?thesis
    proof (cases "fs_stat fs ?p")
      case None
      then show ?thesis using 4 False by simp
    next
      case (Some st)
      then obtain isdir j where st: "fs_stat fs ?p = Some (isdir, j)" by (cases st) auto
      show ?thesis
      proof (cases "isdir \<and> \<not> recursive")
        case True
        then show ?thesis using 4 False st by simp
      next
        case go: False
        let ?sub = "if isdir then watch_dir fs recursive tag n ?p s else Some (0, s)"
        obtain r s2 where sub: "?sub = Some (r, s2)"
          using "4.prems"(1) False st go by (cases ?sub) (auto split: if_splits)
        have ok: "hmap_ok watch_cap (ws_map s2)"
          using sub "4.prems"(2) "4.IH"(3) [OF False st] go by (cases isdir) auto
        obtain r2 s3 where store: "watch_store fs ino tag s2 = (r2, s3)" by (cases "watch_store fs ino tag s2")
        show ?thesis
          using "4.prems"(1) False st go sub store ok watch_store_ok [OF store ok]
            "4.IH"(4) [OF False st _ go sub _ _ store [symmetric]]
          by (auto simp: Let_def split: if_splits)
      qed
    qed
  qed
qed auto

text \<open>
  C22: a walk that returns 0 tags the inode of every entry listed below the directory (down
  through the subdirectories it may enter when it is recursive, except hidden names) and
  leaves the tag of every other inode alone.
\<close>

theorem walk_tags_listed:
  assumes "initialize_watch_dir_map_tagged fs path recursive tag s = Some (0, s')"
  shows "map_of (ws_map s') ino =
    (if listed fs recursive path ino then Some tag else map_of (ws_map s) ino)"
  using assms by (simp add: initialize_watch_dir_map_tagged_def watch_walk_map(1))

lemma walk_tags:
  "initialize_watch_dir_map_tagged fs path recursive tag s = Some (0, s') \<Longrightarrow>
   map_of (ws_map s') ino = (if listed fs recursive path ino then Some tag else map_of (ws_map s) ino)"
  by (simp add: initialize_watch_dir_map_tagged_def watch_walk_map(1))

text \<open>A small tree: two files and a hidden one, and a subdirectory with one more file.\<close>

definition demo_fs :: fs where
  "demo_fs = \<lparr>
     fs_opendir = (\<lambda>p. if p = ''/a'' then Inr [(''.x'', 9), (''f'', 10), (''d'', 11)]
        else if p = ''/a/d'' then Inr [(''g'', 12)]
        else if p = ''/a/client1'' then Inr [(''h'', 13)]
        else if p = ''/a/client2'' then Inr [(''h'', 13), (''k'', 14)] else Inl 2),
     fs_stat = (\<lambda>p. if p = ''/a'' then Some (True, 7) else if p = ''/a/d'' then Some (True, 11)
        else if p = ''/a/client1'' then Some (True, 20) else if p = ''/a/client2'' then Some (True, 21)
        else Some (False, 0)),
     fs_access = (\<lambda>p. True), fs_realpath = Some, fs_store_err = (\<lambda>n. 0)\<rparr>"

definition empty_walk :: walk_state where
  "empty_walk = \<lparr>ws_map = [], ws_stores = 0, ws_open = 0\<rparr>"

lemmas demo_walk_simps = demo_fs_def empty_walk_def skip_name_def filepath_def watch_store_def
  closedir_def hmap_update_def watch_cap_def word_sless_alt

lemma watch_dir_numeral:
  "watch_dir fs recursive tag (numeral k) path s =
     (case fs_opendir fs path of
        Inl errno \<Rightarrow> Some (errno, s)
      | Inr es \<Rightarrow> watch_entries fs recursive tag (pred_numeral k) path es (s\<lparr>ws_open := ws_open s + 1\<rparr>))"
  by (simp add: numeral_eq_Suc)

theorem walk_tags_listed_witness:
  "\<exists>s'. initialize_watch_dir_map_tagged demo_fs ''/a'' True 1 empty_walk = Some (0, s')
    \<and> map_of (ws_map s') 12 = Some 1 \<and> listed demo_fs True ''/a'' 12 \<and> \<not> listed demo_fs True ''/a'' 9"
proof -
  obtain s' where r: "initialize_watch_dir_map_tagged demo_fs ''/a'' True 1 empty_walk = Some (0, s')"
      "ws_map s' = [(10, 1), (12, 1), (11, 1)]"
    by (simp add: initialize_watch_dir_map_tagged_def walk_fuel_def watch_dir_numeral demo_walk_simps)
  have "listed demo_fs True ''/a'' 12"
    using walk_tags_listed [OF r(1), of 12] r(2) by (simp add: empty_walk_def split: if_splits)
  moreover have "\<not> listed demo_fs True ''/a'' 9"
    using walk_tags_listed [OF r(1), of 9] r(2) by (auto simp: empty_walk_def split: if_splits)
  ultimately show ?thesis using r by simp
qed

section \<open>Termination\<close>

text \<open>A path of \<open>PATH_MAX\<close> bytes or more is refused with \<open>ENAMETOOLONG\<close>.\<close>

definition path_max :: "fs \<Rightarrow> bool" where
  "path_max fs \<longleftrightarrow> (\<forall>path es. fs_opendir fs path = Inr es \<longrightarrow> length path < 4096)"

lemma length_filepath: "length path < length (filepath path name)"
  by (simp add: filepath_def)

lemma watch_walk_returns:
  "path_max fs \<Longrightarrow> 4096 < length path + n \<Longrightarrow> 0 < n \<Longrightarrow> \<exists>r. watch_dir fs recursive tag n path s = Some r"
  "path_max fs \<Longrightarrow> 4096 \<le> length path + n \<Longrightarrow> 0 < n \<Longrightarrow> \<exists>r. watch_entries fs recursive tag n path es s = Some r"
proof (induction fs recursive tag n path s and fs recursive tag n path es s
    rule: watch_dir_watch_entries.induct)
  case (2 fs recursive tag n path s)
  show ?case
  proof (cases "fs_opendir fs path")
    case (Inr es)
    then have "length path < 4096" using "2.prems"(1) by (auto simp: path_max_def)
    then show ?thesis using 2 Inr by simp
  qed simp
next
  case (4 fs recursive tag n path name ino es s)
  have "4096 < length (filepath path name) + n" using "4.prems" length_filepath [of path name] by simp
  then have "\<exists>r. (if isdir then watch_dir fs recursive tag n (filepath path name) s else Some (0, s)) = Some r"
    if "\<not> skip_name name" "fs_stat fs (filepath path name) = Some (isdir, j)" "\<not> (isdir \<and> \<not> recursive)"
    for isdir j
    using "4.IH"(3) [OF that(1,2) _ that(3)] "4.prems" by (cases isdir) auto
  then show ?case
    using "4.IH"(1,2,4) "4.prems" by (fastforce split: option.split prod.split simp: Let_def)
qed auto

text \<open>
  C28: the walk returns on every file system in which paths of 4096 bytes or more cannot be
  opened, however directories and symbolic links are nested: each level makes the path
  longer, so the depth is bounded.
\<close>

theorem walk_terminates:
  assumes "path_max fs"
  shows "\<exists>ret s'. initialize_watch_dir_map_tagged fs path recursive tag s = Some (ret, s')"
  using watch_walk_returns(1) [OF assms, of path walk_fuel recursive tag s]
  by (auto simp: initialize_watch_dir_map_tagged_def walk_fuel_def)

text \<open>A directory with a link to itself: the walk goes down until the path is too long.\<close>

definition loop_fs :: fs where
  "loop_fs = demo_fs\<lparr>fs_opendir := (\<lambda>p. if length p < 4096 then Inr [(''l'', 5)] else Inl 36),
     fs_stat := (\<lambda>p. Some (True, 5))\<rparr>"

theorem walk_terminates_witness:
  "\<exists>ret s'. initialize_watch_dir_map_tagged loop_fs ''/a'' True 1 empty_walk = Some (ret, s')"
  by (rule walk_terminates) (simp add: path_max_def loop_fs_def)

section \<open>Directory streams\<close>

lemma watch_walk_open:
  "watch_dir fs recursive tag n path s = Some (ret, s1) \<Longrightarrow>
     ws_open s1 = ws_open s \<or> ret = - 1 \<and> ws_open s1 = ws_open s + 1"
  "watch_entries fs recursive tag n path es s = Some (ret, s1) \<Longrightarrow> 0 < ws_open s \<Longrightarrow>
     ws_open s1 + 1 = ws_open s \<or> ret = - 1 \<and> ws_open s1 = ws_open s"
proof (induction fs recursive tag n path s and fs recursive tag n path es s
    arbitrary: ret s1 and ret s1 rule: watch_dir_watch_entries.induct)
  case (2 fs recursive tag n path s)
  then show ?case by (cases "fs_opendir fs path") fastforce+
next
  case (4 fs recursive tag n path name ino es s)
  let ?p = "filepath path name"
  show ?case
  proof (cases "skip_name name")
    case True
    then show ?thesis using 4 by simp
  next
    case False
    show ?thesis
    proof (cases "fs_stat fs ?p")
      case None
      then show ?thesis using "4.prems" False by simp
    next
      case (Some st)
      obtain isdir j where st: "fs_stat fs ?p = Some (isdir, j)" using Some by (cases st) auto
      show ?thesis
      proof (cases "isdir \<and> \<not> recursive")
        case True
        then show ?thesis using 4 False st by simp
      next
        case go: False
        let ?sub = "if isdir then watch_dir fs recursive tag n ?p s else Some (0, s)"
        obtain r s2 where sub: "?sub = Some (r, s2)"
          using "4.prems"(1) False st go by (cases ?sub) (auto split: if_splits)
        have open2: "ws_open s2 = ws_open s \<or> r = - 1 \<and> ws_open s2 = ws_open s + 1 \<and> isdir"
          using sub "4.IH"(3) [OF False st _ go] by (cases isdir) auto
        obtain r2 s3 where store: "watch_store fs ino tag s2 = (r2, s3)" by (cases "watch_store fs ino tag s2")
        show ?thesis
          using "4.prems" False st go sub store open2 "4.IH"(4) [OF False st _ go sub _ _ store [symmetric]]
          by (auto simp: closedir_def word_sless_alt split: if_splits)
      qed
    qed
  qed
qed (auto simp: closedir_def)

text \<open>
  A walk closes every directory it opened, except that a failing \<open>stat\<close> leaves one stream
  open: the function returns -1 there without \<open>closedir\<close>, and its callers close theirs.
\<close>

lemma walk_streams:
  assumes "initialize_watch_dir_map_tagged fs path recursive tag s = Some (ret, s')"
  shows "ws_open s' = ws_open s \<or> ret = - 1 \<and> ws_open s' = ws_open s + 1"
  by (rule watch_walk_open(1) [OF assms [unfolded initialize_watch_dir_map_tagged_def]])

section \<open>Resolved paths\<close>

lemma resolve_modes:
  assumes "cache_ext_resolve_watch_paths fs single pair = Some (path1, path2, dual)"
  shows "(single = None) \<noteq> (pair = None)" and "dual \<longleftrightarrow> pair \<noteq> None"
    and "length path1 \<le> 128" and "length path2 \<le> 128"
    and "single = Some dir \<Longrightarrow> fs_realpath fs dir = Some path1 \<and> path2 = []"
    and "pair = Some root \<Longrightarrow> \<exists>r. fs_realpath fs root = Some r
      \<and> fs_realpath fs (filepath r ''client1'') = Some path1 \<and> fs_realpath fs (filepath r ''client2'') = Some path2"
  using assms by (auto simp: cache_ext_resolve_watch_paths_def Let_def split: option.splits if_splits)

lemma watch_root_stat_dirs:
  assumes "cache_ext_watch_root_stat fs path1 path2 dual = Some (ino1, ino2)"
  shows "fs_stat fs path1 = Some (True, ino1)"
    and "if dual then fs_stat fs path2 = Some (True, ino2) else ino2 = 0"
  using assms by (auto simp: cache_ext_watch_root_stat_def split: option.splits bool.splits prod.splits if_splits)

end
