(* ===== verification/Loaders.thy ===== *)
theory Loaders
  imports Watch_Init
begin

text \<open>
  The loaders: \<open>main\<close> of \<open>policies/cache_ext_fifo.c\<close>, \<open>cache_ext_mru.c\<close>,
  \<open>cache_ext_sampling.c\<close>, \<open>cache_ext_get_scan.c\<close>, \<open>cache_ext_s3fifo.c\<close>,
  \<open>cache_ext_mglru.c\<close>, \<open>cache_ext_lhd.c\<close>, \<open>cache_ext_net.c\<close> and of
  \<open>eviction_evo/cache_ext_evolved.c\<close>. Each opens the skeleton of its BPF program, sets the
  watch roots, loads the program, fills the watchlist, attaches the policy and waits. The
  model of a run is its exit code and the log of what it did to the kernel. Shown: a policy is
  attached only with the roots and tags of the resolved directories in place and a watchlist
  that is complete; what exit code 0 says of each loader; that the cleanup mirrors the setup.
\<close>

section \<open>The environment of a run\<close>

text \<open>
  The answers of libbpf and the C library. \<open>le_opts\<close> are the options in the order
  \<open>argp_parse\<close> hands them to \<open>parse_opt\<close>; \<open>le_open\<close> is the descriptor of the control
  group; \<open>le_polls\<close> holds, for each round of LHD's event loop, whether the signal has come
  and what \<open>ring_buffer__poll\<close> returns; the return codes of the others are named after the
  calls. Pointers that may be NULL are booleans.
\<close>

record loader_env =
  le_opts :: "(s32 \<times> string) list"
  le_strtoull :: "string \<Rightarrow> u64 option"
  le_fs :: fs
  le_sigaction :: s32
  le_open :: s32
  le_skel :: bool
  le_set_max_entries :: s32
  le_load :: s32
  le_pin :: s32
  le_ring_buffer :: bool
  le_link :: bool
  le_attach :: s32
  le_polls :: "(bool \<times> s32) list"

text \<open>What a run does to the kernel; attaching carries the state the policy starts from.\<close>

datatype act =
    Set_cache_size u64
  | Set_max_entries u32
  | Pin
  | Unpin
  | Attach_ops watch_state
  | Attach_probes
  | Wait
  | Close s32
  | Free_events bool
  | Destroy_link bool
  | Destroy_skel bool

text \<open>The exit code and the log; \<open>None\<close> for a run that does not end.\<close>

type_synonym run = "(s32 \<times> act list) option"

abbreviation exit_with :: "s32 \<Rightarrow> run" where
  "exit_with ret \<equiv> Some (ret, [])"

abbreviation logged :: "act list \<Rightarrow> run \<Rightarrow> run" where
  "logged tr r \<equiv> map_option (apsnd ((@) tr)) r"

section \<open>The command line\<close>

record cmdline_args =
  arg_watch_dir :: "string option"
  arg_dual_pair :: "string option"
  arg_cgroup_path :: "string option"
  arg_cgroup_size :: u64

definition no_args :: cmdline_args where
  "no_args = \<lparr>arg_watch_dir = None, arg_dual_pair = None, arg_cgroup_path = None, arg_cgroup_size = 0\<rparr>"

definition ARGP_ERR_UNKNOWN :: s32 where
  "ARGP_ERR_UNKNOWN = 7"

definition parse_opt :: "s32 \<Rightarrow> string \<Rightarrow> cmdline_args \<Rightarrow> s32 \<times> cmdline_args" where
  "parse_opt key arg args =
     (if key = 119 then (0, args\<lparr>arg_watch_dir := Some arg\<rparr>)
      else if key = 1002 then (0, args\<lparr>arg_dual_pair := Some arg\<rparr>)
      else if key = 99 then (0, args\<lparr>arg_cgroup_path := Some arg\<rparr>)
      else (ARGP_ERR_UNKNOWN, args))"

definition s3fifo_parse_opt :: "(string \<Rightarrow> u64 option) \<Rightarrow> s32 \<Rightarrow> string \<Rightarrow> cmdline_args \<Rightarrow> s32 \<times> cmdline_args" where
  "s3fifo_parse_opt strtoull key arg args =
     (if key = 119 then (0, args\<lparr>arg_watch_dir := Some arg\<rparr>)
      else if key = 1002 then (0, args\<lparr>arg_dual_pair := Some arg\<rparr>)
      else if key = 115 then
        (0, args\<lparr>arg_cgroup_size := (case strtoull arg of None \<Rightarrow> 0 | Some n \<Rightarrow> n)\<rparr>)
      else if key = 99 then (0, args\<lparr>arg_cgroup_path := Some arg\<rparr>)
      else (ARGP_ERR_UNKNOWN, args))"

text \<open>
  \<open>argp_parse\<close> gives each option of the command line to the callback. A key the callback does
  not know makes \<open>argp\<close> print the usage and end the process; the model skips such keys and
  speaks of runs without them.
\<close>

definition argp_parse :: "(s32 \<Rightarrow> string \<Rightarrow> cmdline_args \<Rightarrow> s32 \<times> cmdline_args) \<Rightarrow> (s32 \<times> string) list \<Rightarrow> cmdline_args" where
  "argp_parse p opts = fold (\<lambda>(key, arg) args. snd (p key arg args)) opts no_args"

definition parse_args :: "loader_env \<Rightarrow> s32 \<times> cmdline_args" where
  "parse_args env =
     (let args = argp_parse parse_opt (le_opts env)
      in if arg_cgroup_path args = None then (1, args) else (0, args))"

definition s3fifo_parse_args :: "loader_env \<Rightarrow> s32 \<times> cmdline_args" where
  "s3fifo_parse_args env =
     (let args = argp_parse (s3fifo_parse_opt (le_strtoull env)) (le_opts env)
      in if arg_watch_dir args = None \<and> arg_dual_pair args = None then (1, args)
         else if arg_cgroup_size args = 0 then (1, args)
         else if arg_cgroup_path args = None then (1, args)
         else (0, args))"

section \<open>Steps the loaders share\<close>

text \<open>Resolve the watch directories and read the numbers of their inodes, or exit with 1.\<close>

definition watch_setup :: "loader_env \<Rightarrow> cmdline_args \<Rightarrow>
    (string \<Rightarrow> string \<Rightarrow> bool \<Rightarrow> u64 \<Rightarrow> u64 \<Rightarrow> run) \<Rightarrow> run" where
  "watch_setup env args k =
     (case cache_ext_resolve_watch_paths (le_fs env) (arg_watch_dir args) (arg_dual_pair args) of
        None \<Rightarrow> exit_with 1
      | Some (path1, path2, dual) \<Rightarrow>
          (case cache_ext_watch_root_stat (le_fs env) path1 path2 dual of
             None \<Rightarrow> exit_with 1
           | Some (ino1, ino2) \<Rightarrow> k path1 path2 dual ino1 ino2))"

text \<open>The read-only data and the map of the program that is about to be loaded.\<close>

definition rodata :: "u64 \<Rightarrow> u64 \<Rightarrow> bool \<Rightarrow> (u64, u32) hmap \<Rightarrow> watch_state" where
  "rodata ino1 ino2 dual m = set_watch_root_inos ino1 ino2 dual
     \<lparr>watch_root_ino_1 = 0, watch_root_ino_2 = 0, client_tag_1 = 1, client_tag_2 = 2, inode_watchlist = m\<rparr>"

definition fill_watchlist :: "loader_env \<Rightarrow> string \<Rightarrow> string \<Rightarrow> bool \<Rightarrow> bool \<Rightarrow>
    (s32 \<Rightarrow> (u64, u32) hmap \<Rightarrow> run) \<Rightarrow> run" where
  "fill_watchlist env path1 path2 dual recursive k =
     (case cache_ext_init_inode_watch_map (le_fs env) path1 path2 dual recursive empty_walk of
        None \<Rightarrow> None
      | Some (ret, w) \<Rightarrow> k ret (ws_map w))"

text \<open>The code behind the label \<open>cleanup\<close>; a destroyed NULL does nothing.\<close>

definition cleanup :: "loader_env \<Rightarrow> bool \<Rightarrow> bool \<Rightarrow> s32 \<Rightarrow> run" where
  "cleanup env link skel ret = Some (ret, [Close (le_open env), Destroy_link link, Destroy_skel skel])"

section \<open>The loaders\<close>

definition fifo_main :: "loader_env \<Rightarrow> run" where
  "fifo_main env =
     (let (bad, args) = parse_args env
      in if bad \<noteq> 0 then exit_with 1
         else if le_sigaction env \<noteq> 0 then exit_with 1
         else watch_setup env args (\<lambda>path1 path2 dual ino1 ino2.
           if le_open env <s 0 then exit_with 1
           else if \<not> le_skel env then cleanup env False False 1
           else if le_load env \<noteq> 0 then cleanup env False True 1
           else fill_watchlist env path1 path2 dual True (\<lambda>ret m.
             if ret \<noteq> 0 then cleanup env False True 1
             else if \<not> le_link env then cleanup env False True 1
             else logged [Attach_ops (rodata ino1 ino2 dual m)]
               (if le_attach env \<noteq> 0 then cleanup env True True 1
                else logged [Attach_probes, Wait] (cleanup env True True 0)))))"

text \<open>The probe of the directory watcher is never attached.\<close>

definition mru_main :: "loader_env \<Rightarrow> run" where
  "mru_main env =
     (let (bad, args) = parse_args env
      in if bad \<noteq> 0 then exit_with 1
         else watch_setup env args (\<lambda>path1 path2 dual ino1 ino2.
           if le_open env <s 0 then exit_with 1
           else if \<not> le_skel env then cleanup env False False 1
           else let ret = le_load env
             in if ret \<noteq> 0 then cleanup env False True ret
                else fill_watchlist env path1 path2 dual True (\<lambda>ret m.
                  if ret \<noteq> 0 then cleanup env False True ret
                  else if \<not> le_link env then cleanup env False True ret
                  else logged [Attach_ops (rodata ino1 ino2 dual m), Wait] (cleanup env True True 0))))"

text \<open>Whatever happens after the control group is opened, the exit code is 0.\<close>

definition sampling_main :: "loader_env \<Rightarrow> run" where
  "sampling_main env =
     (let (bad, args) = parse_args env
      in if bad \<noteq> 0 then exit_with 1
         else watch_setup env args (\<lambda>path1 path2 dual ino1 ino2.
           if le_open env <s 0 then exit_with 1
           else if \<not> le_skel env then cleanup env False False 0
           else if le_load env \<noteq> 0 then cleanup env False True 0
           else fill_watchlist env path1 path2 dual True (\<lambda>ret m.
             if ret \<noteq> 0 then cleanup env False True 0
             else if \<not> le_link env then cleanup env False True 0
             else logged [Attach_ops (rodata ino1 ino2 dual m)]
               (if le_attach env \<noteq> 0 then cleanup env True True 0
                else logged [Attach_probes, Wait] (cleanup env True True 0)))))"

definition get_scan_main :: "loader_env \<Rightarrow> run" where
  "get_scan_main env =
     (let (bad, args) = parse_args env
      in if bad \<noteq> 0 then exit_with 1
         else watch_setup env args (\<lambda>path1 path2 dual ino1 ino2.
           if le_open env <s 0 then exit_with 1
           else if \<not> le_skel env then cleanup env False False 1
           else let ret = le_load env
             in if ret \<noteq> 0 then cleanup env False True ret
                else fill_watchlist env path1 path2 dual False (\<lambda>ret m.
                  if ret \<noteq> 0 then cleanup env False True ret
                  else let ret = le_pin env
                    in if ret <s 0 then cleanup env False True ret
                       else logged [Pin]
                         (if \<not> le_link env then logged [Unpin] (cleanup env False True ret)
                          else logged [Attach_ops (rodata ino1 ino2 dual m)]
                            (let ret = le_attach env
                             in if ret \<noteq> 0 then logged [Unpin] (cleanup env True True ret)
                                else logged [Attach_probes, Wait, Unpin] (cleanup env True True 0))))))"

definition mglru_main :: "loader_env \<Rightarrow> run" where
  "mglru_main env =
     (let (bad, args) = parse_args env
      in if bad \<noteq> 0 then exit_with 1
         else watch_setup env args (\<lambda>path1 path2 dual ino1 ino2.
           if le_open env <s 0 then exit_with 1
           else if \<not> le_skel env then cleanup env False False 1
           else let ret = le_load env
             in if ret \<noteq> 0 then cleanup env False True ret
                else fill_watchlist env path1 path2 dual False (\<lambda>ret m.
                  if ret \<noteq> 0 then cleanup env False True ret
                  else if \<not> le_link env then cleanup env False True ret
                  else logged [Attach_ops (rodata ino1 ino2 dual m)]
                    (let ret = le_attach env
                     in if ret \<noteq> 0 then cleanup env True True ret
                        else logged [Attach_probes, Wait] (cleanup env True True 0)))))"

definition page_size :: u64 where
  "page_size = 4096"

text \<open>The size of the ghost map is passed as an unsigned int and loses its upper half.\<close>

definition s3fifo_main :: "loader_env \<Rightarrow> run" where
  "s3fifo_main env =
     (let (bad, args) = s3fifo_parse_args env
      in if bad \<noteq> 0 then exit_with 1
         else if le_sigaction env \<noteq> 0 then exit_with 1
         else watch_setup env args (\<lambda>path1 path2 dual ino1 ino2.
           if le_open env <s 0 then exit_with 1
           else if \<not> le_skel env then cleanup env False False 1
           else let cache_size = arg_cgroup_size args div page_size
             in logged [Set_cache_size cache_size, Set_max_entries (ucast cache_size)]
               (if le_set_max_entries env \<noteq> 0 then cleanup env False True 1
                else if le_load env \<noteq> 0 then cleanup env False True 1
                else fill_watchlist env path1 path2 dual True (\<lambda>ret m.
                  if ret \<noteq> 0 then cleanup env False True 1
                  else if \<not> le_link env then cleanup env False True 1
                  else logged [Attach_ops (rodata ino1 ino2 dual m)]
                    (if le_attach env \<noteq> 0 then cleanup env True True 1
                     else logged [Attach_probes, Wait] (cleanup env True True 0))))))"

text \<open>
  LHD's event loop, with the value of \<open>ret\<close> before each test of the signal's flag; it runs
  on as long as polls succeed and no signal comes. The second component is the label left
  by: the end of the loop, or \<open>cleanup\<close>.
\<close>

definition EINTR :: s32 where
  "EINTR = 4"

fun poll_loop :: "(bool \<times> s32) list \<Rightarrow> s32 \<Rightarrow> s32 option" where
  "poll_loop [] ret = None"
| "poll_loop ((exiting, polled) # rounds) ret =
     (if exiting then Some ret
      else if polled = - EINTR then Some 0
      else if polled <s 0 then Some 1
      else poll_loop rounds 0)"

text \<open>The callback of the ring buffer: the count of events and the result of the BPF program.\<close>

definition handle_event :: "s32 \<Rightarrow> s64 \<Rightarrow> s32 \<times> s64" where
  "handle_event test_run num_reconfigurations = (test_run, num_reconfigurations + 1)"

definition lhd_cleanup :: "loader_env \<Rightarrow> bool \<Rightarrow> bool \<Rightarrow> bool \<Rightarrow> s32 \<Rightarrow> run" where
  "lhd_cleanup env events link skel ret =
     Some (ret, [Close (le_open env), Free_events events, Destroy_link link, Destroy_skel skel])"

definition lhd_main :: "loader_env \<Rightarrow> run" where
  "lhd_main env =
     (let (bad, args) = parse_args env
      in if bad \<noteq> 0 then exit_with 1
         else if le_sigaction env \<noteq> 0 then exit_with 1
         else watch_setup env args (\<lambda>path1 path2 dual ino1 ino2.
           if le_open env <s 0 then exit_with 1
           else if \<not> le_skel env then lhd_cleanup env False False False 1
           else if le_load env \<noteq> 0 then lhd_cleanup env False False True 1
           else fill_watchlist env path1 path2 dual False (\<lambda>ret m.
             if ret \<noteq> 0 then lhd_cleanup env False False True 1
             else if \<not> le_ring_buffer env then lhd_cleanup env False False True 1
             else if \<not> le_link env then lhd_cleanup env True False True 1
             else logged [Attach_ops (rodata ino1 ino2 dual m)]
               (if le_attach env \<noteq> 0 then lhd_cleanup env True True True 1
                else logged [Attach_probes, Wait]
                  (case poll_loop (le_polls env) 1 of
                     None \<Rightarrow> None
                   | Some ret \<Rightarrow> lhd_cleanup env True True True ret)))))"

text \<open>The two loaders without a cleanup label leave it to the end of the process.\<close>

definition net_main :: "loader_env \<Rightarrow> run" where
  "net_main env =
     (let (bad, args) = parse_args env
      in if bad \<noteq> 0 then exit_with 1
         else watch_setup env args (\<lambda>path1 path2 dual ino1 ino2.
           if \<not> le_skel env then exit_with 1
           else if le_load env \<noteq> 0 then exit_with 1
           else fill_watchlist env path1 path2 dual True (\<lambda>ret m.
             if ret \<noteq> 0 then exit_with 1
             else if le_open env <s 0 then exit_with 1
             else if \<not> le_link env then exit_with 1
             else logged [Attach_ops (rodata ino1 ino2 dual m)]
               (if le_attach env \<noteq> 0 then exit_with 1
                else Some (0, [Attach_probes, Wait, Destroy_link True, Destroy_skel True, Close (le_open env)])))))"

definition validate_dir :: "fs \<Rightarrow> string \<Rightarrow> string option" where
  "validate_dir fs dir =
     (if \<not> fs_access fs dir then None
      else case fs_realpath fs dir of
        None \<Rightarrow> None
      | Some full \<Rightarrow> if 128 < length full then None else Some full)"

text \<open>The evolved loader resolves its directories itself.\<close>

definition evolved_paths :: "fs \<Rightarrow> cmdline_args \<Rightarrow> (string \<times> string \<times> bool) option" where
  "evolved_paths fs args =
     (case (arg_dual_pair args, arg_watch_dir args) of
        (Some _, Some _) \<Rightarrow> None
      | (None, None) \<Rightarrow> None
      | (Some pair, None) \<Rightarrow>
          (case validate_dir fs pair of
             None \<Rightarrow> None
           | Some pair_root \<Rightarrow>
               (case validate_dir fs (filepath pair_root ''client1'') of
                  None \<Rightarrow> None
                | Some path1 \<Rightarrow>
                    (case validate_dir fs (filepath pair_root ''client2'') of
                       None \<Rightarrow> None
                     | Some path2 \<Rightarrow> Some (path1, path2, True))))
      | (None, Some dir) \<Rightarrow>
          (case validate_dir fs dir of None \<Rightarrow> None | Some path1 \<Rightarrow> Some (path1, [], False)))"

definition evolved_main :: "loader_env \<Rightarrow> run" where
  "evolved_main env =
     (let (bad, args) = parse_args env
      in if bad \<noteq> 0 then exit_with 1
         else case evolved_paths (le_fs env) args of
           None \<Rightarrow> exit_with 1
         | Some (path1, path2, dual) \<Rightarrow>
             (case cache_ext_watch_root_stat (le_fs env) path1 path2 dual of
                None \<Rightarrow> exit_with 1
              | Some (ino1, ino2) \<Rightarrow>
                  if \<not> le_skel env then exit_with 1
                  else if le_load env \<noteq> 0 then exit_with 1
                  else fill_watchlist env path1 path2 dual True (\<lambda>ret m.
                    if ret \<noteq> 0 then exit_with 1
                    else if le_open env <s 0 then exit_with 1
                    else if \<not> le_link env then exit_with 1
                    else logged [Attach_ops (rodata ino1 ino2 dual m)]
                      (if le_attach env \<noteq> 0 then exit_with 1
                       else Some (0, [Attach_probes, Wait, Destroy_link True, Destroy_skel True,
                          Close (le_open env)])))))"

section \<open>What a policy starts from\<close>

lemma argp_parse_dual:
  assumes "\<And>key arg args. arg_dual_pair (snd (p key arg args)) = (if key = 1002 then Some arg else arg_dual_pair args)"
  shows "arg_dual_pair (argp_parse p opts) \<noteq> None \<longleftrightarrow> (\<exists>arg. (1002, arg) \<in> set opts)"
proof -
  have "arg_dual_pair (fold (\<lambda>(key, arg) args. snd (p key arg args)) opts args) \<noteq> None \<longleftrightarrow>
      (\<exists>arg. (1002, arg) \<in> set opts) \<or> arg_dual_pair args \<noteq> None" for args
    by (induction opts arbitrary: args) (auto simp: assms split: if_splits)
  then show ?thesis by (simp add: argp_parse_def no_args_def)
qed

lemma parse_args_dual:
  "arg_dual_pair (snd (parse_args env)) \<noteq> None \<longleftrightarrow> (\<exists>arg. (1002, arg) \<in> set (le_opts env))"
  "arg_dual_pair (snd (s3fifo_parse_args env)) \<noteq> None \<longleftrightarrow> (\<exists>arg. (1002, arg) \<in> set (le_opts env))"
proof -
  have a: "snd (parse_args env) = argp_parse parse_opt (le_opts env)"
    "snd (s3fifo_parse_args env) = argp_parse (s3fifo_parse_opt (le_strtoull env)) (le_opts env)"
    by (simp_all add: parse_args_def s3fifo_parse_args_def Let_def)
  show "arg_dual_pair (snd (parse_args env)) \<noteq> None \<longleftrightarrow> (\<exists>arg. (1002, arg) \<in> set (le_opts env))"
    unfolding a by (rule argp_parse_dual) (simp add: parse_opt_def)
  show "arg_dual_pair (snd (s3fifo_parse_args env)) \<noteq> None \<longleftrightarrow> (\<exists>arg. (1002, arg) \<in> set (le_opts env))"
    unfolding a by (rule argp_parse_dual) (simp add: s3fifo_parse_opt_def)
qed

text \<open>
  The watch roots are two existing directories (one without \<open>--dual_pair\<close>) and the
  watchlist holds what is listed below them.
\<close>

definition starts_ok :: "loader_env \<Rightarrow> bool \<Rightarrow> watch_state \<Rightarrow> bool" where
  "starts_ok env recursive ws \<longleftrightarrow> (\<exists>path1 path2 dual.
     (dual \<longleftrightarrow> (\<exists>arg. (1002, arg) \<in> set (le_opts env))) \<and>
     fs_stat (le_fs env) path1 = Some (True, watch_root_ino_1 ws) \<and>
     (if dual then fs_stat (le_fs env) path2 = Some (True, watch_root_ino_2 ws) else watch_root_ino_2 ws = 0) \<and>
     client_tag_1 ws = 1 \<and> client_tag_2 ws = 2 \<and>
     (\<forall>ino. inode_get_client_tag ws ino =
       (if dual \<and> listed (le_fs env) True path2 ino then 2
        else if listed (le_fs env) (dual \<or> recursive) path1 ino then 1 else 0)))"

lemma init_watchlist:
  assumes "cache_ext_init_inode_watch_map fs path1 path2 dual recursive s = Some (0, w)" "ws_map s = []"
  shows "map_of (ws_map w) ino =
    (if dual \<and> listed fs True path2 ino then Some 2
     else if listed fs (dual \<or> recursive) path1 ino then Some 1 else None)"
proof (cases dual)
  case True
  then obtain s1 where w: "initialize_watch_dir_map_tagged fs path1 True 1 s = Some (0, s1)"
    "initialize_watch_dir_map_tagged fs path2 True 2 s1 = Some (0, w)"
    using assms(1) by (auto simp: cache_ext_init_inode_watch_map_def initialize_dual_watch_dir_maps_def
        split: option.splits if_splits)
  show ?thesis using walk_tags [OF w(1), of ino] walk_tags [OF w(2), of ino] assms(2) True by simp
next
  case False
  then show ?thesis
    using assms walk_tags [of fs path1 recursive 1 s w ino]
    by (simp add: cache_ext_init_inode_watch_map_def initialize_watch_dir_map_def)
qed

lemma starts_okI:
  assumes "dual \<longleftrightarrow> (\<exists>arg. (1002, arg) \<in> set (le_opts env))"
    and "cache_ext_watch_root_stat (le_fs env) path1 path2 dual = Some (ino1, ino2)"
    and "cache_ext_init_inode_watch_map (le_fs env) path1 path2 dual recursive empty_walk = Some (0, w)"
  shows "starts_ok env recursive (rodata ino1 ino2 dual (ws_map w))"
proof -
  have "map_of (ws_map w) ino =
    (if dual \<and> listed (le_fs env) True path2 ino then Some 2
     else if listed (le_fs env) (dual \<or> recursive) path1 ino then Some 1 else None)" for ino
    by (rule init_watchlist [OF assms(3)]) (simp add: empty_walk_def)
  then show ?thesis
    unfolding starts_ok_def
    by (intro exI [of _ path1] exI [of _ path2] exI [of _ dual])
      (use assms(1) watch_root_stat_dirs [OF assms(2)] in
        \<open>auto simp: rodata_def set_watch_root_inos_def inode_get_client_tag_eq\<close>)
qed

text \<open>
  A run all of whose attachments start from a good state, and how the shared steps keep it.
\<close>

definition attaches :: "(watch_state \<Rightarrow> bool) \<Rightarrow> run \<Rightarrow> bool" where
  "attaches P r \<longleftrightarrow> (\<forall>ret log ws. r = Some (ret, log) \<longrightarrow> Attach_ops ws \<in> set log \<longrightarrow> P ws)"

named_theorems attaches_rules

lemma attaches_exit [attaches_rules]:
  "attaches P (cleanup env link skel ret)" "attaches P (lhd_cleanup env events link skel ret)"
  "attaches P None" "attaches P (Some (ret, log)) \<longleftrightarrow> (\<forall>ws. Attach_ops ws \<in> set log \<longrightarrow> P ws)"
  by (auto simp: attaches_def cleanup_def lhd_cleanup_def)

lemma attaches_logged [attaches_rules]:
  "attaches P (logged tr r) \<longleftrightarrow> r = None \<or> (\<forall>ws. Attach_ops ws \<in> set tr \<longrightarrow> P ws) \<and> attaches P r"
  by (cases r) (auto simp: attaches_def)

lemma attaches_setup:
  assumes "\<And>path1 path2 dual ino1 ino2.
      cache_ext_resolve_watch_paths (le_fs env) (arg_watch_dir args) (arg_dual_pair args) = Some (path1, path2, dual) \<Longrightarrow>
      cache_ext_watch_root_stat (le_fs env) path1 path2 dual = Some (ino1, ino2) \<Longrightarrow>
      attaches P (k path1 path2 dual ino1 ino2)"
  shows "attaches P (watch_setup env args k)"
  using assms by (auto simp: watch_setup_def attaches_exit split: option.split)

lemma attaches_fill:
  assumes "\<And>ret w. cache_ext_init_inode_watch_map (le_fs env) path1 path2 dual recursive empty_walk = Some (ret, w) \<Longrightarrow>
      attaches P (k ret (ws_map w))"
  shows "attaches P (fill_watchlist env path1 path2 dual recursive k)"
  using assms by (auto simp: fill_watchlist_def attaches_exit split: option.split)

definition loaders :: "((loader_env \<Rightarrow> run) \<times> bool) list" where
  "loaders = [(fifo_main, True), (mru_main, True), (sampling_main, True), (get_scan_main, False),
     (s3fifo_main, True), (mglru_main, False), (lhd_main, False), (net_main, True), (evolved_main, True)]"

lemma setup_starts_ok:
  assumes "cache_ext_resolve_watch_paths (le_fs env) (arg_watch_dir args) (arg_dual_pair args) = Some (path1, path2, dual)"
    and "cache_ext_watch_root_stat (le_fs env) path1 path2 dual = Some (ino1, ino2)"
    and "cache_ext_init_inode_watch_map (le_fs env) path1 path2 dual recursive empty_walk = Some (0, w)"
    and "args \<in> {snd (parse_args env), snd (s3fifo_parse_args env)}"
  shows "starts_ok env recursive (rodata ino1 ino2 dual (ws_map w))"
proof (rule starts_okI [OF _ assms(2,3)])
  show "dual \<longleftrightarrow> (\<exists>arg. (1002, arg) \<in> set (le_opts env))"
    using resolve_modes(2) [OF assms(1)] assms(4) parse_args_dual [of env] by (elim insertE) simp_all
qed

lemma loader_attaches:
  "attaches (starts_ok env True) (fifo_main env)"
  "attaches (starts_ok env True) (mru_main env)"
  "attaches (starts_ok env True) (sampling_main env)"
  "attaches (starts_ok env False) (get_scan_main env)"
  "attaches (starts_ok env True) (s3fifo_main env)"
  "attaches (starts_ok env False) (mglru_main env)"
  "attaches (starts_ok env False) (lhd_main env)"
  "attaches (starts_ok env True) (net_main env)"
  by (auto simp: fifo_main_def mru_main_def sampling_main_def get_scan_main_def s3fifo_main_def mglru_main_def
      lhd_main_def net_main_def Let_def split_def attaches_rules setup_starts_ok
      intro!: attaches_setup attaches_fill split: option.split)

lemma evolved_paths_dual:
  "evolved_paths fs args = Some (path1, path2, dual) \<Longrightarrow> dual \<longleftrightarrow> arg_dual_pair args \<noteq> None"
  by (auto simp: evolved_paths_def split: option.splits)

lemma evolved_starts_ok:
  assumes "evolved_paths (le_fs env) (snd (parse_args env)) = Some (path1, path2, dual)"
    and "cache_ext_watch_root_stat (le_fs env) path1 path2 dual = Some (ino1, ino2)"
    and "cache_ext_init_inode_watch_map (le_fs env) path1 path2 dual recursive empty_walk = Some (0, w)"
  shows "starts_ok env recursive (rodata ino1 ino2 dual (ws_map w))"
  using evolved_paths_dual [OF assms(1)] parse_args_dual(1) [of env] by (intro starts_okI [OF _ assms(2,3)]) simp

lemma evolved_attaches: "attaches (starts_ok env True) (evolved_main env)"
  by (auto simp: evolved_main_def Let_def split_def attaches_rules evolved_starts_ok
      intro!: attaches_fill split: option.split)

text \<open>
  C3: whichever loader runs, a policy is attached only with existing directories as its watch
  roots, the tags 1 and 2, and a watchlist that holds exactly what is listed below the roots:
  below the second one with tag 2, below the first with tag 1. GET/SCAN, MGLRU and LHD list
  the files directly in a single watch directory only; with two they list recursively too.
\<close>

theorem attached_watchlist_complete:
  assumes "(main, recursive) \<in> set loaders" "main env = Some (ret, log)" "Attach_ops ws \<in> set log"
  shows "starts_ok env recursive ws"
proof -
  have "attaches (starts_ok env recursive) (main env)"
    using assms(1) loader_attaches evolved_attaches by (auto simp: loaders_def)
  then show ?thesis using assms(2,3) by (auto simp: attaches_def)
qed

definition demo_env :: loader_env where
  "demo_env = \<lparr>le_opts = [(119, ''/a''), (99, ''/cg'')], le_strtoull = (\<lambda>s. None), le_fs = demo_fs,
     le_sigaction = 0, le_open = 3, le_skel = True, le_set_max_entries = 0, le_load = 0, le_pin = 0,
     le_ring_buffer = True, le_link = True, le_attach = 0, le_polls = [(False, 1), (True, 0)]\<rparr>"

lemma demo_setup:
  "le_open env = 3 \<Longrightarrow> le_opts env = [(119, ''/a''), (99, ''/cg'')] \<Longrightarrow> le_fs env = demo_fs \<Longrightarrow>
   watch_setup env (snd (parse_args env)) k = k ''/a'' [] False 7 0"
  by (simp add: watch_setup_def parse_args_def argp_parse_def parse_opt_def no_args_def
      cache_ext_resolve_watch_paths_def cache_ext_watch_root_stat_def demo_fs_def)

lemma demo_parse:
  "le_opts env = [(119, ''/a''), (99, ''/cg'')] \<Longrightarrow> fst (parse_args env) = 0"
  by (simp add: parse_args_def argp_parse_def parse_opt_def no_args_def)

lemma demo_fill:
  "le_fs env = demo_fs \<Longrightarrow> fill_watchlist env ''/a'' [] False recursive k =
     k 0 (if recursive then [(10, 1), (12, 1), (11, 1)] else [(10, 1)])"
  by (cases recursive) (simp_all add: fill_watchlist_def cache_ext_init_inode_watch_map_def initialize_watch_dir_map_def
      initialize_watch_dir_map_tagged_def walk_fuel_def watch_dir_numeral demo_walk_simps)

lemmas demo_run = demo_setup demo_parse demo_fill cleanup_def split_def Let_def word_sless_alt

theorem attached_watchlist_complete_witness:
  "\<exists>log ws. mru_main demo_env = Some (0, log) \<and> Attach_ops ws \<in> set log \<and> starts_ok demo_env True ws"
proof -
  let ?ws = "rodata 7 0 False [(10, 1), (12, 1), (11, 1)]"
  have r: "mru_main demo_env = Some (0, [Attach_ops ?ws, Wait, Close 3, Destroy_link True, Destroy_skel True])"
    by (simp add: mru_main_def demo_run demo_env_def)
  have "starts_ok demo_env True ?ws"
    by (rule attached_watchlist_complete [of mru_main True demo_env, OF _ r]) (simp_all add: loaders_def)
  with r show ?thesis by auto
qed

section \<open>Exit codes and cleanup\<close>

lemmas loader_mains = fifo_main_def mru_main_def sampling_main_def get_scan_main_def s3fifo_main_def mglru_main_def
  lhd_main_def net_main_def evolved_main_def

lemmas loader_steps = watch_setup_def fill_watchlist_def cleanup_def lhd_cleanup_def Let_def split_def

text \<open>
  What has to go well before a policy is attached, said of the environment alone: the paths
  resolve, the roots can be read, the control group opens, the skeleton loads and the
  watchlist is filled.
\<close>

definition watch_paths :: "loader_env \<Rightarrow> cmdline_args \<Rightarrow> (string \<times> string \<times> bool) option" where
  "watch_paths env args = cache_ext_resolve_watch_paths (le_fs env) (arg_watch_dir args) (arg_dual_pair args)"

definition roots_found :: "loader_env \<Rightarrow> (string \<times> string \<times> bool) option \<Rightarrow> bool" where
  "roots_found env paths \<longleftrightarrow> (case paths of None \<Rightarrow> False
     | Some (path1, path2, dual) \<Rightarrow> cache_ext_watch_root_stat (le_fs env) path1 path2 dual \<noteq> None)"

definition list_filled :: "loader_env \<Rightarrow> bool \<Rightarrow> (string \<times> string \<times> bool) option \<Rightarrow> bool" where
  "list_filled env recursive paths \<longleftrightarrow> (case paths of None \<Rightarrow> False
     | Some (path1, path2, dual) \<Rightarrow>
         map_option fst (cache_ext_init_inode_watch_map (le_fs env) path1 path2 dual recursive empty_walk) = Some 0)"

definition ready :: "loader_env \<Rightarrow> s32 \<times> cmdline_args \<Rightarrow> bool \<Rightarrow> (string \<times> string \<times> bool) option \<Rightarrow> bool" where
  "ready env parsed recursive paths \<longleftrightarrow> fst parsed = 0 \<and> roots_found env paths \<and> \<not> le_open env <s 0
     \<and> le_skel env \<and> le_load env = 0 \<and> list_filled env recursive paths"

text \<open>
  The rounds of LHD's event loop up to one that ends it well: an interrupted poll, or the
  signal, which has to leave time for a first poll.
\<close>

definition served :: "(bool \<times> s32) list \<Rightarrow> bool" where
  "served rounds \<longleftrightarrow> (\<exists>n < length rounds.
     (\<forall>(exiting, polled) \<in> set (take n rounds). \<not> exiting \<and> \<not> polled <s 0)
     \<and> (if fst (rounds ! n) then 0 < n else snd (rounds ! n) = - EINTR))"

lemma ex_less_Suc: "(\<exists>n < Suc m. P n) \<longleftrightarrow> P 0 \<or> (\<exists>n < m. P (Suc n))"
  using less_Suc_eq_0_disj by auto

lemma poll_loop_zero:
  "poll_loop rounds ret = Some 0 \<longleftrightarrow> (\<exists>n < length rounds.
     (\<forall>(exiting, polled) \<in> set (take n rounds). \<not> exiting \<and> \<not> polled <s 0)
     \<and> (if fst (rounds ! n) then 0 < n \<or> ret = 0 else snd (rounds ! n) = - EINTR))"
proof (induction rounds arbitrary: ret)
  case (Cons round rounds)
  have e: "- EINTR <s 0" by (simp add: EINTR_def word_sless_alt)
  show ?case
  proof (cases round)
    case (Pair exiting polled)
    show ?thesis
      using e unfolding Pair length_Cons ex_less_Suc by (cases exiting; cases "polled = - EINTR"; cases "polled <s 0") (simp_all add: Cons.IH)
  qed
qed simp

lemma poll_loop_served: "poll_loop rounds 1 = Some 0 \<longleftrightarrow> served rounds"
  by (simp add: poll_loop_zero served_def)

text \<open>When each loader exits with 0.\<close>

definition exits_well :: "loader_env \<Rightarrow> (run \<times> bool) list" where
  "exits_well env =
     (let parsed = parse_args env; args = snd parsed; s3parsed = s3fifo_parse_args env;
          attached = le_link env \<and> le_attach env = 0
      in [(fifo_main env, le_sigaction env = 0 \<and> ready env parsed True (watch_paths env args) \<and> attached),
          (s3fifo_main env, le_sigaction env = 0 \<and> le_set_max_entries env = 0
             \<and> ready env s3parsed True (watch_paths env (snd s3parsed)) \<and> attached),
          (lhd_main env, le_sigaction env = 0 \<and> ready env parsed False (watch_paths env args)
             \<and> le_ring_buffer env \<and> attached \<and> served (le_polls env)),
          (net_main env, ready env parsed True (watch_paths env args) \<and> attached),
          (evolved_main env, ready env parsed True (evolved_paths (le_fs env) args) \<and> attached),
          (mru_main env, ready env parsed True (watch_paths env args)),
          (get_scan_main env, ready env parsed False (watch_paths env args)
             \<and> (if le_link env then \<not> le_pin env <s 0 \<and> le_attach env = 0 else le_pin env = 0)),
          (mglru_main env, ready env parsed False (watch_paths env args)
             \<and> (le_link env \<longrightarrow> le_attach env = 0))])"

lemmas ready_defs = ready_def roots_found_def list_filled_def watch_paths_def

definition exit_agrees :: "loader_env \<Rightarrow> bool \<Rightarrow> run \<Rightarrow> bool" where
  "exit_agrees env zero r \<longleftrightarrow> (\<forall>ret log. r = Some (ret, log) \<longrightarrow> (ret = 0 \<longleftrightarrow> zero)
    \<and> (ret = 0 \<longrightarrow> ((\<exists>ws. Attach_ops ws \<in> set log) \<longleftrightarrow> le_link env) \<and> (Wait \<in> set log \<longleftrightarrow> le_link env)))"

lemma exit_agrees_run:
  "exit_agrees env zero None"
  "exit_agrees env zero (Some (ret, log)) \<longleftrightarrow> (ret = 0 \<longleftrightarrow> zero)
    \<and> (ret = 0 \<longrightarrow> ((\<exists>ws. Attach_ops ws \<in> set log) \<longleftrightarrow> le_link env) \<and> (Wait \<in> set log \<longleftrightarrow> le_link env))"
  by (simp_all add: exit_agrees_def)

lemma fifo_agrees: "exit_agrees env (le_sigaction env = 0 \<and> ready env (parse_args env) True (watch_paths env (snd (parse_args env))) \<and> le_link env \<and> le_attach env = 0) (fifo_main env)"
  by (auto simp: exit_agrees_run fifo_main_def loader_steps ready_defs split: option.split)

lemma s3fifo_agrees: "exit_agrees env (le_sigaction env = 0 \<and> le_set_max_entries env = 0 \<and> ready env (s3fifo_parse_args env) True (watch_paths env (snd (s3fifo_parse_args env)))
    \<and> le_link env \<and> le_attach env = 0) (s3fifo_main env)"
  by (auto simp: exit_agrees_run s3fifo_main_def loader_steps ready_defs split: option.split)

lemma lhd_agrees: "exit_agrees env (le_sigaction env = 0 \<and> ready env (parse_args env) False (watch_paths env (snd (parse_args env))) \<and> le_ring_buffer env
    \<and> (le_link env \<and> le_attach env = 0) \<and> served (le_polls env)) (lhd_main env)"
  by (auto simp: exit_agrees_run lhd_main_def loader_steps ready_defs poll_loop_served [symmetric] split: option.split)

lemma net_agrees: "exit_agrees env (ready env (parse_args env) True (watch_paths env (snd (parse_args env))) \<and> le_link env \<and> le_attach env = 0) (net_main env)"
  by (auto simp: exit_agrees_run net_main_def loader_steps ready_defs split: option.split)

lemma evolved_agrees: "exit_agrees env (ready env (parse_args env) True (evolved_paths (le_fs env) (snd (parse_args env))) \<and> le_link env \<and> le_attach env = 0) (evolved_main env)"
  by (auto simp: exit_agrees_run evolved_main_def loader_steps ready_defs split: option.split)

lemma mru_agrees: "exit_agrees env (ready env (parse_args env) True (watch_paths env (snd (parse_args env)))) (mru_main env)"
  by (auto simp: exit_agrees_run mru_main_def loader_steps ready_defs split: option.split)

lemma get_scan_agrees: "exit_agrees env (ready env (parse_args env) False (watch_paths env (snd (parse_args env)))
    \<and> (if le_link env then \<not> le_pin env <s 0 \<and> le_attach env = 0 else le_pin env = 0)) (get_scan_main env)"
  by (auto simp: exit_agrees_run get_scan_main_def loader_steps ready_defs split: option.split)

lemma mglru_agrees: "exit_agrees env (ready env (parse_args env) False (watch_paths env (snd (parse_args env))) \<and> (le_link env \<longrightarrow> le_attach env = 0)) (mglru_main env)"
  by (auto simp: exit_agrees_run mglru_main_def loader_steps ready_defs split: option.split)

lemmas exit_agrees_loaders = fifo_agrees s3fifo_agrees lhd_agrees net_agrees evolved_agrees mru_agrees get_scan_agrees
  mglru_agrees

lemma exits_agree: "(run, zero) \<in> set (exits_well env) \<Longrightarrow> exit_agrees env zero run"
  unfolding exits_well_def Let_def list.set insert_iff empty_iff prod.inject
  by (elim disjE conjE FalseE; hypsubst; rule exit_agrees_loaders)

text \<open>
  C29: a run of a loader other than the sampling one exits with 0 exactly under these
  conditions: the setup went well, the policy was attached and so was the probe (MRU has none
  to attach), and LHD's event loop ended by an interrupted poll or, after a first poll, by the
  signal; except that the MRU, GET/SCAN and
  MGLRU loaders also exit with 0 when attaching the policy failed, since the error code they
  return is the one of the last call, which had succeeded. A run with exit code 0 attached the
  policy and waited unless that attachment failed.
\<close>

theorem exit_zero:
  assumes "(run, zero) \<in> set (exits_well env)" and "run = Some (ret, log)"
  shows "(ret = 0 \<longleftrightarrow> zero)
    \<and> (ret = 0 \<longrightarrow> ((\<exists>ws. Attach_ops ws \<in> set log) \<longleftrightarrow> le_link env) \<and> (Wait \<in> set log \<longleftrightarrow> le_link env))"
  using exits_agree [OF assms(1)] assms(2) by (simp add: exit_agrees_def)

text \<open>MRU's run after a failed attachment, and LHD's after a failing poll.\<close>

lemma mru_exit: "(mru_main env, ready env (parse_args env) True (watch_paths env (snd (parse_args env)))) \<in> set (exits_well env)"
  by (simp add: exits_well_def Let_def)

lemma lhd_exit:
  "(lhd_main env, le_sigaction env = 0 \<and> ready env (parse_args env) False (watch_paths env (snd (parse_args env)))
     \<and> le_ring_buffer env \<and> (le_link env \<and> le_attach env = 0) \<and> served (le_polls env)) \<in> set (exits_well env)"
  by (simp add: exits_well_def Let_def)

theorem exit_zero_witness:
  "(\<exists>log. mru_main (demo_env\<lparr>le_link := False\<rparr>) = Some (0, log) \<and> Wait \<notin> set log)
    \<and> (\<exists>ret log. lhd_main (demo_env\<lparr>le_polls := [(False, - 9)]\<rparr>) = Some (ret, log) \<and> ret \<noteq> 0 \<and> Wait \<in> set log)"
proof -
  let ?mru = "demo_env\<lparr>le_link := False\<rparr>" and ?lhd = "demo_env\<lparr>le_polls := [(False, - 9)]\<rparr>"
  have m: "mru_main ?mru = Some (0, [Close 3, Destroy_link False, Destroy_skel True])"
    by (simp add: mru_main_def demo_run demo_env_def)
  have l: "\<exists>ret log. lhd_main ?lhd = Some (ret, log) \<and> Wait \<in> set log"
    by (simp add: lhd_main_def demo_run demo_env_def lhd_cleanup_def EINTR_def)
  have s: "\<not> served (le_polls ?lhd)" by (simp add: served_def EINTR_def)
  show ?thesis
    using exit_zero [OF mru_exit m] exit_zero [OF lhd_exit, of ?lhd] m l s by auto
qed

text \<open>When a loader opens the control group.\<close>

definition opens_cgroup :: "loader_env \<Rightarrow> (run \<times> bool) list" where
  "opens_cgroup env =
     (let found = (\<lambda>parsed. fst parsed = 0 \<and> roots_found env (watch_paths env (snd parsed)) \<and> \<not> le_open env <s 0);
          opened = found (parse_args env)
      in [(fifo_main env, le_sigaction env = 0 \<and> opened), (mru_main env, opened), (sampling_main env, opened),
          (get_scan_main env, opened), (s3fifo_main env, le_sigaction env = 0 \<and> found (s3fifo_parse_args env)),
          (mglru_main env, opened), (lhd_main env, le_sigaction env = 0 \<and> opened)])"

definition undone :: "loader_env \<Rightarrow> act list \<Rightarrow> bool" where
  "undone env log \<longleftrightarrow> Close (le_open env) \<in> set log
     \<and> (Destroy_link True \<in> set log \<longleftrightarrow> (\<exists>ws. Attach_ops ws \<in> set log))
     \<and> (Destroy_skel True \<in> set log \<longleftrightarrow> le_skel env)
     \<and> (Unpin \<in> set log \<longleftrightarrow> Pin \<in> set log)"

definition undoes :: "loader_env \<Rightarrow> bool \<Rightarrow> run \<Rightarrow> bool" where
  "undoes env opened r \<longleftrightarrow>
     (\<forall>ret log. r = Some (ret, log) \<longrightarrow> (if opened then undone env log else log = [] \<and> ret = 1))"

lemma undoes_run:
  "undoes env opened None"
  "undoes env opened (Some (ret, log)) \<longleftrightarrow> (if opened then undone env log else log = [] \<and> ret = 1)"
  by (simp_all add: undoes_def)

lemma cleanup_undoes: "(run, opened) \<in> set (opens_cgroup env) \<Longrightarrow> undoes env opened run"
  unfolding opens_cgroup_def Let_def list.set insert_iff empty_iff
  by (elim disjE; clarsimp) (auto simp: undoes_run undone_def loader_mains loader_steps ready_defs split: option.split)

text \<open>
  C30: the loaders with a cleanup label undo what they did on every path past the opening of
  the control group: it is closed, the link is destroyed exactly when the policy was
  attached, the skeleton exactly when it was opened, and a pinned map is unpinned. A run that
  does not come to open the control group, or fails to, does nothing and exits with 1.
\<close>

theorem loader_cleanup:
  assumes "(run, opened) \<in> set (opens_cgroup env)" and "run = Some (ret, log)"
  shows "if opened then Close (le_open env) \<in> set log
      \<and> (Destroy_link True \<in> set log \<longleftrightarrow> (\<exists>ws. Attach_ops ws \<in> set log))
      \<and> (Destroy_skel True \<in> set log \<longleftrightarrow> le_skel env)
      \<and> (Unpin \<in> set log \<longleftrightarrow> Pin \<in> set log)
    else log = [] \<and> ret = 1"
  using cleanup_undoes [OF assms(1)] assms(2) by (cases opened) (simp_all add: undoes_def undone_def)

theorem loader_cleanup_witness:
  "\<exists>log. get_scan_main (demo_env\<lparr>le_attach := - 1\<rparr>) = Some (- 1, log) \<and> Close 3 \<in> set log
    \<and> Destroy_link True \<in> set log \<and> Unpin \<in> set log"
proof -
  let ?env = "demo_env\<lparr>le_attach := - 1\<rparr>"
  have r: "get_scan_main ?env = Some (- 1,
      [Pin, Attach_ops (rodata 7 0 False [(10, 1)]), Unpin, Close 3, Destroy_link True, Destroy_skel True])"
    by (simp add: get_scan_main_def demo_run demo_env_def)
  from loader_cleanup [of "get_scan_main ?env" _ ?env, OF _ r] r show ?thesis
    by (auto simp: opens_cgroup_def Let_def demo_env_def)
qed

text \<open>LHD's event loop ends with the signal or an interrupted or failing poll.\<close>

lemma poll_loop_ends:
  "(\<exists>ret. poll_loop rounds ret0 = Some ret) \<longleftrightarrow> (\<exists>(exiting, polled) \<in> set rounds. exiting \<or> polled <s 0)"
proof (induction rounds arbitrary: ret0)
  case (Cons round rounds)
  then show ?case by (cases round) (auto simp: EINTR_def word_sless_alt)
qed simp

end
