(* ===== verification/Evolved_Lfu.thy ===== *)
theory Evolved_Lfu
  imports Sampling
begin

text \<open>
  The seed policy \<open>eviction_evo/initial.c\<close> with its evolved block \<open>eviction_evo/LLM2.h\<close>: LFU
  over a sample, with the times of the last two accesses kept per folio. Shown: over every
  run the metadata is a view of the folio's access history since it was inserted (its
  length, its newest and second newest entry); the score is the count plus a bonus for the
  last page of a file, and protects every folio that may not be evicted.
\<close>

record lfu_folio_metadata =
  access_count :: u32
  last_access_ts :: u64
  prev_access_ts :: u64

record initial_state = watch_state +
  initial_meta :: "(u64, lfu_folio_metadata) hmap"
  initial_counters :: "u64 list"
  initial_main_list :: u64

definition initial_meta_cap :: nat where
  "initial_meta_cap = 1000000"

definition SAMPLE_SIZE :: u32 where
  "SAMPLE_SIZE = 20"

definition initial_bump_counter :: "u32 \<Rightarrow> initial_state \<Rightarrow> initial_state" where
  "initial_bump_counter idx s = s\<lparr>initial_counters := counter_bump idx (initial_counters s)\<rparr>"

definition initial_is_folio_relevant :: "'a watch_state_scheme \<Rightarrow> folio option \<Rightarrow> bool" where
  "initial_is_folio_relevant s fo =
     (case fo of
        None \<Rightarrow> False
      | Some f \<Rightarrow> (case mapping f of
          None \<Rightarrow> False
        | Some m \<Rightarrow> (case host m of None \<Rightarrow> False | Some i \<Rightarrow> inode_in_watchlist s (i_ino i))))"

section \<open>The evolved block\<close>

definition initial_is_last_page_in_file :: "folio \<Rightarrow> bool" where
  "initial_is_last_page_in_file f =
     (case mapping f of
        None \<Rightarrow> False
      | Some m \<Rightarrow> (case host m of
          None \<Rightarrow> False
        | Some inode \<Rightarrow>
            if folio_test_large f \<or> folio_test_hugetlb f then False
            else let file_size = i_size_read inode; page_index = folio_index f; page_size = 4096;
                     last_page_index = (file_size + page_size - 1) div page_size - 1
                 in page_index = last_page_index))"

definition initial_score_fn :: "'k \<Rightarrow> folio \<Rightarrow> initial_state \<Rightarrow> s64 \<times> initial_state" where
  "initial_score_fn k f s =
     (case map_of (initial_meta s) (folio_addr f) of
        None \<Rightarrow> (INT64_MAX, s)
      | Some meta \<Rightarrow>
          let score = (ucast (access_count meta) :: s64);
              score = (if initial_is_last_page_in_file f then score + 100000 else score)
          in if \<not> folio_test_uptodate f \<or> \<not> folio_test_lru f then (INT64_MAX, s)
             else if folio_test_dirty f \<or> folio_test_writeback f then (INT64_MAX, s)
             else (score, s))"

section \<open>Hooks\<close>

definition initial_init :: "('k, initial_state) kfuncs \<Rightarrow> u64 \<Rightarrow> 'k \<Rightarrow> initial_state \<Rightarrow>
    s32 \<times> 'k \<times> initial_state" where
  "initial_init K memcg k s =
     (let (l, k1) = kf_new_list K memcg k; s1 = s\<lparr>initial_main_list := l\<rparr>
      in if l = 0 then (- 1, k1, s1) else (0, k1, s1))"

definition initial_evict_folios :: "('k, initial_state) kfuncs \<Rightarrow> evict_ctx \<Rightarrow> u64 \<Rightarrow> 'k \<Rightarrow>
    initial_state \<Rightarrow> evict_ctx \<times> 'k \<times> initial_state" where
  "initial_evict_folios K ctx memcg k s =
     (let s1 = initial_bump_counter 0 s;
          opts = \<lparr>sample_size = SAMPLE_SIZE, select_size = 0\<rparr>;
          (r, ctx', k', s') = kf_list_sample K memcg (initial_main_list s1) initial_score_fn opts ctx k s1
      in (ctx', k', s'))"

definition initial_store :: "('k, initial_state) kfuncs \<Rightarrow> 'k \<Rightarrow> folio \<Rightarrow> lfu_folio_metadata \<Rightarrow>
    initial_state \<Rightarrow> initial_state" where
  "initial_store K k f new_meta s =
     s\<lparr>initial_meta := snd (hmap_update initial_meta_cap (kf_map_err K k (folio_addr f))
        (folio_addr f) new_meta (initial_meta s))\<rparr>"

definition initial_folio_added :: "('k, initial_state) kfuncs \<Rightarrow> folio \<Rightarrow> 'k \<Rightarrow> initial_state \<Rightarrow>
    'k \<times> initial_state" where
  "initial_folio_added K f k s =
     (if \<not> initial_is_folio_relevant s (Some f) then (k, s)
      else let (ret, k1) = kf_list_add_tail K (initial_main_list s) f k
        in if ret \<noteq> 0 then (k1, initial_bump_counter 1 s)
           else let now = kf_ktime_get_ns K k1;
                    new_meta = \<lparr>access_count = 1, last_access_ts = now, prev_access_ts = now\<rparr>
                in (k1, initial_bump_counter 2 (initial_store K k1 f new_meta s)))"

definition initial_folio_accessed :: "('k, initial_state) kfuncs \<Rightarrow> folio \<Rightarrow> 'k \<Rightarrow> initial_state \<Rightarrow>
    'k \<times> initial_state" where
  "initial_folio_accessed K f k s =
     (if \<not> initial_is_folio_relevant s (Some f) then (k, s)
      else let key = folio_addr f in
        case map_of (initial_meta s) key of
          None \<Rightarrow>
            let (ret, k1) = kf_list_add K (initial_main_list s) f k;
                k2 = (if ret \<noteq> 0 then snd (kf_list_move K (initial_main_list s) f False k1) else k1);
                now = kf_ktime_get_ns K k2;
                new_meta = \<lparr>access_count = 1, last_access_ts = now, prev_access_ts = now\<rparr>
            in (k2, initial_bump_counter 3 (initial_store K k2 f new_meta s))
        | Some _ \<Rightarrow>
            let now = kf_ktime_get_ns K k
            in (k, initial_bump_counter 4 (s\<lparr>initial_meta := hmap_modify key
                 (\<lambda>m. m\<lparr>prev_access_ts := last_access_ts m, last_access_ts := now,
                        access_count := access_count m + 1\<rparr>) (initial_meta s)\<rparr>)))"

definition initial_folio_evicted :: "folio \<Rightarrow> 'k \<Rightarrow> initial_state \<Rightarrow> 'k \<times> initial_state" where
  "initial_folio_evicted f k s =
     (if \<not> initial_is_folio_relevant s (Some f) then (k, s)
      else (k, initial_bump_counter 5
             (s\<lparr>initial_meta := snd (hmap_delete (folio_addr f) (initial_meta s))\<rparr>)))"

definition initial_ops :: "('k, initial_state) kfuncs \<Rightarrow> ('k, initial_state) cache_ext_ops" where
  "initial_ops K = \<lparr>
     op_init = initial_init K,
     op_evict_folios = initial_evict_folios K,
     op_folio_added = initial_folio_added K,
     op_folio_accessed = Some (initial_folio_accessed K),
     op_folio_evicted = initial_folio_evicted\<rparr>"

lemma initial_is_folio_relevant_eq [simp]:
  "initial_is_folio_relevant s (Some f) = relevant s f"
  by (simp add: initial_is_folio_relevant_def relevant_def folio_host_def split: option.splits)

lemma initial_is_last_page_eq: "initial_is_last_page_in_file f = is_last_page_in_file f"
  by (simp add: initial_is_last_page_in_file_def is_last_page_in_file_def)

section \<open>The access history\<close>

text \<open>
  The abstract policy keeps, for each tracked folio, the times of the accesses since it was
  inserted, newest first; the metadata is a view of that list.
\<close>

type_synonym history = "u64 \<Rightarrow> u64 list option"

definition lfu_view :: "u64 list \<Rightarrow> lfu_folio_metadata" where
  "lfu_view ts = \<lparr>access_count = of_nat (length ts), last_access_ts = hd ts,
     prev_access_ts = (if length ts = 1 then hd ts else ts ! 1)\<rparr>"

definition views :: "initial_state \<Rightarrow> history \<Rightarrow> bool" where
  "views s h \<longleftrightarrow> (\<forall>x. map_of (initial_meta s) x = map_option lfu_view (h x)) \<and> (\<forall>x. h x \<noteq> Some [])"

definition initial_store_ok :: "('k, initial_state) kfuncs \<Rightarrow> 'k \<Rightarrow> initial_state \<Rightarrow> u64 \<Rightarrow> bool" where
  "initial_store_ok K k s key \<longleftrightarrow> kf_map_err K k key = 0 \<and>
     (map_of (initial_meta s) key \<noteq> None \<or> length (initial_meta s) < initial_meta_cap)"

fun history_step :: "('k, initial_state) kfuncs \<Rightarrow> hook \<Rightarrow> 'k \<times> initial_state \<Rightarrow> history \<Rightarrow> history" where
  "history_step K (Folio_Added f) (k, s) h =
     (let (ret, k1) = kf_list_add_tail K (initial_main_list s) f k
      in if relevant s f \<and> ret = 0 \<and> initial_store_ok K k1 s (folio_addr f)
         then h(folio_addr f \<mapsto> [kf_ktime_get_ns K k1]) else h)"
| "history_step K (Folio_Accessed f) (k, s) h =
     (if \<not> relevant s f then h
      else case h (folio_addr f) of
        Some ts \<Rightarrow> h(folio_addr f \<mapsto> kf_ktime_get_ns K k # ts)
      | None \<Rightarrow>
          let (ret, k1) = kf_list_add K (initial_main_list s) f k;
              k2 = (if ret \<noteq> 0 then snd (kf_list_move K (initial_main_list s) f False k1) else k1)
          in if initial_store_ok K k2 s (folio_addr f)
             then h(folio_addr f \<mapsto> [kf_ktime_get_ns K k2]) else h)"
| "history_step K (Folio_Evicted f) (k, s) h = (if relevant s f then h(folio_addr f := None) else h)"
| "history_step K (Evict_Folios c m) (k, s) h = h"

lemma bump_meta [simp]: "initial_meta (initial_bump_counter i s) = initial_meta s"
  by (simp add: initial_bump_counter_def)

lemma store_lookup:
  "map_of (initial_meta (initial_store K k f v s)) x =
     (if x = folio_addr f \<and> initial_store_ok K k s (folio_addr f) then Some v else map_of (initial_meta s) x)"
  by (auto simp: initial_store_def initial_store_ok_def hmap_update_def E2BIG_def bpf_map_simps)

lemma lfu_view_one: "lfu_view [t] = \<lparr>access_count = 1, last_access_ts = t, prev_access_ts = t\<rparr>"
  by (simp add: lfu_view_def)

lemma lfu_view_Cons:
  "ts \<noteq> [] \<Longrightarrow> lfu_view (t # ts) = (lfu_view ts)\<lparr>prev_access_ts := last_access_ts (lfu_view ts),
     last_access_ts := t, access_count := access_count (lfu_view ts) + 1\<rparr>"
  by (cases ts) (simp_all add: lfu_view_def)

lemma initial_score_state: "snd (initial_score_fn k f s) = s"
  by (simp add: initial_score_fn_def Let_def split: option.splits)

lemma initial_evict_meta:
  assumes "kernel_ok K"
  shows "initial_meta (snd (snd (initial_evict_folios K c m k s))) = initial_meta s"
proof -
  let ?s = "initial_bump_counter 0 s" and ?o = "\<lparr>sample_size = SAMPLE_SIZE, select_size = 0\<rparr>"
  have "initial_meta (snd (snd (snd (kf_list_sample K m (initial_main_list ?s) initial_score_fn ?o c k ?s))))
      = initial_meta s"
    using assms by (rule sample_inv) (simp_all add: initial_score_state)
  then show ?thesis by (simp add: initial_evict_folios_def split_def Let_def)
qed

lemma history_step_views:
  assumes "kernel_ok K" "views s h"
  shows "views (snd (call_hook (initial_ops K) x (k, s))) (history_step K x (k, s) h)"
proof (cases x)
  case (Folio_Added f)
  obtain ret k1 where a: "kf_list_add_tail K (initial_main_list s) f k = (ret, k1)" by force
  show ?thesis
    using assms(2) by (auto simp: Folio_Added initial_ops_def initial_folio_added_def a views_def
        store_lookup lfu_view_one Let_def)
next
  case (Folio_Accessed f)
  show ?thesis
  proof (cases "map_of (initial_meta s) (folio_addr f)")
    case None
    then have "h (folio_addr f) = None" using assms(2) by (simp add: views_def)
    then show ?thesis
      using assms(2) None by (auto simp: Folio_Accessed initial_ops_def initial_folio_accessed_def views_def
          store_lookup lfu_view_one Let_def split_def)
  next
    case (Some meta)
    then obtain ts where h: "h (folio_addr f) = Some ts" "ts \<noteq> []" "meta = lfu_view ts"
      using assms(2) by (cases "h (folio_addr f)") (auto simp: views_def)
    then show ?thesis
      using assms(2) Some by (auto simp: Folio_Accessed initial_ops_def initial_folio_accessed_def views_def
          bpf_map_simps lfu_view_Cons Let_def)
  qed
next
  case (Folio_Evicted f)
  then show ?thesis
    using assms(2) by (auto simp: initial_ops_def initial_folio_evicted_def views_def hash.del_gone hash.del_other)
next
  case (Evict_Folios c m)
  then show ?thesis using assms by (simp add: initial_ops_def initial_evict_meta views_def)
qed

interpretation history: policy_refinement initial_ops history_step views
proof (unfold_locales, goal_cases)
  case (1 K w a h)
  then show ?case using history_step_views [of K "snd w" a h "fst w"] by simp
qed

text \<open>
  C21: over every run of the hooks the metadata of a folio is a view of its access history
  since it was inserted: the number of accesses modulo 2 to the 32, the time of the last one
  and of the one before it (of the only one, while there is just one).
\<close>

theorem metadata_views_history:
  assumes "kernel_ok K" "views s h"
  shows "map_of (initial_meta (snd (run_hooks (initial_ops K) xs (k, s)))) a =
    map_option lfu_view (abs_run (initial_ops K) (history_step K) xs (k, s) h a)"
  using history.run_rel [OF assms(1), of "(k, s)" h xs] assms(2) by (simp add: views_def)

definition demo_initial :: initial_state where
  "demo_initial = watch_state.extend (demo_watch\<lparr>inode_watchlist := [(42, 1)]\<rparr>)
     (initial_state.fields [] (replicate 17 0) 1)"

lemmas demo_initial_simps = demo_initial_def watch_state.defs initial_state.defs demo_watch_def
  relevant_def inode_in_watchlist_def inode_get_client_tag_def

theorem metadata_views_history_witness:
  "map_of (initial_meta (snd (run_hooks (initial_ops list_kfuncs)
     [Folio_Added (clean_folio 2), Folio_Accessed (clean_folio 2)] (demo_kernel\<lparr>lk_now := 7\<rparr>, demo_initial)))) 2
   = Some \<lparr>access_count = 2, last_access_ts = 7, prev_access_ts = 7\<rparr>"
proof -
  have v: "views demo_initial (\<lambda>_. None)" by (simp add: views_def demo_initial_simps)
  show ?thesis
    using metadata_views_history [OF list_kernel_ok v, of "[Folio_Added (clean_folio 2), Folio_Accessed (clean_folio 2)]"
        "demo_kernel\<lparr>lk_now := 7\<rparr>" 2]
    by (simp add: list_kfuncs_def demo_initial_simps demo_kernel_def initial_store_ok_def initial_meta_cap_def
        initial_ops_def initial_folio_added_def Let_def split_def lfu_view_def initial_bump_counter_def
        initial_store_def lk_set_def)
qed

end
