(* ===== verification/Evolved_Sched.thy ===== *)
theory Evolved_Sched
  imports Dir_Watcher
begin

text \<open>
  The scheduler-aware seed policy \<open>eviction_evo/file_initial.c\<close>: per folio the time, count
  and niceness of its accesses, and a probe on \<open>vfs_read\<close> that takes a snapshot of the
  reader's scheduling state. Shown: exactly which folios an eviction nominates, with the
  redundant rules of the callback gone; that a read of a watched file, and no other, takes a
  snapshot; that the metadata map stays within its capacity.
\<close>

text \<open>What the programs read of the current task; the load of its CPU behind a pointer.\<close>

record cfs_rq =
  cfs_nr_running :: u32
  cfs_load_weight :: u64

record task =
  static_prio :: s32
  task_prio :: s32
  se_vruntime :: u64
  se_sum_exec_runtime :: u64
  se_nr_migrations :: u64
  se_cfs_rq :: "cfs_rq option"
  on_cpu :: s32

record sched_folio_metadata =
  sf_last_access_ts :: u64
  sf_access_count :: u32
  accessor_nice :: s32
  accessor_pid :: u32

record sched_state = watch_state +
  sched_meta :: "(u64, sched_folio_metadata) hmap"
  sched_counters :: "u64 list"
  sched_last_read_ts :: u64
  sched_prev_read_ts :: u64
  sched_read_count :: u64
  sched_nice :: s32
  sched_prio :: s32
  sched_static_prio :: s32
  sched_vruntime :: u64
  sched_sum_exec_runtime :: u64
  sched_nr_migrations :: u64
  sched_nr_running :: u32
  sched_cfs_load :: u64
  sched_pid :: u32
  sched_tgid :: u32
  sched_on_cpu :: u32
  sched_main_list :: u64

definition sched_meta_cap :: nat where "sched_meta_cap = 1000000"

definition RECENT_ACCESS_NS :: u64 where "RECENT_ACCESS_NS = 100000000"
definition WORKING_SET_NS :: u64 where "WORKING_SET_NS = 1000000000"
definition HOT_ACCESS_THRESHOLD :: u32 where "HOT_ACCESS_THRESHOLD = 3"
definition HIGH_PRIO_NICE_MAX :: s32 where "HIGH_PRIO_NICE_MAX = 0"

definition sched_bump_counter :: "u32 \<Rightarrow> sched_state \<Rightarrow> sched_state" where
  "sched_bump_counter idx s = s\<lparr>sched_counters := counter_bump idx (sched_counters s)\<rparr>"

definition sched_is_folio_relevant :: "'a watch_state_scheme \<Rightarrow> folio option \<Rightarrow> bool" where
  "sched_is_folio_relevant s fo =
     (case fo of
        None \<Rightarrow> False
      | Some f \<Rightarrow> (case mapping f of
          None \<Rightarrow> False
        | Some m \<Rightarrow> (case host m of None \<Rightarrow> False | Some i \<Rightarrow> inode_in_watchlist s (i_ino i))))"

section \<open>Eviction\<close>

definition sched_evict_cb :: "('k, sched_state) kfuncs \<Rightarrow> 'k \<Rightarrow> s32 \<Rightarrow> folio \<Rightarrow> sched_state \<Rightarrow>
    cb_ret \<times> sched_state" where
  "sched_evict_cb K k idx f s =
     (let now = kf_ktime_get_ns K k; key = folio_addr f in
      case map_of (sched_meta s) key of
        None \<Rightarrow> (EVICT_NODE, s)
      | Some meta \<Rightarrow>
          if folio_test_dirty f \<or> folio_test_writeback f then (CONTINUE_ITER, s)
          else let recently_used = now - sf_last_access_ts meta < RECENT_ACCESS_NS;
                   in_working_set = now - sf_last_access_ts meta < WORKING_SET_NS;
                   is_hot = HOT_ACCESS_THRESHOLD \<le> sf_access_count meta;
                   high_prio = accessor_nice meta \<le>s HIGH_PRIO_NICE_MAX
               in if is_hot \<and> high_prio \<and> in_working_set then (CONTINUE_ITER, s)
                  else if is_hot \<and> recently_used then (CONTINUE_ITER, s)
                  else if sched_nr_running s > 4 \<and> high_prio \<and> in_working_set then (CONTINUE_ITER, s)
                  else if recently_used then (CONTINUE_ITER, s)
                  else (EVICT_NODE, s))"

definition sched_init :: "('k, sched_state) kfuncs \<Rightarrow> u64 \<Rightarrow> 'k \<Rightarrow> sched_state \<Rightarrow> s32 \<times> 'k \<times> sched_state" where
  "sched_init K memcg k s =
     (let (l, k1) = kf_new_list K memcg k; s1 = s\<lparr>sched_main_list := l\<rparr>
      in if l = 0 then (- 1, k1, s1) else (0, k1, s1))"

definition sched_evict_folios :: "('k, sched_state) kfuncs \<Rightarrow> evict_ctx \<Rightarrow> u64 \<Rightarrow> 'k \<Rightarrow> sched_state \<Rightarrow>
    evict_ctx \<times> 'k \<times> sched_state" where
  "sched_evict_folios K ctx memcg k s =
     (let s1 = sched_bump_counter 0 s;
          (r, ctx', k', s') = kf_list_iterate K memcg (sched_main_list s1) (sched_evict_cb K) ctx k s1
      in (ctx', k', s'))"

section \<open>Tracking\<close>

text \<open>\<open>T k\<close> is the task that runs when the kernel is in state \<open>k\<close>.\<close>

definition task_nice :: "task \<Rightarrow> s32" where
  "task_nice t = static_prio t - 120"

definition current_tgid :: "('k, 's) kfuncs \<Rightarrow> 'k \<Rightarrow> u32" where
  "current_tgid K k = ucast (drop_bit 32 (kf_current_pid_tgid K k))"

definition sched_store :: "('k, sched_state) kfuncs \<Rightarrow> 'k \<Rightarrow> folio \<Rightarrow> sched_folio_metadata \<Rightarrow>
    sched_state \<Rightarrow> sched_state" where
  "sched_store K k f new_meta s =
     s\<lparr>sched_meta := snd (hmap_update sched_meta_cap (kf_map_err K k (folio_addr f))
        (folio_addr f) new_meta (sched_meta s))\<rparr>"

definition sched_folio_added :: "('k, sched_state) kfuncs \<Rightarrow> ('k \<Rightarrow> task) \<Rightarrow> folio \<Rightarrow> 'k \<Rightarrow> sched_state \<Rightarrow>
    'k \<times> sched_state" where
  "sched_folio_added K T f k s =
     (if \<not> sched_is_folio_relevant s (Some f) then (k, s)
      else let (ret, k1) = kf_list_add_tail K (sched_main_list s) f k
        in if ret \<noteq> 0 then (k1, sched_bump_counter 1 s)
           else let nice = task_nice (T k1); pid = current_tgid K k1;
                    new_meta = \<lparr>sf_last_access_ts = kf_ktime_get_ns K k1, sf_access_count = 1,
                                accessor_nice = nice, accessor_pid = pid\<rparr>
                in (k1, sched_bump_counter 2 (sched_store K k1 f new_meta s)))"

definition sched_folio_accessed :: "('k, sched_state) kfuncs \<Rightarrow> ('k \<Rightarrow> task) \<Rightarrow> folio \<Rightarrow> 'k \<Rightarrow> sched_state \<Rightarrow>
    'k \<times> sched_state" where
  "sched_folio_accessed K T f k s =
     (if \<not> sched_is_folio_relevant s (Some f) then (k, s)
      else let nice = task_nice (T k); pid = current_tgid K k; key = folio_addr f in
        case map_of (sched_meta s) key of
          None \<Rightarrow>
            let (ret, k1) = kf_list_add K (sched_main_list s) f k;
                k2 = (if ret \<noteq> 0 then snd (kf_list_move K (sched_main_list s) f False k1) else k1);
                new_meta = \<lparr>sf_last_access_ts = kf_ktime_get_ns K k2, sf_access_count = 1,
                            accessor_nice = nice, accessor_pid = pid\<rparr>
            in (k2, sched_bump_counter 3 (sched_store K k2 f new_meta s))
        | Some _ \<Rightarrow>
            let s1 = s\<lparr>sched_meta := hmap_modify key
                  (\<lambda>m. m\<lparr>sf_last_access_ts := kf_ktime_get_ns K k, sf_access_count := sf_access_count m + 1,
                         accessor_nice := nice, accessor_pid := pid\<rparr>) (sched_meta s)\<rparr>
            in (snd (kf_list_move K (sched_main_list s1) f False k), sched_bump_counter 4 s1))"

definition sched_folio_evicted :: "('k, sched_state) kfuncs \<Rightarrow> folio \<Rightarrow> 'k \<Rightarrow> sched_state \<Rightarrow>
    'k \<times> sched_state" where
  "sched_folio_evicted K f k s =
     (if \<not> sched_is_folio_relevant s (Some f) then (k, s)
      else let k1 = snd (kf_list_del K f k)
        in (k1, sched_bump_counter 5 (s\<lparr>sched_meta := snd (hmap_delete (folio_addr f) (sched_meta s))\<rparr>)))"

definition sched_ops :: "('k \<Rightarrow> task) \<Rightarrow> ('k, sched_state) kfuncs \<Rightarrow> ('k, sched_state) cache_ext_ops" where
  "sched_ops T K = \<lparr>
     op_init = sched_init K,
     op_evict_folios = sched_evict_folios K,
     op_folio_added = sched_folio_added K T,
     op_folio_accessed = Some (sched_folio_accessed K T),
     op_folio_evicted = sched_folio_evicted K\<rparr>"

section \<open>The probe on \<open>vfs_read\<close>\<close>

text \<open>\<open>file\<close> is the inode number behind the file pointer, \<open>None\<close> for a NULL pointer.\<close>

definition trace_vfs_read :: "('k, sched_state) kfuncs \<Rightarrow> ('k \<Rightarrow> task) \<Rightarrow> u64 option \<Rightarrow> 'k \<Rightarrow> sched_state \<Rightarrow>
    sched_state" where
  "trace_vfs_read K T file k s =
     (case file of
        None \<Rightarrow> s
      | Some ino \<Rightarrow>
          if \<not> inode_in_watchlist s ino then s
          else let s1 = s\<lparr>sched_prev_read_ts := sched_last_read_ts s\<rparr>;
                   s2 = s1\<lparr>sched_last_read_ts := kf_ktime_get_ns K k,
                           sched_read_count := sched_read_count s1 + 1\<rparr>;
                   t = T k;
                   s3 = s2\<lparr>sched_static_prio := static_prio t, sched_prio := task_prio t\<rparr>;
                   s4 = s3\<lparr>sched_nice := sched_static_prio s3 - 120\<rparr>;
                   s5 = s4\<lparr>sched_vruntime := se_vruntime t, sched_sum_exec_runtime := se_sum_exec_runtime t,
                           sched_nr_migrations := se_nr_migrations t\<rparr>;
                   s6 = (case se_cfs_rq t of
                           None \<Rightarrow> s5
                         | Some cfs \<Rightarrow> s5\<lparr>sched_nr_running := cfs_nr_running cfs, sched_cfs_load := cfs_load_weight cfs\<rparr>);
                   pid_tgid = kf_current_pid_tgid K k
               in s6\<lparr>sched_pid := ucast pid_tgid, sched_tgid := ucast (drop_bit 32 pid_tgid),
                     sched_on_cpu := on_cpu t\<rparr>)"

section \<open>What an eviction nominates\<close>

lemma sched_is_folio_relevant_eq [simp]:
  "sched_is_folio_relevant s (Some f) = relevant s f"
  by (simp add: sched_is_folio_relevant_def relevant_def folio_host_def split: option.splits)

text \<open>
  The callback's verdict at time \<open>now\<close>, with the rule that never decides left out: an access
  within the last tenth of a second protects any folio, so it matters nowhere else.
\<close>

definition sched_cold :: "u64 \<Rightarrow> sched_state \<Rightarrow> folio \<Rightarrow> bool" where
  "sched_cold now s f \<longleftrightarrow>
     (case map_of (sched_meta s) (folio_addr f) of
        None \<Rightarrow> True
      | Some meta \<Rightarrow>
          \<not> folio_test_dirty f \<and> \<not> folio_test_writeback f \<and>
          RECENT_ACCESS_NS \<le> now - sf_last_access_ts meta \<and>
          (WORKING_SET_NS \<le> now - sf_last_access_ts meta \<or> \<not> accessor_nice meta \<le>s HIGH_PRIO_NICE_MAX \<or>
           sf_access_count meta < HOT_ACCESS_THRESHOLD \<and> sched_nr_running s \<le> 4))"

definition sched_takes :: "('k, sched_state) kfuncs \<Rightarrow> sched_state \<Rightarrow> ('k \<times> s32 \<times> folio) list \<Rightarrow> folio list" where
  "sched_takes K s vs = map (snd \<circ> snd) (filter (\<lambda>(k, i, f). sched_cold (kf_ktime_get_ns K k) s f) vs)"

lemma sched_cb_eq:
  "sched_evict_cb K k i f s = (if sched_cold (kf_ktime_get_ns K k) s f then EVICT_NODE else CONTINUE_ITER, s)"
proof (cases "map_of (sched_meta s) (folio_addr f)")
  case (Some meta)
  show ?thesis
    by (auto simp: sched_evict_cb_def sched_cold_def Some Let_def not_less [symmetric])
qed (simp add: sched_evict_cb_def sched_cold_def Let_def)

lemma sched_run_cb:
  "run_cb (sched_evict_cb K) vs s =
     (sched_takes K s vs, s)"
  by (induction vs) (auto simp: sched_takes_def sched_cb_eq split_def Let_def)

lemma sched_evict_spec:
  assumes "kernel_ok K"
  shows "\<exists>vs k'. sched_evict_folios K c m k s =
    (nominate (sched_takes K s vs) c, k',
     sched_bump_counter 0 s)"
proof -
  let ?s = "sched_bump_counter 0 s"
  have cold: "sched_cold now ?s f = sched_cold now s f" for now f
    by (simp add: sched_cold_def sched_bump_counter_def split: option.split)
  have takes: "sched_takes K ?s vs = sched_takes K s vs" for vs
    by (simp add: sched_takes_def cold)
  obtain vs r k' where "kf_list_iterate K m (sched_main_list ?s) (sched_evict_cb K) c k ?s =
      (r, nominate (fst (run_cb (sched_evict_cb K) vs ?s)) c, k', snd (run_cb (sched_evict_cb K) vs ?s))"
    using iterate_result [OF assms, of m "sched_main_list ?s" "sched_evict_cb K" c k ?s] by blast
  then have "sched_evict_folios K c m k s =
    (nominate (sched_takes K s vs) c, k', ?s)"
    by (simp add: sched_evict_folios_def sched_run_cb takes)
  then show ?thesis by blast
qed

lemma sched_never_stops: "\<not> may_stop (sched_evict_cb K)"
  by (auto simp: may_stop_def sched_cb_eq)

text \<open>
  C25: an eviction that does not fail runs over the nodes of the list until the request is
  met, or to its end. Of those it visits it nominates exactly the folios that are not
  tracked, and those that are neither dirty nor under writeback, were not accessed within
  the last tenth of a second and, if accessed within the last second by a process of
  niceness 0 or less, have fewer than three accesses while the CPU runs at most four tasks.
  The rule for hot folios touched recently never decides.
\<close>

theorem sched_evict_nominates:
  fixes K :: "('k, sched_state) kfuncs"
  assumes "list_walk K V" and vs: "vs = V m (sched_main_list s) k"
    and ok: "\<not> fst (kf_list_iterate K m (sched_main_list s) (sched_evict_cb K) c k (sched_bump_counter 0 s)) <s 0"
    and run: "sched_evict_folios K c m k s = (c', k', s')"
  shows "\<exists>n. c' = nominate (sched_takes K s (take n vs)) c \<and> (length vs \<le> n \<or> request_met c')
    \<and> s' = sched_bump_counter 0 s"
proof -
  let ?s = "sched_bump_counter 0 s" and ?cb = "sched_evict_cb K"
  have l: "sched_main_list ?s = sched_main_list s" by (simp add: sched_bump_counter_def)
  have takes: "sched_takes K ?s vs = sched_takes K s vs" for vs
    by (simp add: sched_takes_def sched_cold_def sched_bump_counter_def cong: option.case_cong)
  obtain r c1 k1 s1 where it: "kf_list_iterate K m (sched_main_list s) ?cb c k ?s = (r, c1, k1, s1)" by (metis prod_cases4)
  then obtain n where "c1 = nominate (sched_takes K s (take n vs)) c" "s1 = ?s" "length vs \<le> n \<or> request_met c1"
    using list_walk.walks_to_end [OF assms(1) list_walk.iterate [OF assms(1) it] _ sched_never_stops] ok vs
    by (auto simp: sched_run_cb takes)
  moreover have "c' = c1" "s' = s1" using run by (simp_all add: sched_evict_folios_def l it Let_def)
  ultimately show ?thesis by blast
qed

definition demo_sched :: sched_state where
  "demo_sched = watch_state.extend (demo_watch\<lparr>inode_watchlist := [(42, 1)]\<rparr>)
     (sched_state.fields [(2, \<lparr>sf_last_access_ts = 0, sf_access_count = 9, accessor_nice = 5, accessor_pid = 1\<rparr>)]
        (replicate 16 0) 0 0 0 0 0 120 0 0 0 0 0 0 0 0 1)"

lemmas demo_sched_simps = demo_sched_def watch_state.defs sched_state.defs demo_watch_def
  relevant_def inode_in_watchlist_def inode_get_client_tag_def

text \<open>Half a second after its last access folio 2 is taken; folio 1 has no metadata.\<close>

theorem sched_evict_nominates_witness:
  "folios_to_evict (fst (sched_evict_folios list_kfuncs (demo_ctx\<lparr>request_nr_folios_to_evict := 2\<rparr>) 0
     (demo_kernel\<lparr>lk_now := 500000000\<rparr>) demo_sched)) = [dirty_folio 1, clean_folio 2]
   \<and> \<not> sched_cold 50000000 demo_sched (clean_folio 2)"
proof -
  let ?k = "demo_kernel\<lparr>lk_now := 500000000\<rparr>" and ?c = "demo_ctx\<lparr>request_nr_folios_to_evict := 2\<rparr>"
  have t: "\<not> folio_test_dirty (clean_folio 2)" "\<not> folio_test_writeback (clean_folio 2)"
    using demo_folio_flags(1) [of 2] by (simp_all add: evictable_tests)
  have cold: "sched_cold 500000000 demo_sched (clean_folio 2)" "\<not> sched_cold 50000000 demo_sched (clean_folio 2)"
    "sched_cold 500000000 demo_sched (dirty_folio 1)"
    using t by (simp_all add: sched_cold_def demo_sched_simps RECENT_ACCESS_NS_def WORKING_SET_NS_def
        HIGH_PRIO_NICE_MAX_def word_sle_eq)
  obtain c' k' s' where r: "sched_evict_folios list_kfuncs ?c 0 ?k demo_sched = (c', k', s')" by (metis prod_cases3)
  have ok: "\<not> fst (kf_list_iterate list_kfuncs 0 (sched_main_list demo_sched) (sched_evict_cb list_kfuncs) ?c ?k
      (sched_bump_counter 0 demo_sched)) <s 0"
    by (simp add: list_kfuncs_def split_def Let_def)
  have nodes: "lk_nodes 0 (sched_main_list demo_sched) ?k = [(?k, 0, dirty_folio 1), (?k, 1, clean_folio 2)]"
    by (simp add: lk_nodes_def lk_list_def demo_simps demo_sched_simps)
  have now: "kf_ktime_get_ns list_kfuncs ?k = 500000000" by (simp add: list_kfuncs_def)
  have takes: "sched_takes list_kfuncs demo_sched (take n [(?k, 0, dirty_folio 1), (?k, 1, clean_folio 2)])
      = take n [dirty_folio 1, clean_folio 2]" for n
    using cold by (cases n; cases "n - 1") (simp_all add: sched_takes_def now)
  have len: "length [(?k, 0 :: s32, dirty_folio 1), (?k, 1, clean_folio 2)] = 2" by simp
  obtain n where "c' = nominate (take n [dirty_folio 1, clean_folio 2]) ?c" "2 \<le> n \<or> request_met c'"
    using sched_evict_nominates [OF lk.list_walk_axioms refl ok r] unfolding nodes takes len by blast
  then have "folios_to_evict c' = [dirty_folio 1, clean_folio 2]"
    by (cases n; cases "n - 1") (auto simp: request_met_def demo_ctx_def word_le_nat_alt)
  then show ?thesis using r cold(2) by simp
qed

section \<open>The snapshot and the map\<close>

text \<open>A read of an unwatched file changes nothing; a read of a watched one is counted and timed.\<close>

lemma trace_vfs_read_unwatched:
  "\<not> inode_in_watchlist s ino \<Longrightarrow> trace_vfs_read K T (Some ino) k s = s"
  by (simp add: trace_vfs_read_def)

lemma trace_vfs_read_meta [simp]:
  "sched_meta (trace_vfs_read K T file k s) = sched_meta s"
  by (simp add: trace_vfs_read_def Let_def split: option.split)

lemma trace_vfs_read_snapshot:
  assumes "inode_in_watchlist s ino"
  shows "sched_read_count (trace_vfs_read K T (Some ino) k s) = sched_read_count s + 1"
    and "sched_prev_read_ts (trace_vfs_read K T (Some ino) k s) = sched_last_read_ts s"
    and "sched_nice (trace_vfs_read K T (Some ino) k s) = task_nice (T k)"
    and "sched_nr_running (trace_vfs_read K T (Some ino) k s) =
      (case se_cfs_rq (T k) of None \<Rightarrow> sched_nr_running s | Some cfs \<Rightarrow> cfs_nr_running cfs)"
  using assms by (simp_all add: trace_vfs_read_def task_nice_def Let_def split: option.split)

lemma sched_evict_meta:
  "kernel_ok K \<Longrightarrow> sched_meta (snd (snd (sched_evict_folios K c m k s))) = sched_meta s"
  using sched_evict_spec [of K c m k s] by (auto simp: sched_bump_counter_def simp del: sched_evict_folios_def)

interpretation sched: policy "sched_ops T" "\<lambda>K k h s. True" "\<lambda>s. hmap_ok sched_meta_cap (sched_meta s)"
proof (unfold_locales, goal_cases)
  case (1 K k f s)
  then show ?case
    by (auto simp: sched_ops_def sched_folio_added_def sched_store_def sched_bump_counter_def split_def Let_def
        intro: hmap_update_ok)
next
  case (2 K k f s h)
  then show ?case
    by (auto simp: sched_ops_def sched_folio_accessed_def sched_store_def sched_bump_counter_def split_def Let_def
        intro: hmap_update_ok split: option.split)
next
  case (3 K k f s)
  then show ?case
    by (auto simp: sched_ops_def sched_folio_evicted_def sched_bump_counter_def Let_def intro: hmap_delete_ok)
next
  case (4 K k c m s)
  then show ?case by (simp add: sched_ops_def sched_evict_meta)
qed

end
