(* ===== verification/Evolved_Sampling.thy ===== *)
theory Evolved_Sampling
  imports Sampling
begin

text \<open>
  The baseline \<open>eviction_evo/initial_sampling.c\<close>, which its comment calls an exact copy of
  \<open>policies/cache_ext_sampling.bpf.c\<close>: the same state (\<open>sampling_state\<close>) and hooks of its
  own. Shown: every hook but the eviction is equal to the original's; the score differs by a
  bonus for the last page of a file, since the copy compiles with \<open>APP_TYPE = LEVELDB\<close>.
\<close>

definition baseline_APP_TYPE :: app where
  "baseline_APP_TYPE = LEVELDB"

definition baseline_is_folio_relevant :: "'a watch_state_scheme \<Rightarrow> folio option \<Rightarrow> bool" where
  "baseline_is_folio_relevant s fo =
     (case fo of
        None \<Rightarrow> False
      | Some f \<Rightarrow> (case mapping f of
          None \<Rightarrow> False
        | Some m \<Rightarrow> (case host m of
            None \<Rightarrow> False
          | Some i \<Rightarrow> inode_in_watchlist s (i_ino i))))"

definition baseline_init :: "('k, sampling_state) kfuncs \<Rightarrow> u64 \<Rightarrow> 'k \<Rightarrow> sampling_state \<Rightarrow>
    s32 \<times> 'k \<times> sampling_state" where
  "baseline_init K memcg k s =
     (let (l, k1) = kf_new_list K memcg k; s1 = s\<lparr>sampling_list := l\<rparr>
      in if l = 0 then (- 1, k1, s1) else (0, k1, s1))"

definition baseline_folio_added :: "('k, sampling_state) kfuncs \<Rightarrow> folio \<Rightarrow> 'k \<Rightarrow> sampling_state \<Rightarrow>
    'k \<times> sampling_state" where
  "baseline_folio_added K f k s =
     (if \<not> baseline_is_folio_relevant s (Some f) then (k, s)
      else let (ret, k1) = kf_list_add_tail K (sampling_list s) f k in
        if ret \<noteq> 0 then (k1, s)
        else let key = folio_addr f
          in (k1, s\<lparr>sampling_meta := snd (hmap_update sampling_meta_cap (kf_map_err K k1 key) key 1 (sampling_meta s))\<rparr>))"

definition baseline_folio_accessed :: "('k, sampling_state) kfuncs \<Rightarrow> folio \<Rightarrow> 'k \<Rightarrow> sampling_state \<Rightarrow>
    'k \<times> sampling_state" where
  "baseline_folio_accessed K f k s =
     (if \<not> baseline_is_folio_relevant s (Some f) then (k, s)
      else let key = folio_addr f in
        case map_of (sampling_meta s) key of
          None \<Rightarrow>
            let (ret, m) = hmap_update sampling_meta_cap (kf_map_err K k key) key 0 (sampling_meta s)
            in if ret \<noteq> 0 then (k, s\<lparr>sampling_meta := m\<rparr>)
               else case map_of m key of
                 None \<Rightarrow> (k, s\<lparr>sampling_meta := m\<rparr>)
               | Some _ \<Rightarrow> (k, s\<lparr>sampling_meta := hmap_modify key (\<lambda>a. a + 1) m\<rparr>)
        | Some _ \<Rightarrow> (k, s\<lparr>sampling_meta := hmap_modify key (\<lambda>a. a + 1) (sampling_meta s)\<rparr>))"

definition baseline_folio_evicted :: "folio \<Rightarrow> 'k \<Rightarrow> sampling_state \<Rightarrow> 'k \<times> sampling_state" where
  "baseline_folio_evicted f k s =
     (let key = folio_addr f
      in (k, s\<lparr>sampling_meta := snd (hmap_delete key (sampling_meta s))\<rparr>))"

definition baseline_is_last_page_in_file :: "folio \<Rightarrow> bool" where
  "baseline_is_last_page_in_file f =
     (case mapping f of
        None \<Rightarrow> False
      | Some m \<Rightarrow> (case host m of
          None \<Rightarrow> False
        | Some inode \<Rightarrow>
            if folio_test_large f \<or> folio_test_hugetlb f then False
            else let file_size = i_size_read inode; page_index = folio_index f; page_size = 4096;
                     last_page_index = (file_size + page_size - 1) div page_size - 1
                 in page_index = last_page_index))"

definition baseline_lfu_score_fn :: "'k \<Rightarrow> folio \<Rightarrow> sampling_state \<Rightarrow> s64 \<times> sampling_state" where
  "baseline_lfu_score_fn k f s =
     (case map_of (sampling_meta s) (folio_addr f) of
        None \<Rightarrow> (INT64_MAX, s)
      | Some accesses \<Rightarrow>
          let score = accesses;
              score = (if baseline_APP_TYPE = LEVELDB then
                         let is_last_page = baseline_is_last_page_in_file f
                         in if is_last_page then score + 100000 else score
                       else score)
          in if \<not> folio_test_uptodate f \<or> \<not> folio_test_lru f then (INT64_MAX, s)
             else if folio_test_dirty f \<or> folio_test_writeback f then (INT64_MAX, s)
             else (score, s))"

definition baseline_evict_folios :: "('k, sampling_state) kfuncs \<Rightarrow> evict_ctx \<Rightarrow> u64 \<Rightarrow> 'k \<Rightarrow>
    sampling_state \<Rightarrow> evict_ctx \<times> 'k \<times> sampling_state" where
  "baseline_evict_folios K ctx memcg k s =
     (let sampling_opts = \<lparr>sample_size = 20, select_size = 0\<rparr>;
          (r, ctx', k', s') = kf_list_sample K memcg (sampling_list s) baseline_lfu_score_fn sampling_opts ctx k s
      in (ctx', k', s'))"

definition baseline_ops :: "('k, sampling_state) kfuncs \<Rightarrow> ('k, sampling_state) cache_ext_ops" where
  "baseline_ops K = \<lparr>
     op_init = baseline_init K,
     op_evict_folios = baseline_evict_folios K,
     op_folio_added = baseline_folio_added K,
     op_folio_accessed = Some (baseline_folio_accessed K),
     op_folio_evicted = baseline_folio_evicted\<rparr>"

section \<open>The copy against the original\<close>

lemma baseline_is_folio_relevant_eq [simp]:
  "baseline_is_folio_relevant s fo = sampling_is_folio_relevant s fo"
  by (simp add: baseline_is_folio_relevant_def sampling_is_folio_relevant_def split: option.split)

lemma baseline_last_page_eq [simp]: "baseline_is_last_page_in_file f = is_last_page_in_file f"
  by (simp add: baseline_is_last_page_in_file_def is_last_page_in_file_def)

lemma baseline_hooks_eq:
  "baseline_init = sampling_init" "baseline_folio_added = sampling_folio_added"
  "baseline_folio_accessed = sampling_folio_accessed" "baseline_folio_evicted = sampling_folio_evicted"
proof -
  show "baseline_init = sampling_init"
    by (intro ext) (simp add: baseline_init_def sampling_init_def)
  show "baseline_folio_added = sampling_folio_added"
    by (intro ext) (simp add: baseline_folio_added_def sampling_folio_added_def Let_def split: prod.split)
  show "baseline_folio_accessed = sampling_folio_accessed"
    by (intro ext) (simp add: baseline_folio_accessed_def sampling_folio_accessed_def Let_def split: option.split)
  show "baseline_folio_evicted = sampling_folio_evicted"
    by (intro ext) (simp add: baseline_folio_evicted_def sampling_folio_evicted_def)
qed

lemma baseline_score_eq:
  "baseline_lfu_score_fn k f s =
     (let score = fst (bpf_lfu_score_fn k f s)
      in if map_of (sampling_meta s) (folio_addr f) \<noteq> None \<and> evictable f \<and> is_last_page_in_file f
         then score + 100000 else score, s)"
  by (auto simp: baseline_lfu_score_fn_def lfu_score_eq baseline_APP_TYPE_def evictable_tests Let_def
      split: option.splits)

lemma baseline_evict_state:
  assumes "kernel_ok K"
  shows "snd (snd (baseline_evict_folios K c m k s)) = s"
proof -
  let ?o = "\<lparr>sample_size = 20, select_size = 0\<rparr>"
  have "snd (snd (snd (kf_list_sample K m (sampling_list s) baseline_lfu_score_fn ?o c k s))) = s"
    using assms by (rule sample_inv) (simp_all add: baseline_score_eq)
  then show ?thesis by (simp add: baseline_evict_folios_def split_def Let_def)
qed

text \<open>
  C26: the baseline is the sampling policy with one difference: every call leaves the same
  policy state, and every call but an eviction the same kernel state, while the score of a
  tracked, evictable last page of a file is higher by 100000 and every other score equal.
\<close>

theorem baseline_equivalent:
  assumes "kernel_ok K"
  shows "snd (call_hook (baseline_ops K) h (k, s)) = snd (call_hook (sampling_ops K) h (k, s))
    \<and> ((\<exists>c m. h = Evict_Folios c m) \<or> call_hook (baseline_ops K) h (k, s) = call_hook (sampling_ops K) h (k, s))
    \<and> fst (baseline_lfu_score_fn k f s) - fst (bpf_lfu_score_fn k f s) =
      (if map_of (sampling_meta s) (folio_addr f) \<noteq> None \<and> evictable f \<and> is_last_page_in_file f then 100000 else 0)"
  by (cases h) (simp_all add: baseline_ops_def sampling_ops_def baseline_hooks_eq baseline_score_eq Let_def
      baseline_evict_state [OF assms] sampling_evict_state [OF assms])

theorem baseline_equivalent_witness:
  "snd (call_hook (baseline_ops list_kfuncs) (Folio_Accessed (clean_folio 2)) (demo_kernel, demo_sampling)) =
     snd (call_hook (sampling_ops list_kfuncs) (Folio_Accessed (clean_folio 2)) (demo_kernel, demo_sampling))"
  using baseline_equivalent [OF list_kernel_ok, of "Folio_Accessed (clean_folio 2)" demo_kernel demo_sampling] by simp

end
