(* ===== verification/Evolved_Split.thy ===== *)
theory Evolved_Split
  imports Sampling Vulcan
begin

text \<open>
  The multi-client seed policy \<open>eviction_evo/initial_vulcan_split.c\<close> with its evolved block
  \<open>eviction_evo/LLM.h\<close>: LFU over a sample, and, per client tag and feature, statistics
  listeners fed by the folio hooks and by a probe on \<open>tcp_recvmsg\<close>. The listener library
  is a submodule (\<open>vulcan_bpf/\<close>) that is not among the sources: it is the argument \<open>L\<close>. What
  the evolution may change of the listeners' configuration is the argument \<open>G\<close>. Shown, for
  every library and configuration: the maps hold keys of two tags and 17 features only, so
  they never fill up; a listener reads exactly the samples of its own tag and feature; with
  the baseline configuration the probe does nothing.
\<close>

section \<open>The library and the configuration\<close>

record feature_config =
  listener_mask :: u32
  ewma_alpha :: u32
  rw_size :: u32

record folio_config =
  fc_listener_mask :: u32
  fc_ewma_alpha :: u32

record ('mm, 'ew, 'av, 'rw, 'fm) vulcan_lib =
  LISTENER_MINMAX :: u32
  LISTENER_EWMA :: u32
  LISTENER_AVG :: u32
  LISTENER_RW :: u32
  vl_mm_zero :: 'mm
  vl_mm_update :: "'mm \<Rightarrow> s64 \<Rightarrow> 'mm"
  vl_mm_min :: "'mm \<Rightarrow> s64"
  vl_mm_max :: "'mm \<Rightarrow> s64"
  vl_ew_zero :: 'ew
  vl_ew_update :: "'ew \<Rightarrow> s64 \<Rightarrow> u32 \<Rightarrow> 'ew"
  vl_ew_get :: "'ew \<Rightarrow> s64"
  vl_av_zero :: 'av
  vl_av_update :: "'av \<Rightarrow> s64 \<Rightarrow> 'av"
  vl_av_get :: "'av \<Rightarrow> s64"
  vl_rw_zero :: 'rw
  vl_rw_update :: "'rw \<Rightarrow> s64 \<Rightarrow> u32 \<Rightarrow> 'rw"
  vl_rw_latest :: "'rw \<Rightarrow> s64"
  vl_rw_kth_recent :: "'rw \<Rightarrow> u32 \<Rightarrow> s64"
  vl_rw_avg :: "'rw \<Rightarrow> s64"
  vl_rw_count :: "'rw \<Rightarrow> u32"
  vl_folio_init :: "u64 \<Rightarrow> 'fm"
  vl_folio_on_access :: "'fm \<Rightarrow> u64 \<Rightarrow> folio_config \<Rightarrow> 'fm"
  vl_set_client_tag :: "u32 \<Rightarrow> 'fm \<Rightarrow> 'fm"
  vl_client_tag :: "'fm \<Rightarrow> u32"
  vl_access_count :: "'fm \<Rightarrow> u32"

record split_config =
  gf_config :: "u32 \<Rightarrow> feature_config"
  folio_cfg :: folio_config

datatype global_feature =
    GF_SRTT_US | GF_MDEV_US | GF_SND_CWND | GF_SND_SSTHRESH | GF_RCV_WND | GF_PACKETS_OUT
  | GF_TOTAL_RETRANS | GF_RETRANS_OUT | GF_LOST | GF_SEGS_IN | GF_SEGS_OUT | GF_DELIVERED
  | GF_BYTES_RECEIVED | GF_BYTES_ACKED | GF_INTER_ARRIVAL | GF_RECV_COUNT | GF_CLIENT_TAG

definition all_features :: "global_feature list" where
  "all_features = [GF_SRTT_US, GF_MDEV_US, GF_SND_CWND, GF_SND_SSTHRESH, GF_RCV_WND, GF_PACKETS_OUT,
     GF_TOTAL_RETRANS, GF_RETRANS_OUT, GF_LOST, GF_SEGS_IN, GF_SEGS_OUT, GF_DELIVERED,
     GF_BYTES_RECEIVED, GF_BYTES_ACKED, GF_INTER_ARRIVAL, GF_RECV_COUNT, GF_CLIENT_TAG]"

fun gf_index :: "global_feature \<Rightarrow> u32" where
  "gf_index GF_SRTT_US = 0"
| "gf_index GF_MDEV_US = 1"
| "gf_index GF_SND_CWND = 2"
| "gf_index GF_SND_SSTHRESH = 3"
| "gf_index GF_RCV_WND = 4"
| "gf_index GF_PACKETS_OUT = 5"
| "gf_index GF_TOTAL_RETRANS = 6"
| "gf_index GF_RETRANS_OUT = 7"
| "gf_index GF_LOST = 8"
| "gf_index GF_SEGS_IN = 9"
| "gf_index GF_SEGS_OUT = 10"
| "gf_index GF_DELIVERED = 11"
| "gf_index GF_BYTES_RECEIVED = 12"
| "gf_index GF_BYTES_ACKED = 13"
| "gf_index GF_INTER_ARRIVAL = 14"
| "gf_index GF_RECV_COUNT = 15"
| "gf_index GF_CLIENT_TAG = 16"

definition VULCAN_NUM_GLOBAL_FEATURES :: u32 where
  "VULCAN_NUM_GLOBAL_FEATURES = 17"

section \<open>State\<close>

record tag_feature_key =
  tk_client_tag :: u32
  tk_feature_id :: u32

record net_globals =
  ng_last_packet_ts :: u64
  ng_prev_packet_ts :: u64
  ng_recv_count :: u64
  ng_srtt_us :: u32
  ng_mdev_us :: u32
  ng_bytes_received :: u64
  ng_bytes_acked :: u64
  ng_segs_in :: u32
  ng_segs_out :: u32
  ng_delivered :: u32
  ng_snd_cwnd :: u32
  ng_snd_ssthresh :: u32
  ng_rcv_wnd :: u32
  ng_packets_out :: u32
  ng_total_retrans :: u32
  ng_retrans_out :: u32
  ng_lost :: u32

record ('mm, 'ew, 'av, 'rw, 'fm) split_state = watch_state +
  split_meta :: "(u64, 'fm) hmap"
  tgminmax :: "(tag_feature_key, 'mm) hmap"
  tgewma :: "(tag_feature_key, 'ew) hmap"
  tgrw :: "(tag_feature_key, 'rw) hmap"
  tgavg :: "(tag_feature_key, 'av) hmap"
  split_counters :: "u64 list"
  split_main_list :: u64
  split_net :: net_globals

definition split_meta_cap :: nat where "split_meta_cap = 1000000"
definition tag_cap :: nat where "tag_cap = 128"

definition split_bump_counter :: "u32 \<Rightarrow> ('mm, 'ew, 'av, 'rw, 'fm) split_state \<Rightarrow> ('mm, 'ew, 'av, 'rw, 'fm) split_state" where
  "split_bump_counter idx s = s\<lparr>split_counters := counter_bump idx (split_counters s)\<rparr>"

definition split_is_folio_relevant :: "'a watch_state_scheme \<Rightarrow> folio option \<Rightarrow> bool" where
  "split_is_folio_relevant s fo =
     (case fo of
        None \<Rightarrow> False
      | Some f \<Rightarrow> (case mapping f of
          None \<Rightarrow> False
        | Some m \<Rightarrow> (case host m of None \<Rightarrow> False | Some i \<Rightarrow> inode_in_watchlist s (i_ino i))))"

definition folio_client_tag :: "'a watch_state_scheme \<Rightarrow> folio option \<Rightarrow> u32" where
  "folio_client_tag s fo =
     (case fo of
        None \<Rightarrow> 0
      | Some f \<Rightarrow> (case mapping f of
          None \<Rightarrow> 0
        | Some m \<Rightarrow> (case host m of None \<Rightarrow> 0 | Some i \<Rightarrow> inode_get_client_tag s (i_ino i))))"

definition net_client_tag_from_sport :: "u16 \<Rightarrow> u32" where
  "net_client_tag_from_sport sport =
     (if sport = 9100 \<or> sport = 9001 then 1 else if sport = 9101 \<or> sport = 9002 then 2 else 0)"

section \<open>Listeners per tag and feature\<close>

text \<open>
  Look the key up, create a zero entry when there is none (the kernel may refuse), and feed
  the entry if there is one now.
\<close>

definition tag_feed :: "s32 \<Rightarrow> 'v \<Rightarrow> ('v \<Rightarrow> 'v) \<Rightarrow> tag_feature_key \<Rightarrow> (tag_feature_key, 'v) hmap \<Rightarrow>
    (tag_feature_key, 'v) hmap" where
  "tag_feed err zero upd key m =
     (let m1 = (case map_of m key of None \<Rightarrow> snd (hmap_update tag_cap err key zero m) | Some _ \<Rightarrow> m)
      in hmap_modify key upd m1)"

text \<open>\<open>E i key\<close> is the error the kernel raises for a store into the \<open>i\<close>-th of the four maps.\<close>

definition vulcan_tag_update_feature :: "('mm, 'ew, 'av, 'rw, 'fm) vulcan_lib \<Rightarrow> (nat \<Rightarrow> tag_feature_key \<Rightarrow> s32) \<Rightarrow>
    u32 \<Rightarrow> u32 \<Rightarrow> s64 \<Rightarrow> feature_config \<Rightarrow> ('mm, 'ew, 'av, 'rw, 'fm) split_state \<Rightarrow>
    ('mm, 'ew, 'av, 'rw, 'fm) split_state" where
  "vulcan_tag_update_feature L E client_tag feature_id raw_value cfg s =
     (if client_tag = 0 \<or> listener_mask cfg = 0 then s
      else if VULCAN_NUM_GLOBAL_FEATURES \<le> feature_id then s
      else let key = \<lparr>tk_client_tag = client_tag, tk_feature_id = feature_id\<rparr>;
               s1 = (if listener_mask cfg AND LISTENER_MINMAX L \<noteq> 0
                     then s\<lparr>tgminmax := tag_feed (E 0 key) (vl_mm_zero L) (\<lambda>mm. vl_mm_update L mm raw_value) key (tgminmax s)\<rparr>
                     else s);
               s2 = (if listener_mask cfg AND LISTENER_EWMA L \<noteq> 0
                     then s1\<lparr>tgewma := tag_feed (E 1 key) (vl_ew_zero L) (\<lambda>e. vl_ew_update L e raw_value (ewma_alpha cfg)) key (tgewma s1)\<rparr>
                     else s1);
               s3 = (if listener_mask cfg AND LISTENER_AVG L \<noteq> 0
                     then s2\<lparr>tgavg := tag_feed (E 2 key) (vl_av_zero L) (\<lambda>a. vl_av_update L a raw_value) key (tgavg s2)\<rparr>
                     else s2)
           in if listener_mask cfg AND LISTENER_RW L \<noteq> 0
              then s3\<lparr>tgrw := tag_feed (E 3 key) (vl_rw_zero L) (\<lambda>rw. vl_rw_update L rw raw_value (rw_size cfg)) key (tgrw s3)\<rparr>
              else s3)"

text \<open>The accessors share the guard and the lookup.\<close>

definition tag_get :: "u32 \<Rightarrow> u32 \<Rightarrow> (tag_feature_key, 'v) hmap \<Rightarrow> 'v option" where
  "tag_get client_tag feature_id m =
     (if client_tag = 0 \<or> VULCAN_NUM_GLOBAL_FEATURES \<le> feature_id then None
      else map_of m \<lparr>tk_client_tag = client_tag, tk_feature_id = feature_id\<rparr>)"

definition vulcan_tag_get_ewma :: "('mm, 'ew, 'av, 'rw, 'fm) vulcan_lib \<Rightarrow> u32 \<Rightarrow> u32 \<Rightarrow>
    ('mm, 'ew, 'av, 'rw, 'fm) split_state \<Rightarrow> s64" where
  "vulcan_tag_get_ewma L t f s = (case tag_get t f (tgewma s) of None \<Rightarrow> 0 | Some e \<Rightarrow> vl_ew_get L e)"

definition vulcan_tag_get_min :: "('mm, 'ew, 'av, 'rw, 'fm) vulcan_lib \<Rightarrow> u32 \<Rightarrow> u32 \<Rightarrow>
    ('mm, 'ew, 'av, 'rw, 'fm) split_state \<Rightarrow> s64" where
  "vulcan_tag_get_min L t f s = (case tag_get t f (tgminmax s) of None \<Rightarrow> 0 | Some mm \<Rightarrow> vl_mm_min L mm)"

definition vulcan_tag_get_max :: "('mm, 'ew, 'av, 'rw, 'fm) vulcan_lib \<Rightarrow> u32 \<Rightarrow> u32 \<Rightarrow>
    ('mm, 'ew, 'av, 'rw, 'fm) split_state \<Rightarrow> s64" where
  "vulcan_tag_get_max L t f s = (case tag_get t f (tgminmax s) of None \<Rightarrow> 0 | Some mm \<Rightarrow> vl_mm_max L mm)"

definition vulcan_tag_get_avg :: "('mm, 'ew, 'av, 'rw, 'fm) vulcan_lib \<Rightarrow> u32 \<Rightarrow> u32 \<Rightarrow>
    ('mm, 'ew, 'av, 'rw, 'fm) split_state \<Rightarrow> s64" where
  "vulcan_tag_get_avg L t f s = (case tag_get t f (tgavg s) of None \<Rightarrow> 0 | Some a \<Rightarrow> vl_av_get L a)"

definition vulcan_tag_get_latest :: "('mm, 'ew, 'av, 'rw, 'fm) vulcan_lib \<Rightarrow> u32 \<Rightarrow> u32 \<Rightarrow>
    ('mm, 'ew, 'av, 'rw, 'fm) split_state \<Rightarrow> s64" where
  "vulcan_tag_get_latest L t f s = (case tag_get t f (tgrw s) of None \<Rightarrow> 0 | Some rw \<Rightarrow> vl_rw_latest L rw)"

definition vulcan_tag_get_kth_recent :: "('mm, 'ew, 'av, 'rw, 'fm) vulcan_lib \<Rightarrow> u32 \<Rightarrow> u32 \<Rightarrow> u32 \<Rightarrow>
    ('mm, 'ew, 'av, 'rw, 'fm) split_state \<Rightarrow> s64" where
  "vulcan_tag_get_kth_recent L t f n s = (case tag_get t f (tgrw s) of None \<Rightarrow> 0 | Some rw \<Rightarrow> vl_rw_kth_recent L rw n)"

definition vulcan_tag_get_window_avg :: "('mm, 'ew, 'av, 'rw, 'fm) vulcan_lib \<Rightarrow> u32 \<Rightarrow> u32 \<Rightarrow>
    ('mm, 'ew, 'av, 'rw, 'fm) split_state \<Rightarrow> s64" where
  "vulcan_tag_get_window_avg L t f s = (case tag_get t f (tgrw s) of None \<Rightarrow> 0 | Some rw \<Rightarrow> vl_rw_avg L rw)"

definition vulcan_tag_get_window_count :: "('mm, 'ew, 'av, 'rw, 'fm) vulcan_lib \<Rightarrow> u32 \<Rightarrow> u32 \<Rightarrow>
    ('mm, 'ew, 'av, 'rw, 'fm) split_state \<Rightarrow> u32" where
  "vulcan_tag_get_window_count L t f s = (case tag_get t f (tgrw s) of None \<Rightarrow> 0 | Some rw \<Rightarrow> vl_rw_count L rw)"

section \<open>The evolved block\<close>

text \<open>The rows of \<open>gf_configs\<close> that are not written out are zero.\<close>

definition baseline_gf_config :: "u32 \<Rightarrow> feature_config" where
  "baseline_gf_config i =
     (if i \<in> {gf_index GF_SEGS_IN, gf_index GF_SEGS_OUT, gf_index GF_BYTES_RECEIVED, gf_index GF_BYTES_ACKED,
              gf_index GF_CLIENT_TAG}
      then \<lparr>listener_mask = 0, ewma_alpha = 200, rw_size = 4\<rparr>
      else \<lparr>listener_mask = 0, ewma_alpha = 0, rw_size = 0\<rparr>)"

definition baseline_config :: split_config where
  "baseline_config = \<lparr>gf_config = baseline_gf_config, folio_cfg = \<lparr>fc_listener_mask = 0, fc_ewma_alpha = 200\<rparr>\<rparr>"

definition split_SAMPLE_SIZE :: u32 where
  "split_SAMPLE_SIZE = 20"

definition split_APP_TYPE :: app where
  "split_APP_TYPE = GENERIC_APP"

definition split_is_last_page_in_file :: "folio \<Rightarrow> bool" where
  "split_is_last_page_in_file f =
     (case mapping f of
        None \<Rightarrow> False
      | Some m \<Rightarrow> (case host m of
          None \<Rightarrow> False
        | Some inode \<Rightarrow>
            if folio_test_large f \<or> folio_test_hugetlb f then False
            else let file_size = i_size_read inode; page_index = folio_index f; page_size = 4096;
                     last_page_index = (file_size + page_size - 1) div page_size - 1
                 in page_index = last_page_index))"

definition split_score_fn :: "('mm, 'ew, 'av, 'rw, 'fm) vulcan_lib \<Rightarrow> 'k \<Rightarrow> folio \<Rightarrow>
    ('mm, 'ew, 'av, 'rw, 'fm) split_state \<Rightarrow> s64 \<times> ('mm, 'ew, 'av, 'rw, 'fm) split_state" where
  "split_score_fn L k f s =
     (case map_of (split_meta s) (folio_addr f) of
        None \<Rightarrow> (INT64_MAX, s)
      | Some meta \<Rightarrow>
          let score = (ucast (vl_access_count L meta) :: s64);
              score = (if split_APP_TYPE = LEVELDB then
                         let is_last_page = split_is_last_page_in_file f
                         in if is_last_page then score + 100000 else score
                       else score)
          in if \<not> folio_test_uptodate f \<or> \<not> folio_test_lru f then (INT64_MAX, s)
             else if folio_test_dirty f \<or> folio_test_writeback f then (INT64_MAX, s)
             else (score, s))"

section \<open>Hooks\<close>

text \<open>\<open>E k\<close> are the errors of the tag maps when the kernel is in state \<open>k\<close>.\<close>

definition split_init :: "('k, ('mm, 'ew, 'av, 'rw, 'fm) split_state) kfuncs \<Rightarrow> u64 \<Rightarrow> 'k \<Rightarrow>
    ('mm, 'ew, 'av, 'rw, 'fm) split_state \<Rightarrow> s32 \<times> 'k \<times> ('mm, 'ew, 'av, 'rw, 'fm) split_state" where
  "split_init K memcg k s =
     (let (l, k1) = kf_new_list K memcg k; s1 = s\<lparr>split_main_list := l\<rparr>
      in if l = 0 then (- 1, k1, s1) else (0, k1, s1))"

definition split_evict_folios :: "('mm, 'ew, 'av, 'rw, 'fm) vulcan_lib \<Rightarrow>
    ('k, ('mm, 'ew, 'av, 'rw, 'fm) split_state) kfuncs \<Rightarrow> evict_ctx \<Rightarrow> u64 \<Rightarrow> 'k \<Rightarrow>
    ('mm, 'ew, 'av, 'rw, 'fm) split_state \<Rightarrow> evict_ctx \<times> 'k \<times> ('mm, 'ew, 'av, 'rw, 'fm) split_state" where
  "split_evict_folios L K ctx memcg k s =
     (let s1 = split_bump_counter 0 s;
          opts = \<lparr>sample_size = split_SAMPLE_SIZE, select_size = 0\<rparr>;
          (r, ctx', k', s') = kf_list_sample K memcg (split_main_list s1) (split_score_fn L) opts ctx k s1
      in (ctx', k', s'))"

definition split_store :: "('k, ('mm, 'ew, 'av, 'rw, 'fm) split_state) kfuncs \<Rightarrow> 'k \<Rightarrow> folio \<Rightarrow> 'fm \<Rightarrow>
    ('mm, 'ew, 'av, 'rw, 'fm) split_state \<Rightarrow> ('mm, 'ew, 'av, 'rw, 'fm) split_state" where
  "split_store K k f new_meta s =
     s\<lparr>split_meta := snd (hmap_update split_meta_cap (kf_map_err K k (folio_addr f))
        (folio_addr f) new_meta (split_meta s))\<rparr>"

text \<open>Feed the feature \<open>GF_CLIENT_TAG\<close> with a folio's tag.\<close>

definition feed_client_tag :: "('mm, 'ew, 'av, 'rw, 'fm) vulcan_lib \<Rightarrow> split_config \<Rightarrow>
    (nat \<Rightarrow> tag_feature_key \<Rightarrow> s32) \<Rightarrow> u32 \<Rightarrow> ('mm, 'ew, 'av, 'rw, 'fm) split_state \<Rightarrow>
    ('mm, 'ew, 'av, 'rw, 'fm) split_state" where
  "feed_client_tag L G E tag s =
     vulcan_tag_update_feature L E tag (gf_index GF_CLIENT_TAG) (ucast tag) (gf_config G (gf_index GF_CLIENT_TAG)) s"

definition split_folio_added :: "('mm, 'ew, 'av, 'rw, 'fm) vulcan_lib \<Rightarrow> split_config \<Rightarrow>
    ('k \<Rightarrow> nat \<Rightarrow> tag_feature_key \<Rightarrow> s32) \<Rightarrow> ('k, ('mm, 'ew, 'av, 'rw, 'fm) split_state) kfuncs \<Rightarrow> folio \<Rightarrow> 'k \<Rightarrow>
    ('mm, 'ew, 'av, 'rw, 'fm) split_state \<Rightarrow> 'k \<times> ('mm, 'ew, 'av, 'rw, 'fm) split_state" where
  "split_folio_added L G E K f k s =
     (if \<not> split_is_folio_relevant s (Some f) then (k, s)
      else let (ret, k1) = kf_list_add_tail K (split_main_list s) f k
        in if ret \<noteq> 0 then (k1, split_bump_counter 1 s)
           else let new_meta = vl_folio_init L (kf_ktime_get_ns K k1);
                    tag = folio_client_tag s (Some f);
                    s1 = split_store K k1 f (vl_set_client_tag L tag new_meta) s
                in (k1, split_bump_counter 2 (feed_client_tag L G (E k1) tag s1)))"

definition split_folio_accessed :: "('mm, 'ew, 'av, 'rw, 'fm) vulcan_lib \<Rightarrow> split_config \<Rightarrow>
    ('k \<Rightarrow> nat \<Rightarrow> tag_feature_key \<Rightarrow> s32) \<Rightarrow> ('k, ('mm, 'ew, 'av, 'rw, 'fm) split_state) kfuncs \<Rightarrow> folio \<Rightarrow> 'k \<Rightarrow>
    ('mm, 'ew, 'av, 'rw, 'fm) split_state \<Rightarrow> 'k \<times> ('mm, 'ew, 'av, 'rw, 'fm) split_state" where
  "split_folio_accessed L G E K f k s =
     (if \<not> split_is_folio_relevant s (Some f) then (k, s)
      else let key = folio_addr f in
        case map_of (split_meta s) key of
          None \<Rightarrow>
            let (ret, k1) = kf_list_add K (split_main_list s) f k;
                k2 = (if ret \<noteq> 0 then snd (kf_list_move K (split_main_list s) f False k1) else k1);
                new_meta = vl_folio_init L (kf_ktime_get_ns K k2);
                tag = folio_client_tag s (Some f);
                s1 = split_store K k2 f (vl_set_client_tag L tag new_meta) s
            in (k2, split_bump_counter 3 (feed_client_tag L G (E k2) tag s1))
        | Some meta \<Rightarrow>
            let meta' = vl_folio_on_access L meta (kf_ktime_get_ns K k) (folio_cfg G);
                s1 = s\<lparr>split_meta := hmap_modify key (\<lambda>_. meta') (split_meta s)\<rparr>
            in (k, split_bump_counter 4 (feed_client_tag L G (E k) (vl_client_tag L meta') s1)))"

definition split_folio_evicted :: "folio \<Rightarrow> 'k \<Rightarrow> ('mm, 'ew, 'av, 'rw, 'fm) split_state \<Rightarrow>
    'k \<times> ('mm, 'ew, 'av, 'rw, 'fm) split_state" where
  "split_folio_evicted f k s =
     (if \<not> split_is_folio_relevant s (Some f) then (k, s)
      else (k, split_bump_counter 5 (s\<lparr>split_meta := snd (hmap_delete (folio_addr f) (split_meta s))\<rparr>)))"

definition split_ops :: "('mm, 'ew, 'av, 'rw, 'fm) vulcan_lib \<Rightarrow> split_config \<Rightarrow>
    ('k \<Rightarrow> nat \<Rightarrow> tag_feature_key \<Rightarrow> s32) \<Rightarrow> ('k, ('mm, 'ew, 'av, 'rw, 'fm) split_state) kfuncs \<Rightarrow>
    ('k, ('mm, 'ew, 'av, 'rw, 'fm) split_state) cache_ext_ops" where
  "split_ops L G E K = \<lparr>
     op_init = split_init K,
     op_evict_folios = split_evict_folios L K,
     op_folio_added = split_folio_added L G E K,
     op_folio_accessed = Some (split_folio_accessed L G E K),
     op_folio_evicted = split_folio_evicted\<rparr>"

section \<open>The probe on \<open>tcp_recvmsg\<close>\<close>

record tcp_sock =
  skc_num :: u16
  tp_srtt_us :: u32
  tp_mdev_us :: u32
  tp_bytes_received :: u64
  tp_bytes_acked :: u64
  tp_segs_in :: u32
  tp_segs_out :: u32
  tp_delivered :: u32
  tp_snd_cwnd :: u32
  tp_snd_ssthresh :: u32
  tp_rcv_wnd :: u32
  tp_packets_out :: u32
  tp_total_retrans :: u32
  tp_retrans_out :: u32
  tp_lost :: u32

definition read_tcp_sock :: "u64 \<Rightarrow> tcp_sock \<Rightarrow> net_globals \<Rightarrow> net_globals" where
  "read_tcp_sock now tp g =
     \<lparr>ng_last_packet_ts = now, ng_prev_packet_ts = ng_last_packet_ts g, ng_recv_count = ng_recv_count g + 1,
      ng_srtt_us = tp_srtt_us tp, ng_mdev_us = tp_mdev_us tp, ng_bytes_received = tp_bytes_received tp,
      ng_bytes_acked = tp_bytes_acked tp, ng_segs_in = tp_segs_in tp, ng_segs_out = tp_segs_out tp,
      ng_delivered = tp_delivered tp, ng_snd_cwnd = tp_snd_cwnd tp, ng_snd_ssthresh = tp_snd_ssthresh tp,
      ng_rcv_wnd = tp_rcv_wnd tp, ng_packets_out = tp_packets_out tp, ng_total_retrans = tp_total_retrans tp,
      ng_retrans_out = tp_retrans_out tp, ng_lost = tp_lost tp\<rparr>"

fun raw_value :: "net_globals \<Rightarrow> s64 \<Rightarrow> global_feature \<Rightarrow> s64" where
  "raw_value g inter_arrival GF_SRTT_US = ucast (ng_srtt_us g)"
| "raw_value g inter_arrival GF_MDEV_US = ucast (ng_mdev_us g)"
| "raw_value g inter_arrival GF_SND_CWND = ucast (ng_snd_cwnd g)"
| "raw_value g inter_arrival GF_SND_SSTHRESH = ucast (ng_snd_ssthresh g)"
| "raw_value g inter_arrival GF_RCV_WND = ucast (ng_rcv_wnd g)"
| "raw_value g inter_arrival GF_PACKETS_OUT = ucast (ng_packets_out g)"
| "raw_value g inter_arrival GF_TOTAL_RETRANS = ucast (ng_total_retrans g)"
| "raw_value g inter_arrival GF_RETRANS_OUT = ucast (ng_retrans_out g)"
| "raw_value g inter_arrival GF_LOST = ucast (ng_lost g)"
| "raw_value g inter_arrival GF_SEGS_IN = ucast (ng_segs_in g)"
| "raw_value g inter_arrival GF_SEGS_OUT = ucast (ng_segs_out g)"
| "raw_value g inter_arrival GF_DELIVERED = ucast (ng_delivered g)"
| "raw_value g inter_arrival GF_BYTES_RECEIVED = ng_bytes_received g"
| "raw_value g inter_arrival GF_BYTES_ACKED = ng_bytes_acked g"
| "raw_value g inter_arrival GF_INTER_ARRIVAL = inter_arrival"
| "raw_value g inter_arrival GF_RECV_COUNT = ng_recv_count g"
| "raw_value g inter_arrival GF_CLIENT_TAG = 0"

definition any_enabled :: "split_config \<Rightarrow> u32" where
  "any_enabled G = fold (\<lambda>gf any. any OR listener_mask (gf_config G (gf_index gf))) all_features 0"

definition dispatch_feature :: "('mm, 'ew, 'av, 'rw, 'fm) vulcan_lib \<Rightarrow> split_config \<Rightarrow>
    (nat \<Rightarrow> tag_feature_key \<Rightarrow> s32) \<Rightarrow> u32 \<Rightarrow> (global_feature \<Rightarrow> s64) \<Rightarrow> global_feature \<Rightarrow>
    ('mm, 'ew, 'av, 'rw, 'fm) split_state \<Rightarrow> ('mm, 'ew, 'av, 'rw, 'fm) split_state" where
  "dispatch_feature L G E client_tag raw_values gf s =
     (if gf = GF_CLIENT_TAG then s
      else if listener_mask (gf_config G (gf_index gf)) \<noteq> 0
      then vulcan_tag_update_feature L E client_tag (gf_index gf) (raw_values gf) (gf_config G (gf_index gf)) s
      else s)"

text \<open>\<open>sk\<close> is \<open>None\<close> for a NULL socket.\<close>

definition split_trace_tcp_recvmsg :: "('mm, 'ew, 'av, 'rw, 'fm) vulcan_lib \<Rightarrow> split_config \<Rightarrow>
    ('k \<Rightarrow> nat \<Rightarrow> tag_feature_key \<Rightarrow> s32) \<Rightarrow> ('k, ('mm, 'ew, 'av, 'rw, 'fm) split_state) kfuncs \<Rightarrow>
    tcp_sock option \<Rightarrow> 'k \<Rightarrow> ('mm, 'ew, 'av, 'rw, 'fm) split_state \<Rightarrow> ('mm, 'ew, 'av, 'rw, 'fm) split_state" where
  "split_trace_tcp_recvmsg L G E K sk k s =
     (case sk of
        None \<Rightarrow> s
      | Some tp \<Rightarrow>
          let sport = skc_num tp
          in if sport \<noteq> 9100 \<and> sport \<noteq> 9101 \<and> sport \<noteq> 9001 \<and> sport \<noteq> 9002 then s
             else let client_tag = net_client_tag_from_sport sport
               in if any_enabled G = 0 then s
                  else let g = read_tcp_sock (kf_ktime_get_ns K k) tp (split_net s);
                           inter_arrival = (if ng_prev_packet_ts g > 0
                             then ng_last_packet_ts g - ng_prev_packet_ts g else 0)
                       in fold (dispatch_feature L G (E k) client_tag (raw_value g inter_arrival)) all_features
                            (s\<lparr>split_net := g\<rparr>))"

section \<open>The keys of the tag maps\<close>

lemma split_is_folio_relevant_eq [simp]:
  "split_is_folio_relevant s (Some f) = relevant s f"
  by (simp add: split_is_folio_relevant_def relevant_def folio_host_def split: option.splits)

definition typed_key :: "tag_feature_key \<Rightarrow> bool" where
  "typed_key key \<longleftrightarrow> (tk_client_tag key = 1 \<or> tk_client_tag key = 2) \<and> tk_feature_id key < VULCAN_NUM_GLOBAL_FEATURES"

definition typed_map :: "(tag_feature_key, 'v) hmap \<Rightarrow> bool" where
  "typed_map m \<longleftrightarrow> distinct (map fst m) \<and> (\<forall>key v. map_of m key = Some v \<longrightarrow> typed_key key)"

lemma typed_keys_card: "finite (Collect typed_key) \<and> card (Collect typed_key) \<le> 34"
proof -
  let ?A = "{1, 2 :: u32} \<times> {..<17 :: nat}"
  let ?g = "\<lambda>(t, n). \<lparr>tk_client_tag = t, tk_feature_id = of_nat n\<rparr>"
  have sub: "Collect typed_key \<subseteq> ?g ` ?A"
  proof
    fix key assume "key \<in> Collect typed_key"
    then have "key = ?g (tk_client_tag key, unat (tk_feature_id key))"
      "(tk_client_tag key, unat (tk_feature_id key)) \<in> ?A"
      by (auto simp: typed_key_def VULCAN_NUM_GLOBAL_FEATURES_def word_less_nat_alt)
    then show "key \<in> ?g ` ?A" by blast
  qed
  have "card ?A = 34" by (simp add: card_cartesian_product)
  then have "card (?g ` ?A) \<le> 34" by (metis card_image_le finite_cartesian_product finite.emptyI finite.insertI finite_lessThan)
  moreover have "finite (?g ` ?A)" by simp
  ultimately show ?thesis using sub by (meson card_mono finite_subset le_trans)
qed

lemma typed_map_small:
  assumes "typed_map m"
  shows "length m \<le> 34"
proof -
  have "length m = card (fst ` set m)"
    using assms distinct_card [of "map fst m"] by (simp add: typed_map_def)
  also have "\<dots> \<le> card (Collect typed_key)"
    using assms typed_keys_card by (intro card_mono)
      (auto simp: typed_map_def dom_map_of_conv_image_fst [symmetric] simp del: dom_map_of_conv_image_fst)
  finally show ?thesis using typed_keys_card by simp
qed

lemma tag_feed_typed:
  assumes "typed_map m" "typed_key key"
  shows "typed_map (tag_feed err zero upd key m)"
proof (cases "map_of m key")
  case None
  have "distinct (map fst (snd (hmap_update tag_cap err key zero m)))"
    using assms(1) by (auto simp: typed_map_def hmap_update_def distinct_update)
  then show ?thesis
    using assms None by (auto simp: tag_feed_def typed_map_def bpf_map_simps hash.lookup_store split: if_splits)
next
  case (Some v)
  then show ?thesis using assms by (auto simp: tag_feed_def typed_map_def bpf_map_simps split: if_splits)
qed

lemma tag_feed_lookup:
  assumes "typed_map m"
  shows "map_of (tag_feed 0 zero upd key m) x =
    (if x = key then Some (upd (case map_of m key of None \<Rightarrow> zero | Some v \<Rightarrow> v)) else map_of m x)"
proof (cases "map_of m key")
  case None
  have "length m < tag_cap" using typed_map_small [OF assms] by (simp add: tag_cap_def)
  then show ?thesis using None by (simp add: tag_feed_def hmap_update_new bpf_map_simps)
next
  case (Some v)
  then show ?thesis by (simp add: tag_feed_def bpf_map_simps)
qed

lemma gf_index_bound: "gf_index gf < VULCAN_NUM_GLOBAL_FEATURES"
  by (cases gf) (simp_all add: VULCAN_NUM_GLOBAL_FEATURES_def)

section \<open>What feeding a feature touches\<close>

lemma tag_update_frame [simp]:
  "split_meta (vulcan_tag_update_feature L E t f v cfg s) = split_meta s"
  "split_net (vulcan_tag_update_feature L E t f v cfg s) = split_net s"
  "inode_get_client_tag (vulcan_tag_update_feature L E t f v cfg s) ino = inode_get_client_tag s ino"
  by (simp_all add: vulcan_tag_update_feature_def inode_get_client_tag_eq Let_def)

lemma bump_frame [simp]:
  "split_meta (split_bump_counter i s) = split_meta s" "split_net (split_bump_counter i s) = split_net s"
  "tgminmax (split_bump_counter i s) = tgminmax s" "tgewma (split_bump_counter i s) = tgewma s"
  "tgavg (split_bump_counter i s) = tgavg s" "tgrw (split_bump_counter i s) = tgrw s"
  "inode_get_client_tag (split_bump_counter i s) ino = inode_get_client_tag s ino"
  by (simp_all add: split_bump_counter_def inode_get_client_tag_eq)

definition typed_maps :: "('mm, 'ew, 'av, 'rw, 'fm) split_state \<Rightarrow> bool" where
  "typed_maps s \<longleftrightarrow> typed_map (tgminmax s) \<and> typed_map (tgewma s) \<and> typed_map (tgavg s) \<and> typed_map (tgrw s)"

lemma tag_update_typed:
  assumes "typed_maps s" "t = 0 \<or> t = 1 \<or> t = 2"
  shows "typed_maps (vulcan_tag_update_feature L E t f v cfg s)"
proof (cases "t = 0 \<or> VULCAN_NUM_GLOBAL_FEATURES \<le> f")
  case False
  then have "typed_key \<lparr>tk_client_tag = t, tk_feature_id = f\<rparr>"
    using assms(2) by (auto simp: typed_key_def)
  then show ?thesis
    using assms(1) by (simp add: vulcan_tag_update_feature_def typed_maps_def tag_feed_typed Let_def)
qed (use assms(1) in \<open>auto simp: vulcan_tag_update_feature_def\<close>)

section \<open>The invariant\<close>

text \<open>
  What is relied on of the library: the metadata has a client tag, set by one function and
  kept by the other. What is relied on of the loader and the probe of the watcher: no inode
  has a tag other than 1 and 2.
\<close>

definition lib_ok :: "('mm, 'ew, 'av, 'rw, 'fm) vulcan_lib \<Rightarrow> bool" where
  "lib_ok L \<longleftrightarrow> (\<forall>t m. vl_client_tag L (vl_set_client_tag L t m) = t) \<and>
     (\<forall>m now c. vl_client_tag L (vl_folio_on_access L m now c) = vl_client_tag L m)"

definition client_tag_ok :: "u32 \<Rightarrow> bool" where
  "client_tag_ok t \<longleftrightarrow> t = 0 \<or> t = 1 \<or> t = 2"

definition split_inv :: "('mm, 'ew, 'av, 'rw, 'fm) vulcan_lib \<Rightarrow> ('mm, 'ew, 'av, 'rw, 'fm) split_state \<Rightarrow> bool" where
  "split_inv L s \<longleftrightarrow> (\<forall>ino. client_tag_ok (inode_get_client_tag s ino)) \<and>
     (\<forall>x m. map_of (split_meta s) x = Some m \<longrightarrow> client_tag_ok (vl_client_tag L m)) \<and> typed_maps s"

lemma split_inv_bump [simp]: "split_inv L (split_bump_counter i s) = split_inv L s"
  by (simp add: split_inv_def typed_maps_def)

lemma split_inv_net [simp]: "split_inv L (s\<lparr>split_net := g\<rparr>) = split_inv L s"
  by (simp add: split_inv_def typed_maps_def inode_get_client_tag_eq)

lemma split_inv_tag_update:
  "split_inv L s \<Longrightarrow> client_tag_ok t \<Longrightarrow> split_inv L (vulcan_tag_update_feature L E t f v cfg s)"
  by (simp add: split_inv_def client_tag_ok_def tag_update_typed)

lemma folio_client_tag_ok: "split_inv L s \<Longrightarrow> client_tag_ok (folio_client_tag s fo)"
  by (auto simp: folio_client_tag_def split_inv_def client_tag_ok_def split: option.split)

lemma split_inv_meta:
  assumes "split_inv L s" "\<And>x m. map_of mm x = Some m \<Longrightarrow> client_tag_ok (vl_client_tag L m)"
  shows "split_inv L (s\<lparr>split_meta := mm\<rparr>)"
  using assms by (auto simp: split_inv_def typed_maps_def inode_get_client_tag_eq)

lemma split_inv_store:
  assumes "lib_ok L" "split_inv L s" "client_tag_ok t"
  shows "split_inv L (split_store K k f (vl_set_client_tag L t m) s)"
  unfolding split_store_def
proof (rule split_inv_meta [OF assms(2)])
  fix x v
  assume "map_of (snd (hmap_update split_meta_cap (kf_map_err K k (folio_addr f)) (folio_addr f)
      (vl_set_client_tag L t m) (split_meta s))) x = Some v"
  then have "v = vl_set_client_tag L t m \<or> map_of (split_meta s) x = Some v"
    by (auto simp: hash.lookup_store split: if_splits)
  then show "client_tag_ok (vl_client_tag L v)"
    using assms by (auto simp: lib_ok_def split_inv_def)
qed

lemma split_score_state: "snd (split_score_fn L k f s) = s"
  by (simp add: split_score_fn_def Let_def split: option.split)

lemma split_evict_state:
  assumes "kernel_ok K"
  shows "snd (snd (split_evict_folios L K c m k s)) = split_bump_counter 0 s"
proof -
  let ?s = "split_bump_counter 0 s" and ?o = "\<lparr>sample_size = split_SAMPLE_SIZE, select_size = 0\<rparr>"
  have "snd (snd (snd (kf_list_sample K m (split_main_list ?s) (split_score_fn L) ?o c k ?s))) = ?s"
    using assms by (rule sample_inv) (simp_all add: split_score_state)
  then show ?thesis by (simp add: split_evict_folios_def split_def Let_def)
qed

lemma split_inv_added:
  assumes "lib_ok L" "split_inv L s"
  shows "split_inv L (snd (split_folio_added L G E K f k s))"
  using assms by (auto simp: split_folio_added_def feed_client_tag_def split_def Let_def
      intro!: split_inv_tag_update split_inv_store folio_client_tag_ok)

lemma split_inv_accessed:
  assumes "lib_ok L" "split_inv L s"
  shows "split_inv L (snd (split_folio_accessed L G E K f k s))"
proof (cases "relevant s f")
  case True
  show ?thesis
  proof (cases "map_of (split_meta s) (folio_addr f)")
    case None
    then show ?thesis
      using assms True by (auto simp: split_folio_accessed_def feed_client_tag_def split_def Let_def
          intro!: split_inv_tag_update split_inv_store folio_client_tag_ok)
  next
    case (Some m)
    let ?m = "vl_folio_on_access L m (kf_ktime_get_ns K k) (folio_cfg G)"
    have t: "client_tag_ok (vl_client_tag L ?m)" using assms Some by (auto simp: lib_ok_def split_inv_def)
    have "split_inv L (s\<lparr>split_meta := hmap_modify (folio_addr f) (\<lambda>_. ?m) (split_meta s)\<rparr>)"
      by (rule split_inv_meta [OF assms(2)])
        (use assms(2) t Some in \<open>auto simp: bpf_map_simps split_inv_def split: if_splits\<close>)
    then show ?thesis
      using True Some t by (auto simp: split_folio_accessed_def feed_client_tag_def Let_def
          intro!: split_inv_tag_update)
  qed
qed (use assms in \<open>simp add: split_folio_accessed_def\<close>)

lemma split_inv_evicted:
  assumes "split_inv L s"
  shows "split_inv L (snd (split_folio_evicted f k s))"
proof -
  have "split_inv L (s\<lparr>split_meta := snd (hmap_delete (folio_addr f) (split_meta s))\<rparr>)"
    by (rule split_inv_meta [OF assms])
      (use assms in \<open>auto simp: split_inv_def elim: hash.del_all [rotated]\<close>)
  then show ?thesis using assms by (simp add: split_folio_evicted_def)
qed

interpretation split: policy "split_ops L G E" "\<lambda>K k h s. lib_ok L" "split_inv L"
proof (unfold_locales, goal_cases)
  case (1 K k f s)
  then show ?case by (simp add: split_ops_def split_inv_added)
next
  case (2 K k f s h)
  then show ?case by (auto simp: split_ops_def split_inv_accessed)
next
  case (3 K k f s)
  then show ?case by (simp add: split_ops_def split_inv_evicted)
next
  case (4 K k c m s)
  then show ?case by (simp add: split_ops_def split_evict_state)
qed

section \<open>Runs with packets\<close>

datatype split_event = Split_Hook hook | Tcp_Recv "tcp_sock option"

fun split_step :: "('mm, 'ew, 'av, 'rw, 'fm) vulcan_lib \<Rightarrow> split_config \<Rightarrow> ('k \<Rightarrow> nat \<Rightarrow> tag_feature_key \<Rightarrow> s32) \<Rightarrow>
    ('k, ('mm, 'ew, 'av, 'rw, 'fm) split_state) kfuncs \<Rightarrow> split_event \<Rightarrow>
    'k \<times> ('mm, 'ew, 'av, 'rw, 'fm) split_state \<Rightarrow> 'k \<times> ('mm, 'ew, 'av, 'rw, 'fm) split_state" where
  "split_step L G E K (Split_Hook h) w = call_hook (split_ops L G E K) h w"
| "split_step L G E K (Tcp_Recv sk) (k, s) = (k, split_trace_tcp_recvmsg L G E K sk k s)"

definition split_run :: "('mm, 'ew, 'av, 'rw, 'fm) vulcan_lib \<Rightarrow> split_config \<Rightarrow> ('k \<Rightarrow> nat \<Rightarrow> tag_feature_key \<Rightarrow> s32) \<Rightarrow>
    ('k, ('mm, 'ew, 'av, 'rw, 'fm) split_state) kfuncs \<Rightarrow> split_event list \<Rightarrow>
    'k \<times> ('mm, 'ew, 'av, 'rw, 'fm) split_state \<Rightarrow> 'k \<times> ('mm, 'ew, 'av, 'rw, 'fm) split_state" where
  "split_run L G E K evs w = fold (split_step L G E K) evs w"

lemma net_client_tag_ok: "client_tag_ok (net_client_tag_from_sport p)"
  by (simp add: net_client_tag_from_sport_def client_tag_ok_def)

lemma split_inv_dispatch:
  "split_inv L s \<Longrightarrow> client_tag_ok t \<Longrightarrow> split_inv L (dispatch_feature L G E t raw gf s)"
  by (simp add: dispatch_feature_def split_inv_tag_update)

lemma split_inv_dispatch_all:
  "split_inv L s \<Longrightarrow> client_tag_ok t \<Longrightarrow> split_inv L (fold (dispatch_feature L G E t raw) gfs s)"
  by (induction gfs arbitrary: s) (simp_all add: split_inv_dispatch)

lemma split_inv_tcp:
  "split_inv L s \<Longrightarrow> split_inv L (split_trace_tcp_recvmsg L G E K sk k s)"
  by (auto simp: split_trace_tcp_recvmsg_def Let_def net_client_tag_ok split: option.split
      intro!: split_inv_dispatch_all)

lemma split_inv_step:
  assumes "kernel_ok K" "lib_ok L" "split_inv L (snd w)"
  shows "split_inv L (snd (split_step L G E K ev w))"
  proof (cases ev)
  case (Split_Hook h)
  then show ?thesis using assms by (simp add: split.hook_inv)
qed (use assms in \<open>cases w; simp add: split_inv_tcp\<close>)

lemma split_inv_run:
  assumes "kernel_ok K" "lib_ok L" "split_inv L (snd w)"
  shows "split_inv L (snd (split_run L G E K evs w))"
  using assms(3) unfolding split_run_def
  by (induction evs arbitrary: w) (simp_all add: split_inv_step [OF assms(1,2)])

text \<open>
  C20: over every run of hooks and received packets the four maps of listeners hold keys of
  the tags 1 and 2 and of the 17 features only, at most 34 of their 128 entries: they never
  run out of room, whatever the library and the configuration.
\<close>

theorem tag_maps_typed:
  assumes "kernel_ok K" "lib_ok L" "split_inv L s" "(k', s') = split_run L G E K evs (k, s)"
  shows "typed_map (tgminmax s') \<and> typed_map (tgewma s') \<and> typed_map (tgavg s') \<and> typed_map (tgrw s')
    \<and> length (tgminmax s') \<le> 34 \<and> length (tgewma s') \<le> 34 \<and> length (tgavg s') \<le> 34 \<and> length (tgrw s') \<le> 34"
proof -
  have "split_inv L s'" using split_inv_run [OF assms(1,2), of "(k, s)" G E evs] assms(3,4) by (metis snd_conv)
  then show ?thesis by (simp add: split_inv_def typed_maps_def typed_map_small)
qed

text \<open>The listeners of \<open>policies/vulcan_bpf.h\<close> as a library, with a minimal metadata.\<close>

definition demo_lib :: "(vulcan_minmax, vulcan_ewma, vulcan_avg, vulcan_rolling_window, u32 \<times> u32) vulcan_lib" where
  "demo_lib = \<lparr>LISTENER_MINMAX = 1, LISTENER_EWMA = 2, LISTENER_AVG = 4, LISTENER_RW = 8,
     vl_mm_zero = minmax_zero, vl_mm_update = vulcan_minmax_update,
     vl_mm_min = vulcan_minmax_get_min, vl_mm_max = vulcan_minmax_get_max,
     vl_ew_zero = ewma_zero, vl_ew_update = vulcan_ewma_update, vl_ew_get = vulcan_ewma_get,
     vl_av_zero = avg_zero, vl_av_update = vulcan_avg_update, vl_av_get = vulcan_avg_get,
     vl_rw_zero = rw_zero, vl_rw_update = vulcan_rw_update, vl_rw_latest = vulcan_rw_get_latest,
     vl_rw_kth_recent = vulcan_rw_get_kth_recent, vl_rw_avg = vulcan_rw_get_avg, vl_rw_count = vulcan_rw_get_count,
     vl_folio_init = (\<lambda>now. (0, 1)), vl_folio_on_access = (\<lambda>(t, n) now c. (t, n + 1)),
     vl_set_client_tag = (\<lambda>t m. (t, snd m)), vl_client_tag = fst, vl_access_count = snd\<rparr>"

lemma demo_lib_ok: "lib_ok demo_lib"
  by (simp add: lib_ok_def demo_lib_def split_def)

definition demo_split :: "(vulcan_minmax, vulcan_ewma, vulcan_avg, vulcan_rolling_window, u32 \<times> u32) split_state" where
  "demo_split = watch_state.extend (demo_watch\<lparr>inode_watchlist := [(42, 2)]\<rparr>)
     (split_state.fields [] [] [] [] [] (replicate 17 0) 1 \<lparr>ng_last_packet_ts = 0, ng_prev_packet_ts = 0,
        ng_recv_count = 0, ng_srtt_us = 0, ng_mdev_us = 0, ng_bytes_received = 0, ng_bytes_acked = 0, ng_segs_in = 0,
        ng_segs_out = 0, ng_delivered = 0, ng_snd_cwnd = 0, ng_snd_ssthresh = 0, ng_rcv_wnd = 0, ng_packets_out = 0,
        ng_total_retrans = 0, ng_retrans_out = 0, ng_lost = 0\<rparr>)"

lemmas demo_split_simps = demo_split_def watch_state.defs split_state.defs demo_watch_def

lemma demo_split_inv: "split_inv demo_lib demo_split"
  by (simp add: split_inv_def typed_maps_def typed_map_def demo_split_simps inode_get_client_tag_eq client_tag_ok_def)

definition avg_config :: split_config where
  "avg_config = \<lparr>gf_config = (\<lambda>i. \<lparr>listener_mask = 4, ewma_alpha = 0, rw_size = 0\<rparr>),
     folio_cfg = \<lparr>fc_listener_mask = 0, fc_ewma_alpha = 0\<rparr>\<rparr>"

theorem tag_maps_typed_witness:
  "typed_map (tgavg (snd (split_run demo_lib avg_config (\<lambda>k i key. 0) list_kfuncs
     [Split_Hook (Folio_Added (clean_folio 2))] (demo_kernel, demo_split))))"
  using tag_maps_typed [OF list_kernel_ok demo_lib_ok demo_split_inv surjective_pairing [symmetric],
    of avg_config "\<lambda>k i key. 0" "[Split_Hook (Folio_Added (clean_folio 2))]" demo_kernel] by simp

section \<open>Listeners read the samples of their own tag and feature\<close>

text \<open>
  The abstract state of the listeners: for each tag and feature the samples so far. A sample
  counts when the tag is not 0 and the feature is enabled in the configuration.
\<close>

type_synonym samples = "tag_feature_key \<Rightarrow> s64 list"

definition emit :: "split_config \<Rightarrow> u32 \<Rightarrow> u32 \<Rightarrow> s64 \<Rightarrow> samples \<Rightarrow> samples" where
  "emit G tag f v h =
     (let key = \<lparr>tk_client_tag = tag, tk_feature_id = f\<rparr>
      in if tag = 0 \<or> listener_mask (gf_config G f) = 0 then h else h(key := h key @ [v]))"

fun sample_step :: "('mm, 'ew, 'av, 'rw, 'fm) vulcan_lib \<Rightarrow> split_config \<Rightarrow>
    ('k, ('mm, 'ew, 'av, 'rw, 'fm) split_state) kfuncs \<Rightarrow> split_event \<Rightarrow>
    'k \<times> ('mm, 'ew, 'av, 'rw, 'fm) split_state \<Rightarrow> samples \<Rightarrow> samples" where
  "sample_step L G K (Split_Hook (Folio_Added f)) (k, s) h =
     (if relevant s f \<and> fst (kf_list_add_tail K (split_main_list s) f k) = 0
      then emit G (folio_client_tag s (Some f)) 16 (ucast (folio_client_tag s (Some f))) h else h)"
| "sample_step L G K (Split_Hook (Folio_Accessed f)) (k, s) h =
     (if \<not> relevant s f then h
      else let tag = (case map_of (split_meta s) (folio_addr f) of
                        None \<Rightarrow> folio_client_tag s (Some f) | Some m \<Rightarrow> vl_client_tag L m)
        in emit G tag 16 (ucast tag) h)"
| "sample_step L G K (Split_Hook (Folio_Evicted f)) (k, s) h = h"
| "sample_step L G K (Split_Hook (Evict_Folios c m)) (k, s) h = h"
| "sample_step L G K (Tcp_Recv sk) (k, s) h =
     (case sk of
        None \<Rightarrow> h
      | Some tp \<Rightarrow>
          let tag = net_client_tag_from_sport (skc_num tp);
              g = read_tcp_sock (kf_ktime_get_ns K k) tp (split_net s);
              inter_arrival = (if ng_prev_packet_ts g > 0 then ng_last_packet_ts g - ng_prev_packet_ts g else 0)
          in fold (\<lambda>gf h. if gf = GF_CLIENT_TAG then h else emit G tag (gf_index gf) (raw_value g inter_arrival gf) h)
               all_features h)"

fun sample_run :: "('mm, 'ew, 'av, 'rw, 'fm) vulcan_lib \<Rightarrow> split_config \<Rightarrow> ('k \<Rightarrow> nat \<Rightarrow> tag_feature_key \<Rightarrow> s32) \<Rightarrow>
    ('k, ('mm, 'ew, 'av, 'rw, 'fm) split_state) kfuncs \<Rightarrow> split_event list \<Rightarrow>
    'k \<times> ('mm, 'ew, 'av, 'rw, 'fm) split_state \<Rightarrow> samples \<Rightarrow> samples" where
  "sample_run L G E K [] w h = h"
| "sample_run L G E K (ev # evs) w h =
     sample_run L G E K evs (split_step L G E K ev w) (sample_step L G K ev w h)"

text \<open>A map of listeners is fed \<open>h\<close> when each enabled key with samples holds their fold.\<close>

definition fed :: "(u32 \<Rightarrow> bool) \<Rightarrow> 'v \<Rightarrow> (u32 \<Rightarrow> 'v \<Rightarrow> s64 \<Rightarrow> 'v) \<Rightarrow> (tag_feature_key, 'v) hmap \<Rightarrow> samples \<Rightarrow> bool" where
  "fed on zero upd m h \<longleftrightarrow> (\<forall>key. map_of m key =
     (if h key \<noteq> [] \<and> on (tk_feature_id key) then Some (foldl (upd (tk_feature_id key)) zero (h key)) else None))"

lemma fed_step:
  fixes t f :: u32
  defines "key \<equiv> \<lparr>tk_client_tag = t, tk_feature_id = f\<rparr>"
  assumes "fed on zero upd m h" "typed_map m"
  shows "fed on zero upd (if on f then tag_feed 0 zero (\<lambda>x. upd f x v) key m else m) (h(key := h key @ [v]))"
  using assms(2) by (auto simp: fed_def tag_feed_lookup [OF assms(3)] key_def)

definition enabled :: "split_config \<Rightarrow> u32 \<Rightarrow> u32 \<Rightarrow> bool" where
  "enabled G bits f \<longleftrightarrow> listener_mask (gf_config G f) AND bits \<noteq> 0"

definition all_fed :: "('mm, 'ew, 'av, 'rw, 'fm) vulcan_lib \<Rightarrow> split_config \<Rightarrow>
    ('mm, 'ew, 'av, 'rw, 'fm) split_state \<Rightarrow> samples \<Rightarrow> bool" where
  "all_fed L G s h \<longleftrightarrow>
     fed (enabled G (LISTENER_MINMAX L)) (vl_mm_zero L) (\<lambda>f. vl_mm_update L) (tgminmax s) h \<and>
     fed (enabled G (LISTENER_EWMA L)) (vl_ew_zero L) (\<lambda>f e v. vl_ew_update L e v (ewma_alpha (gf_config G f))) (tgewma s) h \<and>
     fed (enabled G (LISTENER_AVG L)) (vl_av_zero L) (\<lambda>f. vl_av_update L) (tgavg s) h \<and>
     fed (enabled G (LISTENER_RW L)) (vl_rw_zero L) (\<lambda>f rw v. vl_rw_update L rw v (rw_size (gf_config G f))) (tgrw s) h"

abbreviation no_errors :: "nat \<Rightarrow> tag_feature_key \<Rightarrow> s32" where
  "no_errors \<equiv> \<lambda>i key. 0"

lemma all_fed_update:
  assumes "all_fed L G s h" "typed_maps s" "f < VULCAN_NUM_GLOBAL_FEATURES"
  shows "all_fed L G (vulcan_tag_update_feature L no_errors tag f v (gf_config G f) s) (emit G tag f v h)"
proof (cases "tag = 0 \<or> listener_mask (gf_config G f) = 0")
  case True
  then show ?thesis using assms(1) by (auto simp: vulcan_tag_update_feature_def emit_def Let_def)
next
  case False
  let ?key = "\<lparr>tk_client_tag = tag, tk_feature_id = f\<rparr>"
  let ?s = "vulcan_tag_update_feature L no_errors tag f v (gf_config G f) s"
  have m: "tgminmax ?s = (if enabled G (LISTENER_MINMAX L) f
        then tag_feed 0 (vl_mm_zero L) (\<lambda>mm. vl_mm_update L mm v) ?key (tgminmax s) else tgminmax s)"
    "tgewma ?s = (if enabled G (LISTENER_EWMA L) f
        then tag_feed 0 (vl_ew_zero L) (\<lambda>e. vl_ew_update L e v (ewma_alpha (gf_config G f))) ?key (tgewma s) else tgewma s)"
    "tgavg ?s = (if enabled G (LISTENER_AVG L) f
        then tag_feed 0 (vl_av_zero L) (\<lambda>a. vl_av_update L a v) ?key (tgavg s) else tgavg s)"
    "tgrw ?s = (if enabled G (LISTENER_RW L) f
        then tag_feed 0 (vl_rw_zero L) (\<lambda>rw. vl_rw_update L rw v (rw_size (gf_config G f))) ?key (tgrw s) else tgrw s)"
    using False assms(3) by (simp_all add: vulcan_tag_update_feature_def enabled_def Let_def not_le [symmetric])
  have e: "emit G tag f v h = h(?key := h ?key @ [v])" using False by (simp add: emit_def Let_def)
  have "fed (enabled G (LISTENER_MINMAX L)) (vl_mm_zero L) (\<lambda>f. vl_mm_update L) (tgminmax ?s) (emit G tag f v h)"
    unfolding m e by (rule fed_step) (use assms(1,2) in \<open>simp_all add: all_fed_def typed_maps_def\<close>)
  moreover have "fed (enabled G (LISTENER_EWMA L)) (vl_ew_zero L)
      (\<lambda>f e v. vl_ew_update L e v (ewma_alpha (gf_config G f))) (tgewma ?s) (emit G tag f v h)"
    unfolding m e by (rule fed_step [where upd = "\<lambda>f e v. vl_ew_update L e v (ewma_alpha (gf_config G f))"])
      (use assms(1,2) in \<open>simp_all add: all_fed_def typed_maps_def\<close>)
  moreover have "fed (enabled G (LISTENER_AVG L)) (vl_av_zero L) (\<lambda>f. vl_av_update L) (tgavg ?s) (emit G tag f v h)"
    unfolding m e by (rule fed_step) (use assms(1,2) in \<open>simp_all add: all_fed_def typed_maps_def\<close>)
  moreover have "fed (enabled G (LISTENER_RW L)) (vl_rw_zero L)
      (\<lambda>f rw v. vl_rw_update L rw v (rw_size (gf_config G f))) (tgrw ?s) (emit G tag f v h)"
    unfolding m e by (rule fed_step [where upd = "\<lambda>f rw v. vl_rw_update L rw v (rw_size (gf_config G f))"])
      (use assms(1,2) in \<open>simp_all add: all_fed_def typed_maps_def\<close>)
  ultimately show ?thesis by (simp add: all_fed_def)
qed

lemma all_fed_frame [simp]:
  "all_fed L G (split_bump_counter i s) h = all_fed L G s h"
  "all_fed L G (s\<lparr>split_net := g\<rparr>) h = all_fed L G s h"
  "all_fed L G (s\<lparr>split_meta := mm\<rparr>) h = all_fed L G s h"
  "all_fed L G (split_store K k f m s) h = all_fed L G s h"
  by (simp_all add: all_fed_def split_store_def)

lemma split_inv_typed: "split_inv L s \<Longrightarrow> typed_maps s"
  by (simp add: split_inv_def)

lemma typed_maps_frame [simp]:
  "typed_maps (s\<lparr>split_meta := mm\<rparr>) = typed_maps s" "typed_maps (split_store K k f m s) = typed_maps s"
  by (simp_all add: typed_maps_def split_store_def)

lemma all_fed_client_tag:
  assumes "all_fed L G s h" "typed_maps s"
  shows "all_fed L G (feed_client_tag L G no_errors tag s) (emit G tag 16 (ucast tag) h)"
  using all_fed_update [OF assms, of 16] by (simp add: feed_client_tag_def VULCAN_NUM_GLOBAL_FEATURES_def)

lemma all_fed_dispatch:
  assumes "all_fed L G s h" "split_inv L s" "client_tag_ok t"
  shows "all_fed L G (fold (dispatch_feature L G no_errors t raw) gfs s)
    (fold (\<lambda>gf h. if gf = GF_CLIENT_TAG then h else emit G t (gf_index gf) (raw gf) h) gfs h)"
  using assms
proof (induction gfs arbitrary: s h)
  case (Cons gf gfs)
  have "all_fed L G (dispatch_feature L G no_errors t raw gf s)
      (if gf = GF_CLIENT_TAG then h else emit G t (gf_index gf) (raw gf) h)"
    using Cons.prems all_fed_update [where L = L and G = G and s = s and h = h and f = "gf_index gf" and tag = t and v = "raw gf"]
      split_inv_typed [of L s] gf_index_bound [of gf]
    by (auto simp: dispatch_feature_def emit_def)
  then show ?case using Cons by (simp add: split_inv_dispatch)
qed simp

lemma emit_disabled: "t = 0 \<or> listener_mask (gf_config G f) = 0 \<Longrightarrow> emit G t f v h = h"
  by (simp add: emit_def)

lemma any_enabled_zero: "any_enabled G = 0 \<Longrightarrow> listener_mask (gf_config G (gf_index gf)) = 0"
  by (cases gf) (simp_all add: any_enabled_def all_features_def or_eq_0_iff)

lemma emits_disabled:
  assumes "t = 0 \<or> any_enabled G = 0"
  shows "fold (\<lambda>gf h. if gf = GF_CLIENT_TAG then h else emit G t (gf_index gf) (raw gf) h) gfs h = h"
proof (induction gfs arbitrary: h)
  case (Cons gf gfs)
  have "emit G t (gf_index gf) (raw gf) h = h" using assms by (auto intro: emit_disabled any_enabled_zero)
  then show ?case using Cons by simp
qed simp

lemma all_fed_tcp:
  assumes "all_fed L G s h" "split_inv L s"
  shows "all_fed L G (split_trace_tcp_recvmsg L G (\<lambda>k. no_errors) K sk k s) (sample_step L G K (Tcp_Recv sk) (k, s) h)"
proof (cases sk)
  case (Some tp)
  let ?t = "net_client_tag_from_sport (skc_num tp)"
  show ?thesis
  proof (cases "?t = 0 \<or> any_enabled G = 0")
    case True
    then have "split_trace_tcp_recvmsg L G (\<lambda>k. no_errors) K sk k s = s"
      using Some by (auto simp: split_trace_tcp_recvmsg_def net_client_tag_from_sport_def split: if_splits)
    then show ?thesis using Some True assms(1) by (simp add: Let_def emits_disabled)
  next
    case False
    then have port: "skc_num tp = 9100 \<or> skc_num tp = 9101 \<or> skc_num tp = 9001 \<or> skc_num tp = 9002"
      by (auto simp: net_client_tag_from_sport_def split: if_splits)
    let ?g = "read_tcp_sock (kf_ktime_get_ns K k) tp (split_net s)"
    let ?r = "raw_value ?g (if ng_prev_packet_ts ?g > 0 then ng_last_packet_ts ?g - ng_prev_packet_ts ?g else 0)"
    have "split_trace_tcp_recvmsg L G (\<lambda>k. no_errors) K sk k s =
        fold (dispatch_feature L G no_errors ?t ?r) all_features (s\<lparr>split_net := ?g\<rparr>)"
      using False port Some by (simp add: split_trace_tcp_recvmsg_def Let_def split del: if_split) (auto simp: Let_def split: if_split)
    moreover have "sample_step L G K (Tcp_Recv sk) (k, s) h =
        fold (\<lambda>gf h. if gf = GF_CLIENT_TAG then h else emit G ?t (gf_index gf) (?r gf) h) all_features h"
      by (simp add: Some Let_def)
    ultimately show ?thesis
      using all_fed_dispatch [OF _ _ net_client_tag_ok, where L = L and G = G and s = "s\<lparr>split_net := ?g\<rparr>"] assms by simp
  qed
qed (use assms(1) in \<open>simp add: split_trace_tcp_recvmsg_def\<close>)

lemma all_fed_step:
  assumes "kernel_ok K" "lib_ok L" "split_inv L s" "all_fed L G s h"
  shows "all_fed L G (snd (split_step L G (\<lambda>k. no_errors) K ev (k, s))) (sample_step L G K ev (k, s) h)"
proof (cases ev)
  case (Tcp_Recv sk)
  then show ?thesis using assms by (simp add: all_fed_tcp del: sample_step.simps)
next
  case (Split_Hook hk)
  have typed: "typed_maps s" using assms(3) by (rule split_inv_typed)
  show ?thesis
  proof (cases hk)
    case (Folio_Added f)
    then show ?thesis using Split_Hook assms(4) typed
      by (auto simp: split_ops_def split_folio_added_def split_def Let_def intro!: all_fed_client_tag)
  next
    case (Folio_Accessed f)
    have "vl_client_tag L (vl_folio_on_access L m now c) = vl_client_tag L m" for m now c
      using assms(2) by (simp add: lib_ok_def)
    then show ?thesis using Split_Hook Folio_Accessed assms(4) typed
      by (auto simp: split_ops_def split_folio_accessed_def split_def Let_def intro!: all_fed_client_tag
          split: option.split)
  next
    case (Folio_Evicted f)
    then show ?thesis using Split_Hook assms(4)
      by (simp add: split_ops_def split_folio_evicted_def)
  next
    case (Evict_Folios c m)
    then show ?thesis using Split_Hook assms(4)
      by (simp add: split_ops_def split_evict_state [OF assms(1)])
  qed
qed

lemma all_fed_run:
  assumes "kernel_ok K" "lib_ok L" "split_inv L (snd w)" "all_fed L G (snd w) h"
  shows "all_fed L G (snd (split_run L G (\<lambda>k. no_errors) K evs w)) (sample_run L G (\<lambda>k. no_errors) K evs w h)"
  using assms(3,4) unfolding split_run_def
proof (induction evs arbitrary: w h)
  case (Cons ev evs)
  have "all_fed L G (snd (split_step L G (\<lambda>k. no_errors) K ev w)) (sample_step L G K ev w h)"
    using all_fed_step [OF assms(1,2), of "snd w" G h ev "fst w"] Cons.prems by simp
  then show ?case using Cons split_inv_step [OF assms(1,2)] by simp
qed simp

text \<open>A getter over a map fed with \<open>h\<close>.\<close>

definition reads :: "(u32 \<Rightarrow> bool) \<Rightarrow> ('v \<Rightarrow> s64 \<Rightarrow> 'v) \<Rightarrow> 'v \<Rightarrow> ('v \<Rightarrow> 'r) \<Rightarrow> samples \<Rightarrow> u32 \<Rightarrow> u32 \<Rightarrow> 'r :: zero \<Rightarrow> bool" where
  "reads on upd zero get h t f r \<longleftrightarrow>
     (let vs = h \<lparr>tk_client_tag = t, tk_feature_id = f\<rparr>
      in r = (if t = 0 \<or> VULCAN_NUM_GLOBAL_FEATURES \<le> f \<or> \<not> on f \<or> vs = [] then 0 else get (foldl upd zero vs)))"

lemma fed_reads:
  assumes "fed on zero upd m h"
  shows "reads on (upd f) zero get h t f (case tag_get t f m of None \<Rightarrow> 0 | Some v \<Rightarrow> get v)"
  using assms by (auto simp: fed_def reads_def tag_get_def Let_def)

text \<open>
  C19: over every run of hooks and received packets that starts with empty maps, when the
  kernel refuses no store, each getter returns what the library computes from exactly the
  samples of its own tag and feature, in order, and 0 when there are none: no sample of one
  client or feature reaches a listener of another. The samples (\<open>sample_run\<close>) are the tags
  of the tracked folios added and accessed, and, of the packets received on the ports of
  the two clients, the fields of the socket.
\<close>

theorem tag_listeners_read_samples:
  assumes "kernel_ok K" "lib_ok L" "split_inv L s"
    "tgminmax s = [] \<and> tgewma s = [] \<and> tgavg s = [] \<and> tgrw s = []"
    "(k', s') = split_run L G (\<lambda>k i key. 0) K evs (k, s)"
    "h = sample_run L G (\<lambda>k i key. 0) K evs (k, s) (\<lambda>key. [])"
  shows "reads (enabled G (LISTENER_MINMAX L)) (vl_mm_update L) (vl_mm_zero L) (vl_mm_min L) h t f (vulcan_tag_get_min L t f s')
    \<and> reads (enabled G (LISTENER_MINMAX L)) (vl_mm_update L) (vl_mm_zero L) (vl_mm_max L) h t f (vulcan_tag_get_max L t f s')
    \<and> reads (enabled G (LISTENER_EWMA L)) (\<lambda>e v. vl_ew_update L e v (ewma_alpha (gf_config G f))) (vl_ew_zero L)
        (vl_ew_get L) h t f (vulcan_tag_get_ewma L t f s')
    \<and> reads (enabled G (LISTENER_AVG L)) (vl_av_update L) (vl_av_zero L) (vl_av_get L) h t f (vulcan_tag_get_avg L t f s')
    \<and> reads (enabled G (LISTENER_RW L)) (\<lambda>rw v. vl_rw_update L rw v (rw_size (gf_config G f))) (vl_rw_zero L)
        (vl_rw_latest L) h t f (vulcan_tag_get_latest L t f s')
    \<and> reads (enabled G (LISTENER_RW L)) (\<lambda>rw v. vl_rw_update L rw v (rw_size (gf_config G f))) (vl_rw_zero L)
        (\<lambda>rw. vl_rw_kth_recent L rw n) h t f (vulcan_tag_get_kth_recent L t f n s')
    \<and> reads (enabled G (LISTENER_RW L)) (\<lambda>rw v. vl_rw_update L rw v (rw_size (gf_config G f))) (vl_rw_zero L)
        (vl_rw_avg L) h t f (vulcan_tag_get_window_avg L t f s')
    \<and> reads (enabled G (LISTENER_RW L)) (\<lambda>rw v. vl_rw_update L rw v (rw_size (gf_config G f))) (vl_rw_zero L)
        (vl_rw_count L) h t f (vulcan_tag_get_window_count L t f s')"
proof -
  have "all_fed L G (snd (k, s)) (\<lambda>key. [])" using assms(4) by (simp add: all_fed_def fed_def)
  then have "all_fed L G s' h"
    using all_fed_run [OF assms(1,2), of "(k, s)" G "\<lambda>key. []" evs] assms(3) by (simp flip: assms(5,6))
  note fed = this [unfolded all_fed_def, THEN conjunct1] this [unfolded all_fed_def, THEN conjunct2, THEN conjunct1]
    this [unfolded all_fed_def, THEN conjunct2, THEN conjunct2, THEN conjunct1]
    this [unfolded all_fed_def, THEN conjunct2, THEN conjunct2, THEN conjunct2]
  show ?thesis
    unfolding vulcan_tag_get_min_def vulcan_tag_get_max_def vulcan_tag_get_ewma_def vulcan_tag_get_avg_def
      vulcan_tag_get_latest_def vulcan_tag_get_kth_recent_def vulcan_tag_get_window_avg_def vulcan_tag_get_window_count_def
    by (intro conjI) (rule fed [THEN fed_reads])+
qed

lemma demo_folio_tag: "relevant demo_split (clean_folio 2)" "folio_client_tag demo_split (Some (clean_folio 2)) = 2"
  by (simp_all add: relevant_def folio_host_def inode_in_watchlist_def folio_client_tag_def inode_get_client_tag_eq
      demo_split_simps clean_folio_def)

theorem tag_listeners_read_samples_witness:
  "vulcan_tag_get_avg demo_lib 2 16 (snd (split_run demo_lib avg_config (\<lambda>k i key. 0) list_kfuncs
     [Split_Hook (Folio_Added (clean_folio 2))] (demo_kernel, demo_split))) = vulcan_avg_get (vulcan_avg_update avg_zero 2)"
proof -
  let ?e = "[Split_Hook (Folio_Added (clean_folio 2))]"
  have "reads (enabled avg_config (LISTENER_AVG demo_lib)) (vl_av_update demo_lib) (vl_av_zero demo_lib) (vl_av_get demo_lib)
      (sample_run demo_lib avg_config (\<lambda>k i key. 0) list_kfuncs ?e (demo_kernel, demo_split) (\<lambda>key. [])) 2 16
      (vulcan_tag_get_avg demo_lib 2 16 (snd (split_run demo_lib avg_config (\<lambda>k i key. 0) list_kfuncs ?e (demo_kernel, demo_split))))"
    using tag_listeners_read_samples [OF list_kernel_ok demo_lib_ok demo_split_inv _ surjective_pairing [symmetric] refl,
        where G = avg_config and evs = ?e and k = demo_kernel and t = 2 and f = 16]
    by (simp add: demo_split_simps)
  moreover have "sample_run demo_lib avg_config (\<lambda>k i key. 0) list_kfuncs ?e (demo_kernel, demo_split) (\<lambda>key. [])
      \<lparr>tk_client_tag = 2, tk_feature_id = 16\<rparr> = [2]"
    by (simp add: demo_folio_tag emit_def avg_config_def list_kfuncs_def demo_kernel_def)
  ultimately show ?thesis
    by (simp add: reads_def VULCAN_NUM_GLOBAL_FEATURES_def enabled_def avg_config_def demo_lib_def)
qed

section \<open>The baseline configuration\<close>

lemma baseline_mask [simp]: "listener_mask (gf_config baseline_config i) = 0"
  by (simp add: baseline_config_def baseline_gf_config_def)

lemma baseline_feed [simp]: "feed_client_tag L baseline_config E t s = s"
  by (simp add: feed_client_tag_def vulcan_tag_update_feature_def)

lemma baseline_tcp: "split_trace_tcp_recvmsg L baseline_config E K sk k s = s"
  by (simp add: split_trace_tcp_recvmsg_def any_enabled_def all_features_def Let_def split: option.split)

definition listeners :: "('mm, 'ew, 'av, 'rw, 'fm) split_state \<Rightarrow> _" where
  "listeners s = (tgminmax s, tgewma s, tgavg s, tgrw s, split_net s)"

lemma listeners_frame [simp]:
  "listeners (split_bump_counter i s) = listeners s" "listeners (s\<lparr>split_meta := mm\<rparr>) = listeners s"
  "listeners (split_store K k f m s) = listeners s"
  by (simp_all add: listeners_def split_store_def)

lemma baseline_step:
  assumes "kernel_ok K"
  shows "listeners (snd (split_step L baseline_config E K ev (k, s))) = listeners s"
proof (cases ev)
  case (Split_Hook h)
  show ?thesis
    by (cases h) (auto simp: Split_Hook split_ops_def split_folio_added_def split_folio_accessed_def
        split_folio_evicted_def split_evict_state [OF assms] split_def Let_def split: option.split)
qed (simp add: baseline_tcp)

text \<open>
  With the configuration the evolution starts from, in which every mask is 0, no run of
  hooks and packets changes a listener or the fields read from the sockets: the seed policy
  is the LFU policy and nothing else, whatever the library and the errors of the kernel.
\<close>

lemma baseline_listeners_idle:
  assumes "kernel_ok K" "(k', s') = split_run L baseline_config E K evs (k, s)"
  shows "tgminmax s' = tgminmax s \<and> tgewma s' = tgewma s \<and> tgavg s' = tgavg s \<and> tgrw s' = tgrw s
    \<and> split_net s' = split_net s"
proof -
  have "listeners (snd (split_run L baseline_config E K evs w)) = listeners (snd w)" for w
    unfolding split_run_def
  proof (induction evs arbitrary: w)
    case (Cons ev evs)
    then show ?case using baseline_step [OF assms(1), of L E ev "fst w" "snd w"] by simp
  qed simp
  from this [of "(k, s)"] show ?thesis by (simp flip: assms(2) add: listeners_def)
qed

end
