(* ===== verification/Evolved_Vulcan.thy ===== *)
theory Evolved_Vulcan
  imports Evolved_Split
begin

text \<open>
  The single-client seed policy \<open>eviction_evo/initial_vulcan.c\<close> and the two policies the
  evolution kept as its best, \<open>eviction_evo/dual_host_traces/vulcan_evo/best/main.c\<close> and
  \<open>vulcan_evo_2/best/main.c\<close>. The three files share their hooks and their probe; they differ
  in the configuration of the listeners and in the score. The dispatch of features and its
  accessors (\<open>vulcan_bpf/vulcan_feature.h\<close>, a submodule that is not among the sources) are
  the argument \<open>L\<close>. Shown: no score overflows or reaches the one that protects a folio, for
  any content of the listeners; in which ranges more accesses never lower a score, and
  where they do.
\<close>

section \<open>The library\<close>

text \<open>\<open>'g\<close> is the content of the four arrays of listeners, \<open>'fm\<close> a folio's metadata.\<close>

record ('g, 'fm) feature_lib =
  FL_MINMAX :: u32
  FL_EWMA :: u32
  FL_RW :: u32
  fl_update_feature :: "u32 \<Rightarrow> s64 \<Rightarrow> feature_config \<Rightarrow> 'g \<Rightarrow> 'g"
  fl_get_ewma :: "u32 \<Rightarrow> 'g \<Rightarrow> s64"
  fl_get_max :: "u32 \<Rightarrow> 'g \<Rightarrow> s64"
  fl_get_min :: "u32 \<Rightarrow> 'g \<Rightarrow> s64"
  fl_get_latest :: "u32 \<Rightarrow> 'g \<Rightarrow> s64"
  fl_get_kth_recent :: "u32 \<Rightarrow> u32 \<Rightarrow> 'g \<Rightarrow> s64"
  fl_folio_init :: "u64 \<Rightarrow> 'fm"
  fl_folio_on_access :: "'fm \<Rightarrow> u64 \<Rightarrow> folio_config \<Rightarrow> 'fm"
  fm_access_count :: "'fm \<Rightarrow> u32"
  fm_last_access_ts :: "'fm \<Rightarrow> u64"
  fm_interval_ewma :: "'fm \<Rightarrow> s64"
  fm_interval_min :: "'fm \<Rightarrow> s64"
  fm_interval_max :: "'fm \<Rightarrow> s64"

section \<open>State\<close>

text \<open>\<open>vk_block\<close> holds the variables a candidate declares in its evolved block; these three have none.\<close>

record ('g, 'fm, 'x) vulcan_state = watch_state +
  vk_meta :: "(u64, 'fm) hmap"
  vk_features :: 'g
  vk_counters :: "u64 list"
  vk_main_list :: u64
  vk_net :: net_globals
  vk_block :: 'x

definition vulcan_meta_cap :: nat where "vulcan_meta_cap = 1000000"

definition vulcan_bump_counter :: "u32 \<Rightarrow> ('g, 'fm, 'x) vulcan_state \<Rightarrow> ('g, 'fm, 'x) vulcan_state" where
  "vulcan_bump_counter idx s = s\<lparr>vk_counters := counter_bump idx (vk_counters s)\<rparr>"

definition vulcan_is_folio_relevant :: "'a watch_state_scheme \<Rightarrow> folio option \<Rightarrow> bool" where
  "vulcan_is_folio_relevant s fo =
     (case fo of
        None \<Rightarrow> False
      | Some f \<Rightarrow> (case mapping f of
          None \<Rightarrow> False
        | Some m \<Rightarrow> (case host m of None \<Rightarrow> False | Some i \<Rightarrow> inode_in_watchlist s (i_ino i))))"

definition vulcan_is_last_page_in_file :: "folio \<Rightarrow> bool" where
  "vulcan_is_last_page_in_file f =
     (case mapping f of
        None \<Rightarrow> False
      | Some m \<Rightarrow> (case host m of
          None \<Rightarrow> False
        | Some inode \<Rightarrow>
            if folio_test_large f \<or> folio_test_hugetlb f then False
            else let file_size = i_size_read inode; page_index = folio_index f; page_size = 4096;
                     last_page_index = (file_size + page_size - 1) div page_size - 1
                 in page_index = last_page_index))"

section \<open>Configurations\<close>

definition no_listeners :: "u32 \<Rightarrow> feature_config" where
  "no_listeners i = \<lparr>listener_mask = 0, ewma_alpha = 0, rw_size = 0\<rparr>"

definition ewma_listener :: "('g, 'fm) feature_lib \<Rightarrow> u32 \<Rightarrow> feature_config" where
  "ewma_listener L alpha = \<lparr>listener_mask = FL_EWMA L, ewma_alpha = alpha, rw_size = 0\<rparr>"

definition minmax_listener :: "('g, 'fm) feature_lib \<Rightarrow> feature_config" where
  "minmax_listener L = \<lparr>listener_mask = FL_MINMAX L, ewma_alpha = 0, rw_size = 0\<rparr>"

definition vulcan_seed_config :: split_config where
  "vulcan_seed_config = \<lparr>gf_config = no_listeners, folio_cfg = \<lparr>fc_listener_mask = 0, fc_ewma_alpha = 200\<rparr>\<rparr>"

definition best1_config :: "('g, 'fm) feature_lib \<Rightarrow> split_config" where
  "best1_config L = \<lparr>gf_config = no_listeners(gf_index GF_SRTT_US := ewma_listener L 150,
       gf_index GF_PACKETS_OUT := ewma_listener L 200, gf_index GF_LOST := minmax_listener L),
     folio_cfg = \<lparr>fc_listener_mask = FL_EWMA L OR FL_MINMAX L, fc_ewma_alpha = 250\<rparr>\<rparr>"

definition best2_config :: "('g, 'fm) feature_lib \<Rightarrow> split_config" where
  "best2_config L = \<lparr>gf_config = no_listeners(gf_index GF_SRTT_US := ewma_listener L 310,
       gf_index GF_MDEV_US := ewma_listener L 150, gf_index GF_SND_CWND := ewma_listener L 175,
       gf_index GF_LOST := minmax_listener L, gf_index GF_INTER_ARRIVAL := ewma_listener L 45),
     folio_cfg = \<lparr>fc_listener_mask = FL_MINMAX L OR FL_EWMA L, fc_ewma_alpha = 200\<rparr>\<rparr>"

section \<open>Scores\<close>

text \<open>Division of signed 64-bit numbers in C truncates.\<close>

definition div64 :: "s64 \<Rightarrow> s64 \<Rightarrow> s64" where
  "div64 a b = word_of_int (sint a sdiv sint b)"

text \<open>The guards all three scores begin with; \<open>None\<close> is the score \<open>S64_MAX\<close>.\<close>

definition scored_meta :: "folio \<Rightarrow> ('g, 'fm, 'x) vulcan_state \<Rightarrow> 'fm option" where
  "scored_meta f s =
     (if folio_test_dirty f \<or> folio_test_writeback f then None
      else if \<not> folio_test_uptodate f \<or> \<not> folio_test_lru f then None
      else map_of (vk_meta s) (folio_addr f))"

definition seed_score_fn :: "('g, 'fm) feature_lib \<Rightarrow> ('k, ('g, 'fm, 'x) vulcan_state) kfuncs \<Rightarrow> 'k \<Rightarrow> folio \<Rightarrow>
    ('g, 'fm, 'x) vulcan_state \<Rightarrow> s64 \<times> ('g, 'fm, 'x) vulcan_state" where
  "seed_score_fn L K k f s =
     (case scored_meta f s of
        None \<Rightarrow> (INT64_MAX, s)
      | Some meta \<Rightarrow>
          let score = (ucast (fm_access_count L meta) :: s64)
          in (if vulcan_is_last_page_in_file f then score + 100000 else score, s))"

text \<open>
  The first best policy: the count weighted by recency and by the state of the network, a
  bonus for hot folios and a penalty for cold ones.
\<close>

definition recency_factor :: "u64 \<Rightarrow> s64" where
  "recency_factor time_since_access =
     (if time_since_access < 1000000000 then 50
      else if time_since_access < 10000000000 then
        let elapsed_seconds = (time_since_access - 1000000000) div 1000000000;
            r = 50 - div64 (elapsed_seconds * 50) 9
        in if r <s 0 then 0 else r
      else 0)"

definition network_factor :: "s64 \<Rightarrow> s64 \<Rightarrow> s64" where
  "network_factor srtt_ewma max_lost =
     (let n = (if 5000 <s srtt_ewma then 125 else 100);
          n = (if 10000 <s srtt_ewma then 150 else n)
      in if 0 <s max_lost \<and> 3000 <s srtt_ewma then div64 (n * 115) 100 else n)"

definition heat_adjust :: "s64 \<Rightarrow> s64 \<Rightarrow> s64" where
  "heat_adjust interval_ewma score =
     (if 0 <s interval_ewma \<and> interval_ewma <s 1000000000 then score + 100
      else if 10000000000 <s interval_ewma then (if 100 <s score then score - 100 else score)
      else score)"

definition best1_score_fn :: "('g, 'fm) feature_lib \<Rightarrow> ('k, ('g, 'fm, 'x) vulcan_state) kfuncs \<Rightarrow> 'k \<Rightarrow> folio \<Rightarrow>
    ('g, 'fm, 'x) vulcan_state \<Rightarrow> s64 \<times> ('g, 'fm, 'x) vulcan_state" where
  "best1_score_fn L K k f s =
     (case scored_meta f s of
        None \<Rightarrow> (INT64_MAX, s)
      | Some meta \<Rightarrow>
          let now = kf_ktime_get_ns K k;
              base_score = div64 (ucast (fm_access_count L meta) * (100 + recency_factor (now - fm_last_access_ts L meta))) 100;
              srtt_ewma = fl_get_ewma L (gf_index GF_SRTT_US) (vk_features s);
              max_lost = fl_get_max L (gf_index GF_LOST) (vk_features s);
              score = div64 (base_score * network_factor srtt_ewma max_lost) 100;
              score = heat_adjust (fm_interval_ewma L meta) score
          in (if vulcan_is_last_page_in_file f then score + 100000 else score, s))"

text \<open>
  The second: the count and a share of it by the smoothed round-trip time, and bonuses for
  loss, heat, regularity and recency. The shares are computed in 32 unsigned bits.
\<close>

definition rtt_share :: "s64 \<Rightarrow> u32 \<Rightarrow> u32" where
  "rtt_share rtt_ewma n =
     (if 50000 <s rtt_ewma then n div 2
      else if 35000 <s rtt_ewma then n * 3 div 8
      else if 20000 <s rtt_ewma then n div 4
      else 0)"

definition heat_bonus :: "s64 \<Rightarrow> s64" where
  "heat_bonus interval_ewma =
     (if 0 <s interval_ewma \<and> interval_ewma <s 100000000 then 5000
      else if 0 <s interval_ewma \<and> interval_ewma <s 1000000000 then 2000 else 0)"

definition regular_bonus :: "s64 \<Rightarrow> s64 \<Rightarrow> s64" where
  "regular_bonus interval_min interval_max =
     (if 0 <s interval_min \<and> 0 <s interval_max
      then let variance = interval_max - interval_min in if variance <s 50000000 then 2000 else 0
      else 0)"

definition recency_bonus :: "s64 \<Rightarrow> s64 \<Rightarrow> s64 \<Rightarrow> s64" where
  "recency_bonus age mdev_ewma lost_max =
     (let high_jitter = 10000 <s mdev_ewma;
          primary_threshold = (if high_jitter then 7000000000 else 5000000000)
      in if age <s primary_threshold then (if 0 <s lost_max then 4500 else 3000)
         else if age <s 30000000000 then
           let base_bonus = (if high_jitter then 1200 else 1000)
           in if 0 <s lost_max then base_bonus + 500 else base_bonus
         else if age <s 60000000000 then (if 0 <s lost_max then 500 else 0)
         else 0)"

definition best2_score_fn :: "('g, 'fm) feature_lib \<Rightarrow> ('k, ('g, 'fm, 'x) vulcan_state) kfuncs \<Rightarrow> 'k \<Rightarrow> folio \<Rightarrow>
    ('g, 'fm, 'x) vulcan_state \<Rightarrow> s64 \<times> ('g, 'fm, 'x) vulcan_state" where
  "best2_score_fn L K k f s =
     (case scored_meta f s of
        None \<Rightarrow> (INT64_MAX, s)
      | Some meta \<Rightarrow>
          let n = fm_access_count L meta;
              score = ucast n;
              rtt_ewma = fl_get_ewma L (gf_index GF_SRTT_US) (vk_features s);
              score = score + ucast (rtt_share rtt_ewma n);
              lost_max = fl_get_max L (gf_index GF_LOST) (vk_features s);
              score = (if 0 <s lost_max then score + ucast (n div 3) else score);
              score = score + heat_bonus (fm_interval_ewma L meta);
              score = score + regular_bonus (fm_interval_min L meta) (fm_interval_max L meta);
              now = kf_ktime_get_ns K k;
              age = now - fm_last_access_ts L meta;
              mdev_ewma = fl_get_ewma L (gf_index GF_MDEV_US) (vk_features s);
              score = score + recency_bonus age mdev_ewma lost_max
          in (if vulcan_is_last_page_in_file f then score + 100000 else score, s))"

section \<open>Hooks\<close>

text \<open>They are the same in the three files, given the score \<open>sc\<close> and the configuration \<open>G\<close>.\<close>

definition vulcan_init :: "('k, ('g, 'fm, 'x) vulcan_state) kfuncs \<Rightarrow> u64 \<Rightarrow> 'k \<Rightarrow> ('g, 'fm, 'x) vulcan_state \<Rightarrow>
    s32 \<times> 'k \<times> ('g, 'fm, 'x) vulcan_state" where
  "vulcan_init K memcg k s =
     (let (l, k1) = kf_new_list K memcg k; s1 = s\<lparr>vk_main_list := l\<rparr>
      in if l = 0 then (- 1, k1, s1) else (0, k1, s1))"

definition vulcan_evict_folios :: "('k \<Rightarrow> folio \<Rightarrow> ('g, 'fm, 'x) vulcan_state \<Rightarrow> s64 \<times> ('g, 'fm, 'x) vulcan_state) \<Rightarrow>
    ('k, ('g, 'fm, 'x) vulcan_state) kfuncs \<Rightarrow> evict_ctx \<Rightarrow> u64 \<Rightarrow> 'k \<Rightarrow> ('g, 'fm, 'x) vulcan_state \<Rightarrow>
    evict_ctx \<times> 'k \<times> ('g, 'fm, 'x) vulcan_state" where
  "vulcan_evict_folios sc K ctx memcg k s =
     (let s1 = vulcan_bump_counter 0 s;
          opts = \<lparr>sample_size = 20, select_size = 0\<rparr>;
          (r, ctx', k', s') = kf_list_sample K memcg (vk_main_list s1) sc opts ctx k s1
      in (ctx', k', s'))"

definition vulcan_store :: "('k, ('g, 'fm, 'x) vulcan_state) kfuncs \<Rightarrow> 'k \<Rightarrow> folio \<Rightarrow> 'fm \<Rightarrow>
    ('g, 'fm, 'x) vulcan_state \<Rightarrow> ('g, 'fm, 'x) vulcan_state" where
  "vulcan_store K k f new_meta s =
     s\<lparr>vk_meta := snd (hmap_update vulcan_meta_cap (kf_map_err K k (folio_addr f))
        (folio_addr f) new_meta (vk_meta s))\<rparr>"

definition vulcan_folio_added :: "('g, 'fm) feature_lib \<Rightarrow> ('k, ('g, 'fm, 'x) vulcan_state) kfuncs \<Rightarrow> folio \<Rightarrow> 'k \<Rightarrow>
    ('g, 'fm, 'x) vulcan_state \<Rightarrow> 'k \<times> ('g, 'fm, 'x) vulcan_state" where
  "vulcan_folio_added L K f k s =
     (if \<not> vulcan_is_folio_relevant s (Some f) then (k, s)
      else let (ret, k1) = kf_list_add_tail K (vk_main_list s) f k
        in if ret \<noteq> 0 then (k1, vulcan_bump_counter 1 s)
           else let new_meta = fl_folio_init L (kf_ktime_get_ns K k1)
                in (k1, vulcan_bump_counter 2 (vulcan_store K k1 f new_meta s)))"

definition vulcan_folio_accessed :: "('g, 'fm) feature_lib \<Rightarrow> split_config \<Rightarrow> ('k, ('g, 'fm, 'x) vulcan_state) kfuncs \<Rightarrow>
    folio \<Rightarrow> 'k \<Rightarrow> ('g, 'fm, 'x) vulcan_state \<Rightarrow> 'k \<times> ('g, 'fm, 'x) vulcan_state" where
  "vulcan_folio_accessed L G K f k s =
     (if \<not> vulcan_is_folio_relevant s (Some f) then (k, s)
      else let key = folio_addr f in
        case map_of (vk_meta s) key of
          None \<Rightarrow>
            let (ret, k1) = kf_list_add K (vk_main_list s) f k;
                k2 = (if ret \<noteq> 0 then snd (kf_list_move K (vk_main_list s) f False k1) else k1);
                new_meta = fl_folio_init L (kf_ktime_get_ns K k2)
            in (k2, vulcan_bump_counter 3 (vulcan_store K k2 f new_meta s))
        | Some meta \<Rightarrow>
            let meta' = fl_folio_on_access L meta (kf_ktime_get_ns K k) (folio_cfg G)
            in (k, vulcan_bump_counter 4 (s\<lparr>vk_meta := hmap_modify key (\<lambda>_. meta') (vk_meta s)\<rparr>)))"

definition vulcan_folio_evicted :: "folio \<Rightarrow> 'k \<Rightarrow> ('g, 'fm, 'x) vulcan_state \<Rightarrow> 'k \<times> ('g, 'fm, 'x) vulcan_state" where
  "vulcan_folio_evicted f k s =
     (if \<not> vulcan_is_folio_relevant s (Some f) then (k, s)
      else (k, vulcan_bump_counter 5 (s\<lparr>vk_meta := snd (hmap_delete (folio_addr f) (vk_meta s))\<rparr>)))"

definition vulcan_ops :: "('g, 'fm) feature_lib \<Rightarrow> split_config \<Rightarrow>
    (('k, ('g, 'fm, 'x) vulcan_state) kfuncs \<Rightarrow> 'k \<Rightarrow> folio \<Rightarrow> ('g, 'fm, 'x) vulcan_state \<Rightarrow> s64 \<times> ('g, 'fm, 'x) vulcan_state) \<Rightarrow>
    ('k, ('g, 'fm, 'x) vulcan_state) kfuncs \<Rightarrow> ('k, ('g, 'fm, 'x) vulcan_state) cache_ext_ops" where
  "vulcan_ops L G sc K = \<lparr>
     op_init = vulcan_init K,
     op_evict_folios = vulcan_evict_folios (sc K) K,
     op_folio_added = vulcan_folio_added L K,
     op_folio_accessed = Some (vulcan_folio_accessed L G K),
     op_folio_evicted = vulcan_folio_evicted\<rparr>"

section \<open>The probe\<close>

definition vulcan_any_enabled :: "split_config \<Rightarrow> u32" where
  "vulcan_any_enabled G = fold (\<lambda>gf any. any OR listener_mask (gf_config G (gf_index gf))) (butlast all_features) 0"

text \<open>The fields are read from the socket as in \<open>initial_vulcan_split.c\<close>; there is no tag.\<close>

definition vulcan_trace_tcp_recvmsg :: "('g, 'fm) feature_lib \<Rightarrow> split_config \<Rightarrow> ('k, ('g, 'fm, 'x) vulcan_state) kfuncs \<Rightarrow>
    tcp_sock option \<Rightarrow> 'k \<Rightarrow> ('g, 'fm, 'x) vulcan_state \<Rightarrow> ('g, 'fm, 'x) vulcan_state" where
  "vulcan_trace_tcp_recvmsg L G K sk k s =
     (case sk of
        None \<Rightarrow> s
      | Some tp \<Rightarrow>
          let sport = skc_num tp
          in if sport \<noteq> 9100 \<and> sport \<noteq> 9001 \<and> sport \<noteq> 9002 then s
             else if vulcan_any_enabled G = 0 then s
             else let g = read_tcp_sock (kf_ktime_get_ns K k) tp (vk_net s);
                      inter_arrival = (if ng_prev_packet_ts g > 0
                        then ng_last_packet_ts g - ng_prev_packet_ts g else 0);
                      update = (\<lambda>gf fs. let cfg = gf_config G (gf_index gf)
                        in if listener_mask cfg \<noteq> 0
                           then fl_update_feature L (gf_index gf) (raw_value g inter_arrival gf) cfg fs else fs)
                  in s\<lparr>vk_net := g, vk_features := fold update (butlast all_features) (vk_features s)\<rparr>)"

section \<open>Guards\<close>

lemma vulcan_is_folio_relevant_eq [simp]:
  "vulcan_is_folio_relevant s (Some f) = relevant s f"
  by (simp add: vulcan_is_folio_relevant_def relevant_def folio_host_def split: option.splits)

lemma scored_meta_eq:
  "scored_meta f s = (if evictable f then map_of (vk_meta s) (folio_addr f) else None)"
  by (auto simp: scored_meta_def evictable_tests)

section \<open>Ranges\<close>

text \<open>
  The scores are computed on words; what they are is said on integers: \<open>accesses\<close> is a folio's
  number of accesses.
\<close>

abbreviation accesses :: "('g, 'fm) feature_lib \<Rightarrow> 'fm \<Rightarrow> int" where
  "accesses L meta \<equiv> uint (fm_access_count L meta)"

abbreviation last_page :: "folio \<Rightarrow> int" where
  "last_page f \<equiv> (if vulcan_is_last_page_in_file f then 100000 else 0)"

lemma ucast_u32: "(ucast (n :: u32) :: s64) = word_of_int (uint n)"
  by (rule ucast_eq)

lemma uint_u32: "0 \<le> uint (n :: u32)" "uint n < 2 ^ 32"
  using uint_lt2p [of n] by simp_all

lemma sint_u32: "sint (ucast (n :: u32) :: s64) = uint n"
  unfolding ucast_u32
  by (intro sint_wrap_small order.trans [OF _ uint_u32(1)] less_trans [OF uint_u32(2)]) simp_all

lemma div64_nonneg:
  assumes "0 \<le> a" "a < 2 ^ 63" "0 < b" "b < 2 ^ 63"
  shows "div64 (word_of_int a) (word_of_int b) = word_of_int (a div b)"
  using assms by (cases "a = 0") (simp_all add: div64_def sint_wrap_small signed_divide_int_def)

lemma recency_factor_cases: "\<exists>r. 0 \<le> r \<and> r \<le> 50 \<and> recency_factor t = word_of_int r"
proof (cases "1000000000 \<le> t \<and> t < 10000000000")
  case True
  have "unat t < 10000000000" "1000000000 \<le> unat t"
    using True by (simp_all add: word_less_nat_alt word_le_nat_alt)
  then have "unat ((t - 1000000000) div 1000000000) \<le> 8" using True by (simp add: unat_div unat_sub)
  then have "uint ((t - 1000000000) div 1000000000) \<le> 8" unfolding uint_nat by linarith
  then obtain e where e: "(t - 1000000000) div 1000000000 = word_of_int e" "0 \<le> e" "e \<le> 8"
    using word_of_int_uint [symmetric] uint_ge_0 by blast
  have d: "div64 (word_of_int e * 50) 9 = word_of_int (e * 50 div 9)"
    using div64_nonneg [of "e * 50" 9] e(2,3) by simp
  let ?r = "50 - e * 50 div 9"
  have r: "0 \<le> ?r" "?r \<le> 50" using e by linarith+
  have w: "50 - div64 (word_of_int e * 50) 9 = word_of_int ?r" unfolding d by simp
  have "sint (word_of_int ?r :: s64) = ?r" using r by (intro sint_wrap_small) simp_all
  then have "\<not> (50 - div64 (word_of_int e * 50) 9 <s 0)" unfolding w using r by (simp only: word_sless_alt) simp
  then have "recency_factor t = word_of_int ?r"
    using True w unfolding recency_factor_def e(1) by (auto simp: Let_def)
  with r show ?thesis by blast
next
  case False
  show ?thesis
  proof (cases "t < 1000000000")
    case True
    then show ?thesis by (intro exI [of _ 50]) (simp add: recency_factor_def)
  next
    case old: False
    then have "\<not> t < 10000000000" using False by (simp add: not_less)
    then show ?thesis using old by (intro exI [of _ 0]) (simp add: recency_factor_def leD)
  qed
qed

lemma network_factor_cases: "\<exists>m. 100 \<le> m \<and> m \<le> 172 \<and> network_factor srtt lost = word_of_int m"
proof -
  let ?n = "if 10000 <s srtt then 150 else if 5000 <s srtt then 125 else (100 :: int)"
  have n: "(let n = (if 5000 <s srtt then 125 else 100) in if 10000 <s srtt then 150 else n) = (word_of_int ?n :: s64)"
    by (simp add: Let_def)
  have d: "div64 (word_of_int ?n * 115) 100 = word_of_int (?n * 115 div 100)"
    using div64_nonneg [of "?n * 115" 100] by (simp add: wi_hom_mult)
  have "network_factor srtt lost = word_of_int (if 0 <s lost \<and> 3000 <s srtt then ?n * 115 div 100 else ?n)"
    using n d by (simp add: network_factor_def Let_def)
  moreover have "100 \<le> (if 0 <s lost \<and> 3000 <s srtt then ?n * 115 div 100 else ?n)"
    "(if 0 <s lost \<and> 3000 <s srtt then ?n * 115 div 100 else ?n) \<le> 172" by simp_all
  ultimately show ?thesis by blast
qed

text \<open>The last step of two scores, on integers.\<close>

definition heated :: "s64 \<Rightarrow> int \<Rightarrow> int" where
  "heated interval_ewma x =
     (if 0 <s interval_ewma \<and> interval_ewma <s 1000000000 then x + 100
      else if 10000000000 <s interval_ewma \<and> 100 < x then x - 100 else x)"

lemma heat_adjust_int:
  assumes "0 \<le> x" "x < 2 ^ 40"
  shows "heat_adjust i (word_of_int x) = word_of_int (heated i x)"
proof -
  have "sint (word_of_int x :: s64) = x" using assms by (intro sint_wrap_small) simp_all
  then have "100 <s (word_of_int x :: s64) \<longleftrightarrow> 100 < x" by (simp add: word_sless_alt)
  then show ?thesis by (simp add: heat_adjust_def heated_def)
qed

definition best1_value :: "int \<Rightarrow> int \<Rightarrow> int \<Rightarrow> s64 \<Rightarrow> int" where
  "best1_value c r m i = heated i (c * (100 + r) div 100 * m div 100)"

lemma best1_weighted:
  fixes c r m :: int
  assumes "0 \<le> c" "c < 2 ^ 32" "0 \<le> r" "r \<le> 50" "100 \<le> m" "m \<le> 172"
  shows "c \<le> c * (100 + r) div 100" "c * (100 + r) div 100 \<le> 2 * c"
    "c \<le> c * (100 + r) div 100 * m div 100" "c * (100 + r) div 100 * m div 100 \<le> 3 * c"
proof -
  have b: "100 * c \<le> c * (100 + r)" "c * (100 + r) \<le> 150 * c"
    using assms mult_left_mono [of 100 "100 + r" c] mult_left_mono [of "100 + r" 150 c] by simp_all
  let ?b = "c * (100 + r) div 100"
  have lo: "c \<le> ?b" and hi: "2 * ?b \<le> 3 * c" using b by linarith+
  show "c \<le> ?b" "?b \<le> 2 * c" using lo hi assms(1) by linarith+
  have "0 \<le> ?b" using lo assms(1) by linarith
  then have "100 * ?b \<le> ?b * m" "?b * m \<le> 172 * ?b"
    using assms(5,6) mult_left_mono [of 100 m ?b] mult_left_mono [of m 172 ?b] by simp_all
  then show "c \<le> ?b * m div 100" "?b * m div 100 \<le> 3 * c" using lo hi by linarith+
qed

lemma best1_arith:
  assumes "0 \<le> c" "c < 2 ^ 32" "0 \<le> r" "r \<le> 50" "100 \<le> m" "m \<le> 172"
  shows "heat_adjust i (div64 (div64 (word_of_int c * (100 + word_of_int r)) 100 * word_of_int m) 100) =
    word_of_int (best1_value c r m i)"
proof -
  let ?b = "c * (100 + r) div 100"
  note w = best1_weighted [OF assms]
  have c: "c * (100 + r) < 2 ^ 63" "0 \<le> c * (100 + r)"
    using assms mult_left_mono [of "100 + r" 150 c] by simp_all
  have "?b * m < 2 ^ 63" "0 \<le> ?b * m"
    using assms w mult_left_mono [of m 172 ?b] by simp_all
  moreover have "div64 (word_of_int c * (100 + word_of_int r)) 100 = word_of_int ?b"
    using div64_nonneg [of "c * (100 + r)" 100] c by simp
  ultimately have "div64 (div64 (word_of_int c * (100 + word_of_int r)) 100 * word_of_int m) 100
      = word_of_int (?b * m div 100)"
    using div64_nonneg [of "?b * m" 100] by simp
  moreover have "0 \<le> ?b * m div 100" "?b * m div 100 < 2 ^ 40" using w assms(1,2) by simp_all
  ultimately show ?thesis by (simp add: heat_adjust_int best1_value_def)
qed

lemma heated_bounds: "0 \<le> x \<Longrightarrow> 0 \<le> heated i x \<and> x - 100 \<le> heated i x \<and> heated i x \<le> x + 100"
  by (simp add: heated_def)

lemma sint_value:
  "w = (word_of_int (v + b) :: s64) \<Longrightarrow> 0 \<le> v \<Longrightarrow> v \<le> u \<Longrightarrow> u < 2 ^ 62 \<Longrightarrow> 0 \<le> b \<Longrightarrow> b \<le> 2 ^ 62 \<Longrightarrow>
   sint w = v + b"
  by (simp only:) (rule sint_wrap_small; simp)

lemma best1_score_eq:
  assumes "evictable f" "map_of (vk_meta s) (folio_addr f) = Some meta"
    and "recency_factor (kf_ktime_get_ns K k - fm_last_access_ts L meta) = word_of_int r" "0 \<le> r" "r \<le> 50"
    and "network_factor (fl_get_ewma L (gf_index GF_SRTT_US) (vk_features s)) (fl_get_max L (gf_index GF_LOST) (vk_features s))
      = word_of_int m" "100 \<le> m" "m \<le> 172"
  shows "sint (fst (best1_score_fn L K k f s)) = best1_value (accesses L meta) r m (fm_interval_ewma L meta) + last_page f"
proof -
  let ?v = "best1_value (accesses L meta) r m (fm_interval_ewma L meta)"
  have "fst (best1_score_fn L K k f s) = word_of_int (?v + last_page f)"
    using assms best1_arith [OF uint_u32 assms(4,5,7,8)]
    by (simp add: best1_score_fn_def scored_meta_eq Let_def del: gf_index.simps)
  moreover have "0 \<le> ?v" "?v \<le> 3 * accesses L meta + 100"
    using best1_weighted(3,4) [OF uint_u32 assms(4,5,7,8)] heated_bounds uint_u32
    unfolding best1_value_def by (smt (verit))+
  ultimately show ?thesis by (rule sint_value) (use uint_u32(2) [of "fm_access_count L meta"] in simp_all)
qed

section \<open>The second best policy\<close>

definition rtt_part :: "s64 \<Rightarrow> int \<Rightarrow> int" where
  "rtt_part rtt_ewma c =
     (if 50000 <s rtt_ewma then c div 2
      else if 35000 <s rtt_ewma then 3 * c mod 2 ^ 32 div 8
      else if 20000 <s rtt_ewma then c div 4 else 0)"

lemma rtt_share_int: "uint (rtt_share rtt n) = rtt_part rtt (uint n)"
  by (simp add: rtt_share_def rtt_part_def uint_div uint_word_ariths mult.commute)

lemma rtt_part_bounds: "0 \<le> c \<Longrightarrow> 0 \<le> rtt_part rtt c \<and> 2 * rtt_part rtt c \<le> c"
proof -
  assume c: "0 \<le> c"
  have "0 \<le> 3 * c mod 2 ^ 32 div 8" by simp
  moreover have "3 * c mod 2 ^ 32 \<le> 3 * c" using c by (intro zmod_le_nonneg_dividend) simp
  then have "2 * (3 * c mod 2 ^ 32 div 8) \<le> c" using c by linarith
  ultimately show ?thesis using c by (auto simp: rtt_part_def)
qed

lemma bonus_cases:
  "\<exists>b. 0 \<le> b \<and> b \<le> 5000 \<and> heat_bonus i = word_of_int b"
  "\<exists>b. 0 \<le> b \<and> b \<le> 2000 \<and> regular_bonus mn mx = word_of_int b"
  "\<exists>b. 0 \<le> b \<and> b \<le> 4500 \<and> recency_bonus age mdev lost = word_of_int b"
proof -
  show "\<exists>b. 0 \<le> b \<and> b \<le> 5000 \<and> heat_bonus i = word_of_int b"
    by (intro exI [of _ "if 0 <s i \<and> i <s 100000000 then 5000 else if 0 <s i \<and> i <s 1000000000 then 2000 else 0"])
      (simp add: heat_bonus_def)
  show "\<exists>b. 0 \<le> b \<and> b \<le> 2000 \<and> regular_bonus mn mx = word_of_int b"
    by (intro exI [of _ "if 0 <s mn \<and> 0 <s mx \<and> mx - mn <s 50000000 then 2000 else 0"])
      (simp add: regular_bonus_def Let_def)
  let ?jitter = "10000 <s mdev"
  let ?b = "if age <s (if ?jitter then 7000000000 else 5000000000) then (if 0 <s lost then 4500 else 3000)
    else if age <s 30000000000 then (if ?jitter then 1200 else 1000) + (if 0 <s lost then 500 else 0)
    else if age <s 60000000000 \<and> 0 <s lost then 500 else (0 :: int)"
  have "0 \<le> ?b" "?b \<le> 4500" by simp_all
  moreover have "recency_bonus age mdev lost = word_of_int ?b"
    unfolding recency_bonus_def Let_def by (cases ?jitter; cases "0 <s lost") simp_all
  ultimately show "\<exists>b. 0 \<le> b \<and> b \<le> 4500 \<and> recency_bonus age mdev lost = word_of_int b" by blast
qed

text \<open>The score of a folio with \<open>c\<close> accesses and bonuses of \<open>b\<close> in all.\<close>

definition best2_value :: "s64 \<Rightarrow> s64 \<Rightarrow> int \<Rightarrow> int \<Rightarrow> int" where
  "best2_value rtt lost b c = c + rtt_part rtt c + (if 0 <s lost then c div 3 else 0) + b"

lemma best2_bounds:
  "0 \<le> c \<Longrightarrow> 0 \<le> b \<Longrightarrow> c \<le> best2_value rtt lost b c \<and> best2_value rtt lost b c \<le> 2 * c + b"
  using rtt_part_bounds [of c rtt] by (auto simp: best2_value_def)

lemma best2_score_eq:
  assumes "evictable f" "map_of (vk_meta s) (folio_addr f) = Some meta"
    and b: "heat_bonus (fm_interval_ewma L meta) = word_of_int h" "0 \<le> h" "h \<le> 5000"
      "regular_bonus (fm_interval_min L meta) (fm_interval_max L meta) = word_of_int g" "0 \<le> g" "g \<le> 2000"
      "recency_bonus (kf_ktime_get_ns K k - fm_last_access_ts L meta) (fl_get_ewma L (gf_index GF_MDEV_US) (vk_features s))
        (fl_get_max L (gf_index GF_LOST) (vk_features s)) = word_of_int e" "0 \<le> e" "e \<le> 4500"
  shows "sint (fst (best2_score_fn L K k f s)) =
    best2_value (fl_get_ewma L (gf_index GF_SRTT_US) (vk_features s)) (fl_get_max L (gf_index GF_LOST) (vk_features s))
      (h + g + e) (accesses L meta) + last_page f"
proof -
  let ?rtt = "fl_get_ewma L (gf_index GF_SRTT_US) (vk_features s)" and ?lost = "fl_get_max L (gf_index GF_LOST) (vk_features s)"
  let ?n = "fm_access_count L meta"
  let ?v = "best2_value ?rtt ?lost (h + g + e) (uint ?n)"
  have share: "(ucast (rtt_share ?rtt ?n) :: s64) = word_of_int (rtt_part ?rtt (uint ?n))"
    unfolding ucast_u32 rtt_share_int ..
  have third: "(ucast (?n div 3) :: s64) = word_of_int (uint ?n div 3)"
    unfolding ucast_u32 by (simp add: uint_div)
  have "fst (best2_score_fn L K k f s) = word_of_int (?v + last_page f)"
    using assms(1,2) b(1,4,7) share third
    by (simp add: best2_score_fn_def scored_meta_eq Let_def best2_value_def del: gf_index.simps)
  moreover have "0 \<le> ?v" "?v \<le> 2 * uint ?n + (h + g + e)"
    using best2_bounds [OF uint_u32(1), of "h + g + e" ?n ?rtt ?lost] b uint_u32(1) [of ?n] by linarith+
  ultimately show ?thesis by (rule sint_value) (use uint_u32(2) [of ?n] b in simp_all)
qed

section \<open>Bounds\<close>

text \<open>
  For a folio that may be evicted and is tracked, and whatever the listeners hold, none of
  the three scores overflows or comes near the score that protects a folio: the seed's is the
  number of accesses, the first best policy's lies between 100 below it and three times it
  and 100, the second's between it and twice it and 11500, each with 100000 more for the last
  page of a file.
\<close>

lemma evolved_scores_bounded:
  assumes "evictable f" "map_of (vk_meta s) (folio_addr f) = Some meta"
  shows "sint (fst (seed_score_fn L K k f s)) = accesses L meta + last_page f
    \<and> max 0 (accesses L meta - 100) \<le> sint (fst (best1_score_fn L K k f s)) - last_page f
    \<and> sint (fst (best1_score_fn L K k f s)) - last_page f \<le> 3 * accesses L meta + 100
    \<and> accesses L meta \<le> sint (fst (best2_score_fn L K k f s)) - last_page f
    \<and> sint (fst (best2_score_fn L K k f s)) - last_page f \<le> 2 * accesses L meta + 11500"
proof -
  let ?n = "fm_access_count L meta"
  have "fst (seed_score_fn L K k f s) = word_of_int (uint ?n + last_page f)"
    using assms by (simp add: seed_score_fn_def scored_meta_eq Let_def)
  then have seed: "sint (fst (seed_score_fn L K k f s)) = uint ?n + last_page f"
    by (rule sint_value [of _ _ _ "uint ?n"]) (use uint_u32 [of ?n] in simp_all)
  obtain r m where r: "recency_factor (kf_ktime_get_ns K k - fm_last_access_ts L meta) = word_of_int r" "0 \<le> r" "r \<le> 50"
    and m: "network_factor (fl_get_ewma L (gf_index GF_SRTT_US) (vk_features s))
      (fl_get_max L (gf_index GF_LOST) (vk_features s)) = word_of_int m" "100 \<le> m" "m \<le> 172"
    using recency_factor_cases network_factor_cases by metis
  note one = best1_score_eq [OF assms r m]
  have one_b: "max 0 (uint ?n - 100) \<le> best1_value (uint ?n) r m (fm_interval_ewma L meta)"
    "best1_value (uint ?n) r m (fm_interval_ewma L meta) \<le> 3 * uint ?n + 100"
    using best1_weighted(3,4) [OF uint_u32 r(2,3) m(2,3), of ?n] heated_bounds [of _ "fm_interval_ewma L meta"]
      uint_u32(1) [of ?n] unfolding best1_value_def by (smt (verit))+
  obtain h g e where h: "heat_bonus (fm_interval_ewma L meta) = word_of_int h" "0 \<le> h" "h \<le> 5000"
    and g: "regular_bonus (fm_interval_min L meta) (fm_interval_max L meta) = word_of_int g" "0 \<le> g" "g \<le> 2000"
    and e: "recency_bonus (kf_ktime_get_ns K k - fm_last_access_ts L meta) (fl_get_ewma L (gf_index GF_MDEV_US) (vk_features s))
        (fl_get_max L (gf_index GF_LOST) (vk_features s)) = word_of_int e" "0 \<le> e" "e \<le> 4500"
    using bonus_cases by metis
  note two = best2_score_eq [OF assms h g e]
  show ?thesis
    using seed one one_b two h g e
      best2_bounds [OF uint_u32(1), of "h + g + e" ?n "fl_get_ewma L (gf_index GF_SRTT_US) (vk_features s)"
        "fl_get_max L (gf_index GF_LOST) (vk_features s)"] by simp
qed

lemma evolved_scores_protect:
  "\<not> evictable f \<or> map_of (vk_meta s) (folio_addr f) = None \<Longrightarrow>
   sc \<in> {seed_score_fn, best1_score_fn, best2_score_fn} \<Longrightarrow> sc L K k f s = (INT64_MAX, s)"
  by (auto simp: seed_score_fn_def best1_score_fn_def best2_score_fn_def scored_meta_eq)

section \<open>More accesses\<close>

lemma rtt_part_mono:
  assumes "0 \<le> c" "c \<le> c'" "3 * c' < 2 ^ 32"
  shows "rtt_part rtt c \<le> rtt_part rtt c'"
  using assms by (simp add: rtt_part_def zdiv_mono1)

lemma best2_value_mono:
  "0 \<le> c \<Longrightarrow> c \<le> c' \<Longrightarrow> 3 * c' < 2 ^ 32 \<Longrightarrow> best2_value rtt lost b c \<le> best2_value rtt lost b c'"
  using rtt_part_mono [of c c' rtt] by (simp add: best2_value_def add_mono zdiv_mono1)

text \<open>
  Under the second best policy, of two tracked, evictable folios that differ only in the
  number of accesses the one with more never scores lower, as long as three times that
  number fits in 32 bits. (Beyond, with a smoothed round-trip time between 35 and 50 ms, the
  product in the share wraps.)
\<close>

lemma best2_monotone:
  assumes "evictable f" "map_of (vk_meta s) (folio_addr f) = Some meta"
    and "evictable f'" "map_of (vk_meta s) (folio_addr f') = Some meta'"
    and "fm_interval_ewma L meta = fm_interval_ewma L meta'" "fm_interval_min L meta = fm_interval_min L meta'"
      "fm_interval_max L meta = fm_interval_max L meta'" "fm_last_access_ts L meta = fm_last_access_ts L meta'"
      "vulcan_is_last_page_in_file f = vulcan_is_last_page_in_file f'"
    and "fm_access_count L meta \<le> fm_access_count L meta'" "3 * uint (fm_access_count L meta') < 2 ^ 32"
  shows "sint (fst (best2_score_fn L K k f s)) \<le> sint (fst (best2_score_fn L K k f' s))"
proof -
  obtain h g e where b: "heat_bonus (fm_interval_ewma L meta') = word_of_int h" "0 \<le> h" "h \<le> 5000"
      "regular_bonus (fm_interval_min L meta') (fm_interval_max L meta') = word_of_int g" "0 \<le> g" "g \<le> 2000"
      "recency_bonus (kf_ktime_get_ns K k - fm_last_access_ts L meta') (fl_get_ewma L (gf_index GF_MDEV_US) (vk_features s))
        (fl_get_max L (gf_index GF_LOST) (vk_features s)) = word_of_int e" "0 \<le> e" "e \<le> 4500"
    using bonus_cases by metis
  have "uint (fm_access_count L meta) \<le> uint (fm_access_count L meta')" using assms(10) by (simp add: word_le_def)
  then show ?thesis
    using best2_score_eq [OF assms(1,2) b [folded assms(5-8)]] best2_score_eq [OF assms(3,4) b] assms(9,11)
      best2_value_mono [OF uint_u32(1)] by simp
qed

text \<open>One access more, a share of 536870911 less: the product by 3 wraps.\<close>

lemma best2_share_wraps:
  "rtt_share 40000 1431655765 = 536870911" "rtt_share 40000 1431655766 = 0"
  by (simp_all add: rtt_share_def word_sless_alt)

text \<open>
  Under the first best policy the penalty for cold folios turns the order round: a folio
  not accessed for ten seconds, with more than ten seconds between accesses and a quiet
  network, scores its number of accesses up to 100, but 100 less from 101 on. Of two such
  folios the one with 101 accesses goes before any with 2 to 100.
\<close>

lemma best1_cold_penalty:
  assumes "evictable f" "map_of (vk_meta s) (folio_addr f) = Some meta"
    and "10000000000 <s fm_interval_ewma L meta" "10000000000 \<le> kf_ktime_get_ns K k - fm_last_access_ts L meta"
    and "\<not> 3000 <s fl_get_ewma L (gf_index GF_SRTT_US) (vk_features s)"
  shows "sint (fst (best1_score_fn L K k f s)) =
    (if 100 < accesses L meta then accesses L meta - 100 else accesses L meta) + last_page f"
proof -
  let ?srtt = "fl_get_ewma L (gf_index GF_SRTT_US) (vk_features s)"
  have quiet: "\<not> 5000 <s ?srtt" "\<not> 10000 <s ?srtt" using assms(5) by (auto simp: word_sless_alt)
  have old: "\<not> kf_ktime_get_ns K k - fm_last_access_ts L meta < 10000000000" using assms(4) by (simp add: leD)
  then have older: "\<not> kf_ktime_get_ns K k - fm_last_access_ts L meta < 1000000000"
    by (auto simp: word_less_nat_alt)
  have r: "recency_factor (kf_ktime_get_ns K k - fm_last_access_ts L meta) = word_of_int 0"
    using old older by (simp only: recency_factor_def if_False) simp
  have m: "network_factor ?srtt (fl_get_max L (gf_index GF_LOST) (vk_features s)) = word_of_int 100"
    using assms(5) quiet by (simp add: network_factor_def Let_def)
  have cold: "\<not> fm_interval_ewma L meta <s 1000000000" using assms(3) by (auto simp: word_sless_alt)
  show ?thesis
    using best1_score_eq [OF assms(1,2) r _ _ m] assms(3) cold by (simp add: best1_value_def heated_def)
qed

section \<open>The map of metadata\<close>

lemma vulcan_meta_frame [simp]:
  "vk_meta (vulcan_bump_counter i s) = vk_meta s"
  by (simp add: vulcan_bump_counter_def)

text \<open>An eviction changes, beside a counter, only what the score changes.\<close>

lemma vulcan_evict_frame:
  fixes K :: "('k, ('g, 'fm, 'x) vulcan_state) kfuncs"
  assumes "kernel_ok K" "\<And>k f t. F (snd (sc k f t)) = F t"
  shows "F (snd (snd (vulcan_evict_folios sc K c m k s))) = F (vulcan_bump_counter 0 s)"
proof -
  let ?s = "vulcan_bump_counter 0 s" and ?o = "\<lparr>sample_size = 20, select_size = 0\<rparr>"
  have "F (snd (snd (snd (kf_list_sample K m (vk_main_list ?s) sc ?o c k ?s)))) = F ?s"
    using assms(1) by (rule sample_inv [where P = "\<lambda>t. F t = F ?s"]) (simp_all add: assms(2))
  then show ?thesis by (simp add: vulcan_evict_folios_def split_def Let_def)
qed

lemma evolved_scores_pure:
  "snd (seed_score_fn L K k f s) = s" "snd (best1_score_fn L K k f s) = s" "snd (best2_score_fn L K k f s) = s"
  by (simp_all add: seed_score_fn_def best1_score_fn_def best2_score_fn_def Let_def split: option.split)

text \<open>Whatever score is evolved, as long as it leaves the map alone, the map stays within its capacity.\<close>

interpretation vulcan: policy "vulcan_ops L G sc"
    "\<lambda>K k h s. \<forall>k f t. vk_meta (snd (sc K k f t)) = vk_meta t" "\<lambda>s. hmap_ok vulcan_meta_cap (vk_meta s)" for L G sc
proof (unfold_locales, goal_cases)
  case (1 K k f s)
  then show ?case
    by (auto simp: vulcan_ops_def vulcan_folio_added_def vulcan_store_def split_def Let_def intro: hmap_update_ok)
next
  case (2 K k f s h)
  then show ?case
    by (auto simp: vulcan_ops_def vulcan_folio_accessed_def vulcan_store_def split_def Let_def intro: hmap_update_ok
        split: option.split)
next
  case (3 K k f s)
  then show ?case by (simp add: vulcan_ops_def vulcan_folio_evicted_def hmap_delete_ok)
next
  case (4 K k c m s)
  then show ?case by (simp add: vulcan_ops_def vulcan_evict_frame [where F = vk_meta])
qed

end
