(* ===== verification/Evolved_Gens.thy ===== *)
theory Evolved_Gens
  imports Evolved_Vulcan
begin

text \<open>
  Candidates of the evolution runs under \<open>eviction_evo/dual_host_traces\<close> that compiled and
  were measured: \<open>vulcan_evo/gen_66\<close> (the highest score of its run), \<open>vulcan_evo/gen_23\<close>,
  \<open>vulcan_evo/gen_56\<close> and \<open>vulcan_evo_2/gen_39\<close>. They have the hooks and the probe of the seed,
  their own configuration and score, and two of them variables of their own which the score
  writes. Shown: no score overflows; the boost for lost packets of \<open>gen_23\<close> is dead, because
  its configuration leaves out the listener the score reads; \<open>gen_66\<close> compares the counters of
  different connections and misses the losses of every connection that has lost fewer segments
  than another before it.
\<close>

section \<open>Configurations\<close>

definition rw_listener :: "('g, 'fm) feature_lib \<Rightarrow> u32 \<Rightarrow> feature_config" where
  "rw_listener L n = \<lparr>listener_mask = FL_RW L, ewma_alpha = 0, rw_size = n\<rparr>"

definition gen23_config :: "('g, 'fm) feature_lib \<Rightarrow> split_config" where
  "gen23_config L = \<lparr>gf_config = no_listeners(gf_index GF_SRTT_US := ewma_listener L 150,
       gf_index GF_PACKETS_OUT := ewma_listener L 200, gf_index GF_LOST := rw_listener L 5),
     folio_cfg = \<lparr>fc_listener_mask = FL_EWMA L OR FL_MINMAX L, fc_ewma_alpha = 250\<rparr>\<rparr>"

definition gen66_config :: "('g, 'fm) feature_lib \<Rightarrow> split_config" where
  "gen66_config L = \<lparr>gf_config = no_listeners(
       gf_index GF_SRTT_US := \<lparr>listener_mask = FL_EWMA L OR FL_RW L, ewma_alpha = 150, rw_size = 8\<rparr>,
       gf_index GF_PACKETS_OUT := ewma_listener L 200, gf_index GF_LOST := rw_listener L 5),
     folio_cfg = \<lparr>fc_listener_mask = FL_EWMA L OR FL_MINMAX L, fc_ewma_alpha = 250\<rparr>\<rparr>"

definition gen56_config :: "('g, 'fm) feature_lib \<Rightarrow> split_config" where
  "gen56_config L = \<lparr>gf_config = no_listeners(gf_index GF_SRTT_US := ewma_listener L 150,
       gf_index GF_SND_CWND := ewma_listener L 200, gf_index GF_PACKETS_OUT := ewma_listener L 200,
       gf_index GF_LOST := rw_listener L 5),
     folio_cfg = \<lparr>fc_listener_mask = FL_EWMA L OR FL_MINMAX L, fc_ewma_alpha = 250\<rparr>\<rparr>"

definition gen39_config :: "('g, 'fm) feature_lib \<Rightarrow> split_config" where
  "gen39_config L = \<lparr>gf_config = no_listeners(gf_index GF_SRTT_US := ewma_listener L 200,
       gf_index GF_MDEV_US := ewma_listener L 150, gf_index GF_SND_CWND := ewma_listener L 150,
       gf_index GF_SND_SSTHRESH := minmax_listener L, gf_index GF_LOST := minmax_listener L,
       gf_index GF_INTER_ARRIVAL := ewma_listener L 100),
     folio_cfg = \<lparr>fc_listener_mask = FL_MINMAX L OR FL_EWMA L, fc_ewma_alpha = 200\<rparr>\<rparr>"

section \<open>Scores\<close>

text \<open>The percentage for the smoothed round-trip time in three of them; \<open>gen_56\<close> tests the higher bound first.\<close>

definition rtt_factor :: "s64 \<Rightarrow> s64" where
  "rtt_factor srtt_ewma =
     (let n = (if 5000 <s srtt_ewma then 125 else 100)
      in if 10000 <s srtt_ewma then 150 else n)"

text \<open>\<open>gen_23\<close>: the percentage with its loss boost, and the time of the last loss.\<close>

definition gen23_network :: "s64 \<Rightarrow> s64 \<Rightarrow> u64 \<Rightarrow> u64 \<Rightarrow> s64 \<times> u64" where
  "gen23_network srtt_ewma max_lost now last_loss_ts =
     (let n = rtt_factor srtt_ewma
      in if 0 <s max_lost \<and> 3000 <s srtt_ewma then (div64 (n * 115) 100, now)
         else if 3000 <s srtt_ewma then
           let time_since_loss_ns = now - last_loss_ts
           in if 0 \<le>s time_since_loss_ns \<and> time_since_loss_ns <s 150000000 then
                let decay_amount = div64 time_since_loss_ns 10000000;
                    loss_boost = 115 - decay_amount;
                    loss_boost = (if loss_boost <s 100 then 100 else loss_boost);
                    loss_boost = (if 115 <s loss_boost then 115 else loss_boost)
                in (div64 (n * loss_boost) 100, last_loss_ts)
              else (n, last_loss_ts)
         else (n, last_loss_ts))"

definition recent_bonus :: "u64 \<Rightarrow> s64" where
  "recent_bonus time_since_access = (if time_since_access < 5000000000 then 50 else 0)"

definition gen23_score_fn :: "('g, 'fm) feature_lib \<Rightarrow> ('k, ('g, 'fm, u64) vulcan_state) kfuncs \<Rightarrow> 'k \<Rightarrow> folio \<Rightarrow>
    ('g, 'fm, u64) vulcan_state \<Rightarrow> s64 \<times> ('g, 'fm, u64) vulcan_state" where
  "gen23_score_fn L K k f s =
     (case scored_meta f s of
        None \<Rightarrow> (INT64_MAX, s)
      | Some meta \<Rightarrow>
          let base_score = ucast (fm_access_count L meta);
              srtt_ewma = fl_get_ewma L (gf_index GF_SRTT_US) (vk_features s);
              max_lost = fl_get_max L (gf_index GF_LOST) (vk_features s);
              now = kf_ktime_get_ns K k;
              (n, last_loss_ts) = gen23_network srtt_ewma max_lost now (vk_block s);
              s1 = s\<lparr>vk_block := last_loss_ts\<rparr>;
              score = div64 (base_score * n) 100;
              score = score + recent_bonus (now - fm_last_access_ts L meta);
              score = heat_adjust (fm_interval_ewma L meta) score
          in (if vulcan_is_last_page_in_file f then score + 100000 else score, s1))"

text \<open>\<open>gen_66\<close>: the greatest number of lost segments it has met, and when.\<close>

record loss_marks =
  last_loss_event_ts :: u64
  prev_loss_count :: u32

definition gen66_note_loss :: "u64 \<Rightarrow> u32 \<Rightarrow> loss_marks \<Rightarrow> loss_marks" where
  "gen66_note_loss now current_loss b =
     (if prev_loss_count b < current_loss
      then b\<lparr>last_loss_event_ts := now, prev_loss_count := current_loss\<rparr> else b)"

definition gen66_network :: "s64 \<Rightarrow> u64 \<Rightarrow> loss_marks \<Rightarrow> s64" where
  "gen66_network srtt_ewma now b =
     (let n = rtt_factor srtt_ewma
      in if 0 < last_loss_event_ts b \<and> 3000 <s srtt_ewma then
           let time_since_loss = now - last_loss_event_ts b
           in if time_since_loss < 150000000 then
                let elapsed_ms = time_since_loss div 1000000;
                    loss_boost = 115 - div64 elapsed_ms 10;
                    loss_boost = (if 115 <s loss_boost then 115 else loss_boost);
                    loss_boost = (if loss_boost <s 100 then 100 else loss_boost)
                in div64 (n * loss_boost) 100
              else n
         else n)"

definition gen66_heat_adjust :: "s64 \<Rightarrow> s64 \<Rightarrow> s64" where
  "gen66_heat_adjust interval_ewma score =
     (if 0 <s interval_ewma \<and> interval_ewma <s 2000000000 then score + 100
      else if 5000000000 <s interval_ewma then (if 100 <s score then score - 100 else score)
      else score)"

definition gen66_score_fn :: "('g, 'fm) feature_lib \<Rightarrow> ('k, ('g, 'fm, loss_marks) vulcan_state) kfuncs \<Rightarrow> 'k \<Rightarrow> folio \<Rightarrow>
    ('g, 'fm, loss_marks) vulcan_state \<Rightarrow> s64 \<times> ('g, 'fm, loss_marks) vulcan_state" where
  "gen66_score_fn L K k f s =
     (case scored_meta f s of
        None \<Rightarrow> (INT64_MAX, s)
      | Some meta \<Rightarrow>
          let now = kf_ktime_get_ns K k;
              base_score = div64 (ucast (fm_access_count L meta) * (100 + recency_factor (now - fm_last_access_ts L meta))) 100;
              srtt_ewma = fl_get_ewma L (gf_index GF_SRTT_US) (vk_features s);
              b = gen66_note_loss now (ng_lost (vk_net s)) (vk_block s);
              s1 = s\<lparr>vk_block := b\<rparr>;
              score = div64 (base_score * gen66_network srtt_ewma now b) 100;
              score = gen66_heat_adjust (fm_interval_ewma L meta) score
          in (if vulcan_is_last_page_in_file f then score + 100000 else score, s1))"

text \<open>\<open>gen_56\<close>: latest and previous losses, the share of the congestion window in use, and a
  bonus for recent accesses in three ranges of time.\<close>

definition gen56_loss_boost :: "s64 \<Rightarrow> s64 \<Rightarrow> s64 \<Rightarrow> s64 \<Rightarrow> s64 \<Rightarrow> s64" where
  "gen56_loss_boost srtt_ewma latest_lost prev_lost_1 prev_lost_2 n =
     (if 0 <s latest_lost \<and> 3000 <s srtt_ewma then div64 (n * 115) 100
      else if 3000 <s srtt_ewma then
        if 0 <s prev_lost_1 then div64 (n * 108) 100
        else if 0 <s prev_lost_2 then div64 (n * 103) 100
        else n
      else n)"

definition gen56_window_boost :: "s64 \<Rightarrow> s64 \<Rightarrow> s64 \<Rightarrow> s64" where
  "gen56_window_boost packets_out_ewma snd_cwnd_ewma n =
     (if 0 <s packets_out_ewma \<and> 0 <s snd_cwnd_ewma then
        let cwnd_u = (if snd_cwnd_ewma < 1 then 1 else snd_cwnd_ewma);
            congestion_ratio = packets_out_ewma * 100 div cwnd_u
        in if 90 < congestion_ratio then n + 10 else if 70 < congestion_ratio then n + 5 else n
      else n)"

definition gen56_decay_pct :: "u64 \<Rightarrow> s64" where
  "gen56_decay_pct time_since_access =
     (let elapsed_deciseconds = (time_since_access - 100000000) div 100000000;
          decay_pct = 80 - elapsed_deciseconds * 3
      in if decay_pct <s 50 then 50 else decay_pct)"

definition gen56_recency_bonus :: "s64 \<Rightarrow> u64 \<Rightarrow> s64" where
  "gen56_recency_bonus base_score time_since_access =
     (if time_since_access < 100000000 then div64 (base_score * 80) 100
      else if time_since_access < 1000000000 then div64 (base_score * gen56_decay_pct time_since_access) 100
      else if time_since_access < 10000000000 then
        let elapsed_seconds = (time_since_access - 1000000000) div 1000000000;
            decay_pct = 50 - div64 (elapsed_seconds * 50) 9;
            decay_pct = (if decay_pct <s 0 then 0 else decay_pct)
        in div64 (base_score * decay_pct) 100
      else 0)"

definition gen56_score_fn :: "('g, 'fm) feature_lib \<Rightarrow> ('k, ('g, 'fm, unit) vulcan_state) kfuncs \<Rightarrow> 'k \<Rightarrow> folio \<Rightarrow>
    ('g, 'fm, unit) vulcan_state \<Rightarrow> s64 \<times> ('g, 'fm, unit) vulcan_state" where
  "gen56_score_fn L K k f s =
     (case scored_meta f s of
        None \<Rightarrow> (INT64_MAX, s)
      | Some meta \<Rightarrow>
          let g = vk_features s;
              base_score = ucast (fm_access_count L meta);
              srtt_ewma = fl_get_ewma L (gf_index GF_SRTT_US) g;
              n = gen56_loss_boost srtt_ewma (fl_get_latest L (gf_index GF_LOST) g)
                    (fl_get_kth_recent L (gf_index GF_LOST) 1 g) (fl_get_kth_recent L (gf_index GF_LOST) 2 g)
                    (rtt_factor srtt_ewma);
              n = gen56_window_boost (fl_get_ewma L (gf_index GF_PACKETS_OUT) g) (fl_get_ewma L (gf_index GF_SND_CWND) g) n;
              score = div64 (base_score * n) 100;
              now = kf_ktime_get_ns K k;
              score = score + gen56_recency_bonus base_score (now - fm_last_access_ts L meta);
              score = heat_adjust (fm_interval_ewma L meta) score
          in (if vulcan_is_last_page_in_file f then score + 100000 else score, s))"

text \<open>\<open>gen_39\<close>: the second best policy with the state of the congestion window.\<close>

definition gen39_congested :: "s64 \<Rightarrow> s64 \<Rightarrow> bool" where
  "gen39_congested cwnd_ewma ssthresh_min \<longleftrightarrow>
     0 <s cwnd_ewma \<and> 0 <s ssthresh_min \<and> cwnd_ewma * 2 <s ssthresh_min * 3"

definition gen39_recovering :: "s64 \<Rightarrow> s64 \<Rightarrow> bool" where
  "gen39_recovering cwnd_ewma cwnd_min \<longleftrightarrow>
     0 <s cwnd_ewma \<and> 0 <s cwnd_min \<and> cwnd_min * 3 <s cwnd_ewma * 2"

definition gen39_tier :: "s64 \<Rightarrow> s64 \<times> s64" where
  "gen39_tier mdev_ewma =
     (if 15000 <s mdev_ewma then (8000000000, 1300)
      else if 10000 <s mdev_ewma then (7000000000, 1200)
      else (5000000000, 1000))"

definition gen39_recency_bonus :: "s64 \<Rightarrow> s64 \<Rightarrow> s64 \<Rightarrow> bool \<Rightarrow> bool \<Rightarrow> s64" where
  "gen39_recency_bonus age mdev_ewma lost_max cwnd_recovering in_congestion_phase =
     (let (primary_threshold, secondary_bonus) = gen39_tier mdev_ewma
      in if age <s primary_threshold then
           if 0 <s lost_max then
             let loss_bonus = (if cwnd_recovering then 3375 else 4500)
             in if in_congestion_phase then loss_bonus + 2000 else loss_bonus
           else 3000
         else if age <s 30000000000 then
           if 0 <s lost_max then
             let loss_bonus = (if cwnd_recovering then div64 (secondary_bonus * 3) 4 + 375 else secondary_bonus + 500)
             in if in_congestion_phase then loss_bonus + 2000 else loss_bonus
           else secondary_bonus
         else if age <s 60000000000 then
           if 0 <s lost_max then (if cwnd_recovering then 375 else 500) else 0
         else 0)"

definition gen39_score_fn :: "('g, 'fm) feature_lib \<Rightarrow> ('k, ('g, 'fm, unit) vulcan_state) kfuncs \<Rightarrow> 'k \<Rightarrow> folio \<Rightarrow>
    ('g, 'fm, unit) vulcan_state \<Rightarrow> s64 \<times> ('g, 'fm, unit) vulcan_state" where
  "gen39_score_fn L K k f s =
     (case scored_meta f s of
        None \<Rightarrow> (INT64_MAX, s)
      | Some meta \<Rightarrow>
          let g = vk_features s; n = fm_access_count L meta;
              score = ucast n;
              score = score + ucast (rtt_share (fl_get_ewma L (gf_index GF_SRTT_US) g) n);
              lost_max = fl_get_max L (gf_index GF_LOST) g;
              score = (if 0 <s lost_max then score + ucast (n div 3) else score);
              score = score + heat_bonus (fm_interval_ewma L meta);
              score = score + regular_bonus (fm_interval_min L meta) (fm_interval_max L meta);
              cwnd_ewma = fl_get_ewma L (gf_index GF_SND_CWND) g;
              in_congestion_phase = gen39_congested cwnd_ewma (fl_get_min L (gf_index GF_SND_SSTHRESH) g);
              cwnd_recovering = gen39_recovering cwnd_ewma (fl_get_min L (gf_index GF_SND_CWND) g);
              age = kf_ktime_get_ns K k - fm_last_access_ts L meta;
              mdev_ewma = fl_get_ewma L (gf_index GF_MDEV_US) g;
              score = score + gen39_recency_bonus age mdev_ewma lost_max cwnd_recovering in_congestion_phase
          in (if vulcan_is_last_page_in_file f then score + 100000 else score, s))"

section \<open>The percentages, on integers\<close>

definition rtt_percent :: "s64 \<Rightarrow> int" where
  "rtt_percent srtt_ewma = (if 10000 <s srtt_ewma then 150 else if 5000 <s srtt_ewma then 125 else 100)"

lemma rtt_factor_int: "rtt_factor srtt = word_of_int (rtt_percent srtt)"
  by (simp add: rtt_factor_def rtt_percent_def Let_def)

lemma rtt_percent_bounds: "100 \<le> rtt_percent srtt" "rtt_percent srtt \<le> 150"
  by (simp_all add: rtt_percent_def)

lemma div64_percent:
  fixes a b :: int
  assumes "0 \<le> a * b" "a * b < 2 ^ 63"
  shows "div64 (word_of_int a * word_of_int b) 100 = word_of_int (a * b div 100)"
proof -
  have "word_of_int a * word_of_int b = (word_of_int (a * b) :: s64)" by (simp only: wi_hom_mult)
  moreover have "div64 (word_of_int (a * b)) (word_of_int 100) = word_of_int (a * b div 100)"
    by (rule div64_nonneg) (use assms in simp_all)
  ultimately show ?thesis by (simp only: word_of_int_numeral)
qed

lemma boosted:
  fixes b n :: int
  assumes "100 \<le> n" "n \<le> 150" "100 \<le> b" "b \<le> 115"
  shows "div64 (word_of_int n * word_of_int b) 100 = word_of_int (n * b div 100)"
    "100 \<le> n * b div 100" "n * b div 100 \<le> 172"
proof -
  have m: "100 * 100 \<le> n * b" "n * b \<le> 150 * 115" using assms by (intro mult_mono; simp)+
  then show "100 \<le> n * b div 100" "n * b div 100 \<le> 172" by linarith+
  show "div64 (word_of_int n * word_of_int b) 100 = word_of_int (n * b div 100)"
    by (rule div64_percent) (use m in simp_all)
qed

lemma percent_of:
  fixes c m :: int
  assumes "0 \<le> c" "c < 2 ^ 33" "0 \<le> m" "m \<le> 200"
  shows "div64 (word_of_int c * word_of_int m) 100 = word_of_int (c * m div 100)"
    "0 \<le> c * m div 100" "c * m div 100 \<le> 2 * c" "100 \<le> m \<Longrightarrow> c \<le> c * m div 100"
proof -
  have m: "0 \<le> c * m" "c * m \<le> 200 * c" using assms mult_left_mono [of m 200 c] by simp_all
  then show "0 \<le> c * m div 100" "c * m div 100 \<le> 2 * c" by linarith+
  show "div64 (word_of_int c * word_of_int m) 100 = word_of_int (c * m div 100)"
    by (rule div64_percent) (use m assms(2) in simp_all)
  show "c \<le> c * m div 100" if "100 \<le> m"
    using that mult_left_mono [of 100 m c] assms(1) by linarith
qed

text \<open>A boost of 115 less a decay of at most 15.\<close>

lemma gen66_boost:
  assumes "t < (150000000 :: u64)"
  shows "\<exists>b. 100 \<le> b \<and> b \<le> 115 \<and> 115 - div64 (t div 1000000) 10 = word_of_int b"
proof -
  have "unat t < 150000000" using assms by (simp add: word_less_nat_alt)
  then have "unat (t div 1000000) \<le> 149" by (simp add: unat_div)
  then have le: "uint (t div 1000000) \<le> 149" unfolding uint_nat by linarith
  obtain m where m: "t div 1000000 = word_of_int m" "m = uint (t div 1000000)" by simp
  have b: "0 \<le> m" "m \<le> 149" unfolding m(2) by (rule uint_ge_0, rule le)
  have "div64 (t div 1000000) 10 = word_of_int (m div 10)"
    unfolding m(1) using div64_nonneg [of m 10] b by simp
  moreover have "0 \<le> m div 10" "m div 10 \<le> 14" using b by linarith+
  ultimately show ?thesis by (intro exI [of _ "115 - m div 10"]) simp
qed

lemma gen23_boost:
  assumes "0 \<le>s t" "t <s (150000000 :: s64)"
  shows "\<exists>b. 100 \<le> b \<and> b \<le> 115 \<and> 115 - div64 t 10000000 = word_of_int b"
proof -
  obtain m where m: "t = word_of_int m" "m = sint t" by simp
  have b: "0 \<le> m" "m < 150000000" using assms unfolding m(2) by (simp_all add: word_sle_eq word_sless_alt)
  have "div64 t 10000000 = word_of_int (m div 10000000)"
    unfolding m(1) using div64_nonneg [of m 10000000] b by simp
  moreover have "0 \<le> m div 10000000" "m div 10000000 \<le> 14" using b by linarith+
  ultimately show ?thesis by (intro exI [of _ "115 - m div 10000000"]) simp
qed

lemma clamp_boost:
  assumes "100 \<le> b" "b \<le> 115" "(w :: s64) = word_of_int b"
  shows "\<not> w <s 100" "\<not> 115 <s w"
proof -
  have "sint w = b" unfolding assms(3) using assms(1,2) by (intro sint_wrap_small) simp_all
  then show "\<not> w <s 100" "\<not> 115 <s w" using assms(1,2) by (simp_all add: word_sless_alt)
qed

section \<open>The network's part\<close>

lemma boost_cases:
  assumes "100 \<le> b" "b \<le> 115"
  shows "\<exists>m. 100 \<le> m \<and> m \<le> 172 \<and> div64 (rtt_factor srtt * word_of_int b) 100 = word_of_int m"
  using boosted [OF rtt_percent_bounds [of srtt] assms] unfolding rtt_factor_int by blast

lemma rtt_factor_cases: "\<exists>m. 100 \<le> m \<and> m \<le> 172 \<and> rtt_factor srtt = word_of_int m"
  using rtt_percent_bounds [of srtt] by (intro exI [of _ "rtt_percent srtt"]) (simp add: rtt_factor_int)

lemma gen23_network_cases:
  "\<exists>m. 100 \<le> m \<and> m \<le> 172 \<and> fst (gen23_network srtt lost now ts) = word_of_int m"
proof (cases "0 <s lost \<and> 3000 <s srtt \<or> \<not> 3000 <s srtt")
  case True
  then show ?thesis
    using boost_cases [of 115 srtt] rtt_factor_cases [of srtt] by (auto simp: gen23_network_def Let_def)
next
  case False
  let ?t = "now - ts"
  show ?thesis
  proof (cases "0 \<le>s ?t \<and> ?t <s 150000000")
    case True
    then obtain b where b: "100 \<le> b" "b \<le> 115" "115 - div64 ?t 10000000 = word_of_int b"
      using gen23_boost by blast
    then have "fst (gen23_network srtt lost now ts) = div64 (rtt_factor srtt * word_of_int b) 100"
      using False True clamp_boost [OF b(1,2) refl] by (auto simp: gen23_network_def Let_def)
    then show ?thesis using boost_cases [OF b(1,2)] by simp
  next
    case old: False
    then show ?thesis using False rtt_factor_cases [of srtt] by (auto simp: gen23_network_def Let_def)
  qed
qed

lemma gen66_network_cases:
  "\<exists>m. 100 \<le> m \<and> m \<le> 172 \<and> gen66_network srtt now b = word_of_int m"
proof (cases "0 < last_loss_event_ts b \<and> 3000 <s srtt \<and> now - last_loss_event_ts b < 150000000")
  case True
  then obtain c where c: "100 \<le> c" "c \<le> 115" "115 - div64 ((now - last_loss_event_ts b) div 1000000) 10 = word_of_int c"
    using gen66_boost by blast
  then have "gen66_network srtt now b = div64 (rtt_factor srtt * word_of_int c) 100"
    using True clamp_boost [OF c(1,2) refl] by (simp add: gen66_network_def Let_def)
  then show ?thesis using boost_cases [OF c(1,2)] by simp
next
  case False
  then show ?thesis using rtt_factor_cases [of srtt] by (auto simp: gen66_network_def Let_def)
qed

lemma gen56_network_cases:
  "\<exists>m. 100 \<le> m \<and> m \<le> 182 \<and>
     gen56_window_boost p c (gen56_loss_boost srtt l0 l1 l2 (rtt_factor srtt)) = word_of_int m"
proof -
  have "\<exists>m. 100 \<le> m \<and> m \<le> 172 \<and> gen56_loss_boost srtt l0 l1 l2 (rtt_factor srtt) = word_of_int m"
    using boost_cases [of 115 srtt] boost_cases [of 108 srtt] boost_cases [of 103 srtt] rtt_factor_cases [of srtt]
    by (auto simp: gen56_loss_boost_def)
  then obtain m where m: "100 \<le> m" "m \<le> 172" "gen56_loss_boost srtt l0 l1 l2 (rtt_factor srtt) = word_of_int m" by blast
  have "gen56_window_boost p c (word_of_int m) \<in> {word_of_int m, word_of_int (m + 5), word_of_int (m + 10)}"
    by (simp add: gen56_window_boost_def Let_def)
  then show ?thesis
    unfolding m(3) using m(1,2) by (elim insertE emptyE) (fastforce intro: exI [of _ m] exI [of _ "m + 5"] exI [of _ "m + 10"])+
qed

section \<open>Recency and heat\<close>

text \<open>The decay of \<open>gen_56\<close> within the first second starts at 80 percent and ends at 56.\<close>

lemma gen56_decay:
  assumes "100000000 \<le> t" "t < 1000000000"
  shows "\<exists>e. 0 \<le> e \<and> e \<le> 8 \<and> gen56_decay_pct t = word_of_int (80 - 3 * e)"
proof -
  have "100000000 \<le> unat t" "unat t < 1000000000" using assms by (simp_all add: word_less_nat_alt word_le_nat_alt)
  then have "unat ((t - 100000000) div 100000000) \<le> 8" using assms(1) by (simp add: unat_div unat_sub)
  then have le: "uint ((t - 100000000) div 100000000) \<le> 8" unfolding uint_nat by linarith
  obtain e where e: "(t - 100000000) div 100000000 = word_of_int e" "e = uint ((t - 100000000) div 100000000)" by simp
  have b: "0 \<le> e" "e \<le> 8" unfolding e(2) by (rule uint_ge_0, rule le)
  have w: "80 - word_of_int e * 3 = (word_of_int (80 - 3 * e) :: s64)" by (simp add: mult.commute)
  have "sint (word_of_int (80 - 3 * e) :: s64) = 80 - 3 * e" using b by (intro sint_wrap_small) simp_all
  then have "\<not> word_of_int (80 - 3 * e) <s (50 :: s64)" using b by (simp add: word_sless_alt)
  then have "gen56_decay_pct t = word_of_int (80 - 3 * e)" unfolding gen56_decay_pct_def Let_def e(1) w by simp
  with b show ?thesis by blast
qed

lemma gen56_recency_cases:
  assumes "0 \<le> c" "c < 2 ^ 32"
  shows "\<exists>r. 0 \<le> r \<and> r \<le> 80 \<and> gen56_recency_bonus (word_of_int c) t = word_of_int (c * r div 100)"
proof -
  have c: "div64 (word_of_int c * word_of_int r) 100 = word_of_int (c * r div 100)" if "0 \<le> r" "r \<le> 80" for r
    by (rule percent_of(1)) (use assms that in simp_all)
  consider "t < 100000000" | "100000000 \<le> t" "t < 1000000000"
    | "1000000000 \<le> t" "t < 10000000000" | "10000000000 \<le> t" by force
  then show ?thesis
  proof cases
    case 1
    then show ?thesis using c [of 80] by (intro exI [of _ 80]) (simp add: gen56_recency_bonus_def)
  next
    case 2
    then obtain e where e: "0 \<le> e" "e \<le> 8" "gen56_decay_pct t = word_of_int (80 - 3 * e)" using gen56_decay by blast
    then have "gen56_recency_bonus (word_of_int c) t = word_of_int (c * (80 - 3 * e) div 100)"
      using 2 c [of "80 - 3 * e"] unfolding gen56_recency_bonus_def e(3) by (simp add: leD)
    then show ?thesis using e(1,2) by (intro exI [of _ "80 - 3 * e"]) simp
  next
    case 3
    obtain r where r: "0 \<le> r" "r \<le> 50" "recency_factor t = word_of_int r" using recency_factor_cases by blast
    have n: "\<not> t < 100000000" "\<not> t < 1000000000" using 3 by (auto simp: word_less_nat_alt word_le_nat_alt)
    have "gen56_recency_bonus (word_of_int c) t = div64 (word_of_int c * recency_factor t) 100"
      using n 3(2) by (simp add: gen56_recency_bonus_def recency_factor_def Let_def)
    then show ?thesis using r c [of r] by (intro exI [of _ r]) simp
  next
    case 4
    then have "\<not> t < 100000000" "\<not> t < 1000000000" "\<not> t < 10000000000"
      by (auto simp: word_less_nat_alt word_le_nat_alt)
    then show ?thesis by (intro exI [of _ 0]) (simp add: gen56_recency_bonus_def)
  qed
qed

lemma gen39_recency_cases:
  "\<exists>b. 0 \<le> b \<and> b \<le> 6500 \<and> gen39_recency_bonus age mdev lost rec cong = word_of_int b"
proof -
  let ?b = "if 15000 <s mdev then 1300 else if 10000 <s mdev then 1200 else (1000 :: int)"
  have "gen39_tier mdev = (fst (gen39_tier mdev), word_of_int ?b)" by (simp add: gen39_tier_def)
  moreover have "1000 \<le> ?b" "?b \<le> 1300" by simp_all
  ultimately obtain p b where t: "gen39_tier mdev = (p, word_of_int b)" "1000 \<le> b" "b \<le> 1300" by blast
  have e: "div64 (word_of_int b * 3) 4 = word_of_int (b * 3 div 4)"
    using div64_nonneg [of "b * 3" 4] t(2,3) by simp
  let ?v = "if age <s p then (if 0 <s lost then (if rec then 3375 else 4500) + (if cong then 2000 else 0) else 3000)
    else if age <s 30000000000 then
      (if 0 <s lost then (if rec then b * 3 div 4 + 375 else b + 500) + (if cong then 2000 else 0) else b)
    else if age <s 60000000000 \<and> 0 <s lost then (if rec then 375 else 500) else (0 :: int)"
  have "gen39_recency_bonus age mdev lost rec cong = word_of_int ?v"
    by (simp add: gen39_recency_bonus_def t(1) e Let_def)
  moreover have "0 \<le> ?v" "?v \<le> 6500" using t(2,3) by (auto simp: zdiv_mono1)
  ultimately show ?thesis by blast
qed

lemma heat_cases:
  assumes "0 \<le> x" "x < 2 ^ 40"
  shows "\<exists>h. max 0 (x - 100) \<le> h \<and> h \<le> x + 100 \<and> heat_adjust i (word_of_int x) = word_of_int h"
    "\<exists>h. max 0 (x - 100) \<le> h \<and> h \<le> x + 100 \<and> gen66_heat_adjust i (word_of_int x) = word_of_int h"
proof -
  show "\<exists>h. max 0 (x - 100) \<le> h \<and> h \<le> x + 100 \<and> heat_adjust i (word_of_int x) = word_of_int h"
    by (intro exI [of _ "heated i x"]) (use assms in \<open>simp add: heat_adjust_int heated_def\<close>)
  have "sint (word_of_int x :: s64) = x" using assms by (intro sint_wrap_small) simp_all
  then have "100 <s (word_of_int x :: s64) \<longleftrightarrow> 100 < x" by (simp add: word_sless_alt)
  then show "\<exists>h. max 0 (x - 100) \<le> h \<and> h \<le> x + 100 \<and> gen66_heat_adjust i (word_of_int x) = word_of_int h"
    by (intro exI [of _ "if 0 <s i \<and> i <s 2000000000 then x + 100
        else if 5000000000 <s i \<and> 100 < x then x - 100 else x"]) (use assms in \<open>simp add: gen66_heat_adjust_def\<close>)
qed

section \<open>The scores, on integers\<close>

lemma weighted:
  fixes c m :: int
  assumes "0 \<le> c" "c < 2 ^ 32" "100 \<le> m" "m \<le> 200"
  shows "div64 (word_of_int c * word_of_int m) 100 = word_of_int (c * m div 100)"
    "c \<le> c * m div 100" "c * m div 100 \<le> 2 * c"
  using percent_of [of c m] assms by simp_all

lemma gen23_score_eq:
  assumes "evictable f" "map_of (vk_meta s) (folio_addr f) = Some meta"
    and "gen23_network (fl_get_ewma L (gf_index GF_SRTT_US) (vk_features s)) (fl_get_max L (gf_index GF_LOST) (vk_features s))
      (kf_ktime_get_ns K k) (vk_block s) = (word_of_int m, ts)" "100 \<le> m" "m \<le> 172"
  shows "sint (fst (gen23_score_fn L K k f s)) = heated (fm_interval_ewma L meta) (accesses L meta * m div 100
      + (if kf_ktime_get_ns K k - fm_last_access_ts L meta < 5000000000 then 50 else 0)) + last_page f"
    and "snd (gen23_score_fn L K k f s) = s\<lparr>vk_block := ts\<rparr>"
proof -
  let ?c = "accesses L meta"
  let ?recent = "kf_ktime_get_ns K k - fm_last_access_ts L meta < 5000000000"
  let ?x = "?c * m div 100 + (if ?recent then 50 else 0)"
  let ?v = "heated (fm_interval_ewma L meta) ?x"
  have m: "m \<le> 200" using assms(5) by simp
  note w = weighted [OF uint_u32 assms(4) m, of "fm_access_count L meta"]
  have x: "0 \<le> ?x" "?x \<le> 2 * ?c + 50" "?x < 2 ^ 40"
    using w(2,3) uint_u32 [of "fm_access_count L meta"] by simp_all
  have "word_of_int (?c * m div 100) + recent_bonus (kf_ktime_get_ns K k - fm_last_access_ts L meta) = (word_of_int ?x :: s64)"
    by (simp add: recent_bonus_def)
  then have "fst (gen23_score_fn L K k f s) = word_of_int (?v + last_page f)"
    using assms(1-3) w(1) heat_adjust_int [OF x(1,3)]
    by (simp add: gen23_score_fn_def scored_meta_eq Let_def del: gf_index.simps)
  moreover have "0 \<le> ?v" "?v \<le> 2 * ?c + 150" using heated_bounds [OF x(1)] x(1,2) by (simp_all add: heated_def)
  ultimately show "sint (fst (gen23_score_fn L K k f s)) = ?v + last_page f"
    by (rule sint_value) (use uint_u32(2) [of "fm_access_count L meta"] in simp_all)
  show "snd (gen23_score_fn L K k f s) = s\<lparr>vk_block := ts\<rparr>"
    using assms(1-3) by (simp add: gen23_score_fn_def scored_meta_eq Let_def del: gf_index.simps)
qed

lemma gen23_bounds:
  assumes "evictable f" "map_of (vk_meta s) (folio_addr f) = Some meta"
  shows "sint (fst (gen23_score_fn L K k f s)) - last_page f \<in> {max 0 (accesses L meta - 100)..2 * accesses L meta + 150}"
proof -
  let ?n = "gen23_network (fl_get_ewma L (gf_index GF_SRTT_US) (vk_features s)) (fl_get_max L (gf_index GF_LOST) (vk_features s))
      (kf_ktime_get_ns K k) (vk_block s)"
  obtain m where m: "100 \<le> m" "m \<le> 172" "fst ?n = word_of_int m" using gen23_network_cases by blast
  then have n: "?n = (word_of_int m, snd ?n)" by (metis prod.collapse)
  have "m \<le> 200" using m(2) by simp
  note w = weighted(2,3) [OF uint_u32 m(1) this, of "fm_access_count L meta"]
  show ?thesis
    unfolding gen23_score_eq(1) [OF assms n m(1,2)]
    using w uint_u32(1) [of "fm_access_count L meta"] by (auto simp: heated_def)
qed

lemma gen66_bounds:
  assumes "evictable f" "map_of (vk_meta s) (folio_addr f) = Some meta"
  shows "sint (fst (gen66_score_fn L K k f s)) - last_page f \<in> {max 0 (accesses L meta - 100)..3 * accesses L meta + 100}"
proof -
  let ?c = "accesses L meta" and ?now = "kf_ktime_get_ns K k"
  obtain r where r: "0 \<le> r" "r \<le> 50" "recency_factor (?now - fm_last_access_ts L meta) = word_of_int r"
    using recency_factor_cases by blast
  obtain m where m: "100 \<le> m" "m \<le> 172" "gen66_network (fl_get_ewma L (gf_index GF_SRTT_US) (vk_features s)) ?now
      (gen66_note_loss ?now (ng_lost (vk_net s)) (vk_block s)) = word_of_int m" using gen66_network_cases by blast
  let ?b = "?c * (100 + r) div 100"
  let ?x = "?b * m div 100"
  note w = best1_weighted [OF uint_u32 r(1,2) m(1,2), of "fm_access_count L meta"]
  have b: "0 \<le> ?b" "?b < 2 ^ 33" "0 \<le> m" "m \<le> 200"
    using w(1,2) uint_u32 [of "fm_access_count L meta"] m by simp_all
  have c: "0 \<le> ?c * (100 + r)" "?c * (100 + r) < 2 ^ 63"
    using uint_u32 [of "fm_access_count L meta"] r mult_left_mono [of "100 + r" 150 ?c] by simp_all
  have "0 \<le> ?x" "?x < 2 ^ 40" using w(3,4) uint_u32 [of "fm_access_count L meta"] by simp_all
  then obtain h where h: "max 0 (?x - 100) \<le> h" "h \<le> ?x + 100"
      "gen66_heat_adjust (fm_interval_ewma L meta) (word_of_int ?x) = word_of_int h" using heat_cases(2) by blast
  have "fst (gen66_score_fn L K k f s) = word_of_int (h + last_page f)"
    using assms r(3) m(3) div64_percent [OF c] percent_of(1) [OF b] h(3)
    by (simp add: gen66_score_fn_def scored_meta_eq Let_def del: gf_index.simps)
  moreover have "0 \<le> h" "h \<le> 3 * ?c + 100" using h w(4) by simp_all
  ultimately have "sint (fst (gen66_score_fn L K k f s)) = h + last_page f"
    by (rule sint_value) (use uint_u32(2) [of "fm_access_count L meta"] in simp_all)
  then show ?thesis using h w(3,4) by simp
qed

lemma gen56_bounds:
  assumes "evictable f" "map_of (vk_meta s) (folio_addr f) = Some meta"
  shows "sint (fst (gen56_score_fn L K k f s)) - last_page f \<in> {max 0 (accesses L meta - 100)..3 * accesses L meta + 100}"
proof -
  let ?c = "accesses L meta" and ?age = "kf_ktime_get_ns K k - fm_last_access_ts L meta" and ?g = "vk_features s"
  let ?srtt = "fl_get_ewma L (gf_index GF_SRTT_US) ?g"
  obtain m where m: "100 \<le> m" "m \<le> 182" "gen56_window_boost (fl_get_ewma L (gf_index GF_PACKETS_OUT) ?g)
      (fl_get_ewma L (gf_index GF_SND_CWND) ?g) (gen56_loss_boost ?srtt (fl_get_latest L (gf_index GF_LOST) ?g)
        (fl_get_kth_recent L (gf_index GF_LOST) 1 ?g) (fl_get_kth_recent L (gf_index GF_LOST) 2 ?g) (rtt_factor ?srtt))
      = word_of_int m" using gen56_network_cases by blast
  obtain r where r: "0 \<le> r" "r \<le> 80" "gen56_recency_bonus (word_of_int ?c) ?age = word_of_int (?c * r div 100)"
    using gen56_recency_cases [OF uint_u32] by blast
  let ?x = "?c * m div 100 + ?c * r div 100"
  have p: "100 * ?c \<le> ?c * m" "?c * m \<le> 182 * ?c" "0 \<le> ?c * r" "?c * r \<le> 80 * ?c"
    using uint_u32(1) [of "fm_access_count L meta"] m r mult_left_mono [of 100 m ?c] mult_left_mono [of m 182 ?c]
      mult_left_mono [of r 80 ?c] by simp_all
  then have "?c \<le> ?c * m div 100" "0 \<le> ?c * r div 100" by linarith+
  then have x: "?c \<le> ?x" "?x \<le> 3 * ?c" using p uint_u32(1) [of "fm_access_count L meta"] by linarith+
  have "0 \<le> ?x" "?x < 2 ^ 40" using x uint_u32 [of "fm_access_count L meta"] by simp_all
  then obtain h where h: "max 0 (?x - 100) \<le> h" "h \<le> ?x + 100"
      "heat_adjust (fm_interval_ewma L meta) (word_of_int ?x) = word_of_int h" using heat_cases(1) by blast
  have "fst (gen56_score_fn L K k f s) = word_of_int (h + last_page f)"
    using assms m weighted(1) [OF uint_u32, of m "fm_access_count L meta"] r(3) h(3)
    by (simp add: gen56_score_fn_def scored_meta_eq Let_def del: gf_index.simps)
  moreover have "0 \<le> h" "h \<le> 3 * ?c + 100" using h x by simp_all
  ultimately have "sint (fst (gen56_score_fn L K k f s)) = h + last_page f"
    by (rule sint_value) (use uint_u32(2) [of "fm_access_count L meta"] in simp_all)
  then show ?thesis using h x by simp
qed

lemma gen39_bounds:
  assumes "evictable f" "map_of (vk_meta s) (folio_addr f) = Some meta"
  shows "sint (fst (gen39_score_fn L K k f s)) - last_page f \<in> {accesses L meta..2 * accesses L meta + 13500}"
proof -
  let ?n = "fm_access_count L meta" and ?g = "vk_features s"
  let ?srtt = "fl_get_ewma L (gf_index GF_SRTT_US) ?g" and ?lost = "fl_get_max L (gf_index GF_LOST) ?g"
  let ?cwnd = "fl_get_ewma L (gf_index GF_SND_CWND) ?g"
  obtain h g e where b: "heat_bonus (fm_interval_ewma L meta) = word_of_int h" "0 \<le> h" "h \<le> 5000"
      "regular_bonus (fm_interval_min L meta) (fm_interval_max L meta) = word_of_int g" "0 \<le> g" "g \<le> 2000"
      "gen39_recency_bonus (kf_ktime_get_ns K k - fm_last_access_ts L meta) (fl_get_ewma L (gf_index GF_MDEV_US) ?g) ?lost
        (gen39_recovering ?cwnd (fl_get_min L (gf_index GF_SND_CWND) ?g))
        (gen39_congested ?cwnd (fl_get_min L (gf_index GF_SND_SSTHRESH) ?g)) = word_of_int e" "0 \<le> e" "e \<le> 6500"
    using bonus_cases(1,2) gen39_recency_cases by metis
  let ?v = "best2_value ?srtt ?lost (h + g + e) (uint ?n)"
  have share: "(ucast (rtt_share ?srtt ?n) :: s64) = word_of_int (rtt_part ?srtt (uint ?n))"
    unfolding ucast_u32 rtt_share_int ..
  have third: "(ucast (?n div 3) :: s64) = word_of_int (uint ?n div 3)"
    unfolding ucast_u32 by (simp add: uint_div)
  have "fst (gen39_score_fn L K k f s) = word_of_int (?v + last_page f)"
    using assms b(1,4,7) share third
    by (simp add: gen39_score_fn_def scored_meta_eq Let_def best2_value_def del: gf_index.simps)
  moreover have v: "uint ?n \<le> ?v" "?v \<le> 2 * uint ?n + (h + g + e)"
    using best2_bounds [OF uint_u32(1), of "h + g + e" ?n ?srtt ?lost] b by linarith+
  moreover have "0 \<le> ?v" using v(1) uint_u32(1) [of ?n] by linarith
  moreover have "2 * uint ?n + (h + g + e) < 2 ^ 62" using uint_u32(2) [of ?n] b(3,6,9) by simp
  ultimately have "sint (fst (gen39_score_fn L K k f s)) = ?v + last_page f"
    by (intro sint_value [OF _ _ v(2)]) simp_all
  then show ?thesis using v b by simp
qed

section \<open>The arrays of listeners of vulcan_bpf.h\<close>

type_synonym listener_arrays = "(u32 \<Rightarrow> vulcan_minmax) \<times> (u32 \<Rightarrow> vulcan_ewma) \<times> (u32 \<Rightarrow> vulcan_rolling_window)"

definition zeroed_arrays :: listener_arrays where
  "zeroed_arrays = (\<lambda>i. minmax_zero, \<lambda>i. ewma_zero, \<lambda>i. rw_zero)"

definition array_features :: "(listener_arrays, u32 \<times> u64 \<times> s64) feature_lib" where
  "array_features = \<lparr>FL_MINMAX = 1, FL_EWMA = 2, FL_RW = 8,
     fl_update_feature = (\<lambda>i v c (mm, ew, rw).
       (if listener_mask c AND 1 \<noteq> 0 then mm(i := vulcan_minmax_update (mm i) v) else mm,
        if listener_mask c AND 2 \<noteq> 0 then ew(i := vulcan_ewma_update (ew i) v (ewma_alpha c)) else ew,
        if listener_mask c AND 8 \<noteq> 0 then rw(i := vulcan_rw_update (rw i) v (rw_size c)) else rw)),
     fl_get_ewma = (\<lambda>i (mm, ew, rw). vulcan_ewma_get (ew i)),
     fl_get_max = (\<lambda>i (mm, ew, rw). vulcan_minmax_get_max (mm i)),
     fl_get_min = (\<lambda>i (mm, ew, rw). vulcan_minmax_get_min (mm i)),
     fl_get_latest = (\<lambda>i (mm, ew, rw). vulcan_rw_get_latest (rw i)),
     fl_get_kth_recent = (\<lambda>i n (mm, ew, rw). vulcan_rw_get_kth_recent (rw i) n),
     fl_folio_init = (\<lambda>now. (1, now, 0)), fl_folio_on_access = (\<lambda>(n, t, i) now c. (n + 1, now, now - t)),
     fm_access_count = fst, fm_last_access_ts = (\<lambda>m. fst (snd m)), fm_interval_ewma = (\<lambda>m. snd (snd m)),
     fm_interval_min = (\<lambda>m. snd (snd m)), fm_interval_max = (\<lambda>m. snd (snd m))\<rparr>"

text \<open>A tracked page, accessed 100 times, 20 seconds apart; no packet has arrived.\<close>

definition quiet_net :: net_globals where
  "quiet_net = \<lparr>ng_last_packet_ts = 0, ng_prev_packet_ts = 0, ng_recv_count = 0, ng_srtt_us = 0, ng_mdev_us = 0,
     ng_bytes_received = 0, ng_bytes_acked = 0, ng_segs_in = 0, ng_segs_out = 0, ng_delivered = 0,
     ng_snd_cwnd = 0, ng_snd_ssthresh = 0, ng_rcv_wnd = 0, ng_packets_out = 0, ng_total_retrans = 0,
     ng_retrans_out = 0, ng_lost = 0\<rparr>"

definition demo_arrays :: "'x \<Rightarrow> (listener_arrays, u32 \<times> u64 \<times> s64, 'x) vulcan_state" where
  "demo_arrays b = watch_state.extend (demo_watch\<lparr>inode_watchlist := [(42, 1)]\<rparr>)
     (vulcan_state.fields [(2, 100, 0, 20000000000)] zeroed_arrays (replicate 16 0) 1 quiet_net b)"

lemma demo_arrays_simps:
  "map_of (vk_meta (demo_arrays b)) (folio_addr (clean_folio 2)) = Some (100, 0, 20000000000)"
  "vk_features (demo_arrays b) = zeroed_arrays" "vk_block (demo_arrays b) = b" "ng_lost (vk_net (demo_arrays b)) = 0"
  by (simp_all add: demo_arrays_def watch_state.defs vulcan_state.defs quiet_net_def clean_folio_def)

section \<open>Bounds of the scores\<close>

text \<open>
  C37: for a folio that may be evicted and is tracked, and whatever the listeners and the
  candidates' own variables hold, none of the seven scores overflows or comes near the score
  that protects a folio: the seed's is the number of accesses, the others lie between that
  number, or 100 less, and two or three times it and a constant, each with 100000 more for
  the last page of a file.
\<close>

theorem all_scores_bounded:
  fixes s :: "('g, 'fm, unit) vulcan_state" and s23 :: "('g, 'fm, u64) vulcan_state" and s66 :: "('g, 'fm, loss_marks) vulcan_state"
  assumes "evictable f" "map_of (vk_meta s) (folio_addr f) = Some meta"
    and "map_of (vk_meta s23) (folio_addr f) = Some meta" "map_of (vk_meta s66) (folio_addr f) = Some meta"
  shows "sint (fst (seed_score_fn L K k f s)) = accesses L meta + last_page f
    \<and> sint (fst (best1_score_fn L K k f s)) - last_page f \<in> {max 0 (accesses L meta - 100)..3 * accesses L meta + 100}
    \<and> sint (fst (best2_score_fn L K k f s)) - last_page f \<in> {accesses L meta..2 * accesses L meta + 11500}
    \<and> sint (fst (gen23_score_fn L K23 k f s23)) - last_page f \<in> {max 0 (accesses L meta - 100)..2 * accesses L meta + 150}
    \<and> sint (fst (gen66_score_fn L K66 k f s66)) - last_page f \<in> {max 0 (accesses L meta - 100)..3 * accesses L meta + 100}
    \<and> sint (fst (gen56_score_fn L K k f s)) - last_page f \<in> {max 0 (accesses L meta - 100)..3 * accesses L meta + 100}
    \<and> sint (fst (gen39_score_fn L K k f s)) - last_page f \<in> {accesses L meta..2 * accesses L meta + 13500}"
  by (intro conjI gen23_bounds gen66_bounds gen56_bounds gen39_bounds assms)
    (use evolved_scores_bounded [OF assms(1,2), of L K k] in \<open>simp_all only: atLeastAtMost_iff simp_thms\<close>)

theorem all_scores_bounded_witness:
  "sint (fst (best1_score_fn array_features list_kfuncs demo_kernel (clean_folio 2) (demo_arrays ())))
     - last_page (clean_folio 2) \<in> {0..400}
   \<and> sint (fst (gen39_score_fn array_features list_kfuncs demo_kernel (clean_folio 2) (demo_arrays ())))
     - last_page (clean_folio 2) \<in> {100..13700}"
  using all_scores_bounded [OF demo_folio_flags(1) demo_arrays_simps(1) demo_arrays_simps(1) demo_arrays_simps(1),
      where L = array_features and K = list_kfuncs and k = demo_kernel and ?K23.0 = list_kfuncs and ?K66.0 = list_kfuncs]
  by (simp add: array_features_def)

section \<open>Runs with packets\<close>

text \<open>A hook, a packet received, or a change of the kernel's state: the clock runs on.\<close>

datatype 'k vulcan_event = VK_Hook hook | VK_Recv "tcp_sock option" | VK_Kernel 'k

fun vulcan_step :: "('g, 'fm) feature_lib \<Rightarrow> split_config \<Rightarrow>
    (('k, ('g, 'fm, 'x) vulcan_state) kfuncs \<Rightarrow> 'k \<Rightarrow> folio \<Rightarrow> ('g, 'fm, 'x) vulcan_state \<Rightarrow> s64 \<times> ('g, 'fm, 'x) vulcan_state) \<Rightarrow>
    ('k, ('g, 'fm, 'x) vulcan_state) kfuncs \<Rightarrow> 'k vulcan_event \<Rightarrow> 'k \<times> ('g, 'fm, 'x) vulcan_state \<Rightarrow>
    'k \<times> ('g, 'fm, 'x) vulcan_state" where
  "vulcan_step L G sc K (VK_Hook h) w = call_hook (vulcan_ops L G sc K) h w"
| "vulcan_step L G sc K (VK_Recv sk) (k, s) = (k, vulcan_trace_tcp_recvmsg L G K sk k s)"
| "vulcan_step L G sc K (VK_Kernel k') (k, s) = (k', s)"

definition vulcan_run :: "('g, 'fm) feature_lib \<Rightarrow> split_config \<Rightarrow>
    (('k, ('g, 'fm, 'x) vulcan_state) kfuncs \<Rightarrow> 'k \<Rightarrow> folio \<Rightarrow> ('g, 'fm, 'x) vulcan_state \<Rightarrow> s64 \<times> ('g, 'fm, 'x) vulcan_state) \<Rightarrow>
    ('k, ('g, 'fm, 'x) vulcan_state) kfuncs \<Rightarrow> 'k vulcan_event list \<Rightarrow> 'k \<times> ('g, 'fm, 'x) vulcan_state \<Rightarrow>
    'k \<times> ('g, 'fm, 'x) vulcan_state" where
  "vulcan_run L G sc K evs w = fold (vulcan_step L G sc K) evs w"

text \<open>What only packets and the score may change.\<close>

definition signals :: "('g, 'fm, 'x) vulcan_state \<Rightarrow> 'g \<times> net_globals \<times> 'x" where
  "signals s = (vk_features s, vk_net s, vk_block s)"

lemma hooks_keep_signals [simp]:
  "signals (vulcan_bump_counter i s) = signals s"
  "signals (snd (vulcan_folio_added L K f k s)) = signals s"
  "signals (snd (vulcan_folio_accessed L G K f k s)) = signals s"
  "signals (snd (vulcan_folio_evicted f k s)) = signals s"
  by (simp_all add: signals_def vulcan_bump_counter_def vulcan_folio_added_def vulcan_folio_accessed_def
      vulcan_folio_evicted_def vulcan_store_def split_def Let_def split: option.split)

lemma evict_signals:
  fixes K :: "('k, ('g, 'fm, 'x) vulcan_state) kfuncs"
  assumes "kernel_ok K" "\<And>k f s. P (signals s) \<Longrightarrow> P (signals (snd (sc k f s)))" "P (signals s)"
  shows "P (signals (snd (snd (vulcan_evict_folios sc K c m k s))))"
proof -
  let ?s = "vulcan_bump_counter 0 s" and ?o = "\<lparr>sample_size = 20, select_size = 0\<rparr>"
  have "P (signals (snd (snd (snd (kf_list_sample K m (vk_main_list ?s) sc ?o c k ?s)))))"
    using assms(1) by (rule sample_inv [where P = "\<lambda>t. P (signals t)"]) (simp_all add: assms(2,3))
  then show ?thesis by (simp add: vulcan_evict_folios_def split_def Let_def)
qed

lemma step_signals:
  assumes "kernel_ok K" "\<And>k f s. P (signals s) \<Longrightarrow> P (signals (snd (sc K k f s)))"
    and "\<And>sk k s. ev = VK_Recv sk \<Longrightarrow> P (signals s) \<Longrightarrow> P (signals (vulcan_trace_tcp_recvmsg L G K sk k s))"
    and "P (signals (snd w))"
  shows "P (signals (snd (vulcan_step L G sc K ev w)))"
proof (cases ev)
  case (VK_Hook h)
  then show ?thesis
    using assms(4) evict_signals [OF assms(1), of P "sc K", OF assms(2)]
    by (cases h; cases w) (simp_all add: vulcan_ops_def)
qed (use assms(3,4) in \<open>cases w; simp\<close>)+

lemma run_signals:
  assumes "kernel_ok K" "\<And>k f s. P (signals s) \<Longrightarrow> P (signals (snd (sc K k f s)))"
    and "\<And>sk k s. VK_Recv sk \<in> set evs \<Longrightarrow> P (signals s) \<Longrightarrow> P (signals (vulcan_trace_tcp_recvmsg L G K sk k s))"
    and "P (signals (snd w))"
  shows "P (signals (snd (vulcan_run L G sc K evs w)))"
  using assms(3,4) unfolding vulcan_run_def
proof (induction evs arbitrary: w)
  case (Cons ev evs)
  have "P (signals (snd (vulcan_step L G sc K ev w)))"
    using assms(1,2) by (rule step_signals) (use Cons.prems in auto)
  then show ?case using Cons by simp
qed simp

section \<open>The contract of the arrays of listeners\<close>

text \<open>
  What the policies rely on: a minimum or maximum without samples reads 0, an update touches
  the listeners of its own feature and among them only those its configuration enables.
\<close>

locale feature_store =
  fixes L :: "('g, 'fm) feature_lib" and z :: 'g
  assumes get_zero: "fl_get_max L i z = 0" "fl_get_min L i z = 0"
    and other_feature: "j \<noteq> i \<Longrightarrow> fl_get_max L j (fl_update_feature L i v c g) = fl_get_max L j g"
      "j \<noteq> i \<Longrightarrow> fl_get_min L j (fl_update_feature L i v c g) = fl_get_min L j g"
    and not_enabled: "listener_mask c AND FL_MINMAX L = 0 \<Longrightarrow> fl_get_max L i (fl_update_feature L i v c g) = fl_get_max L i g"
      "listener_mask c AND FL_MINMAX L = 0 \<Longrightarrow> fl_get_min L i (fl_update_feature L i v c g) = fl_get_min L i g"
    and disjoint_masks: "FL_EWMA L AND FL_MINMAX L = 0" "FL_RW L AND FL_MINMAX L = 0"
begin

lemma update_keeps:
  assumes "listener_mask (gf_config G i) AND FL_MINMAX L = 0"
  shows "fl_get_max L i (fl_update_feature L j v (gf_config G j) g) = fl_get_max L i g"
    "fl_get_min L i (fl_update_feature L j v (gf_config G j) g) = fl_get_min L i g"
  using assms by (cases "i = j"; simp add: other_feature not_enabled)+

text \<open>A feature whose minimum and maximum are not enabled keeps reading 0 for them.\<close>

lemma packets_keep:
  assumes "listener_mask (gf_config G i) AND FL_MINMAX L = 0"
  shows "fl_get_max L i (vk_features (vulcan_trace_tcp_recvmsg L G K sk k s)) = fl_get_max L i (vk_features s)"
    "fl_get_min L i (vk_features (vulcan_trace_tcp_recvmsg L G K sk k s)) = fl_get_min L i (vk_features s)"
proof -
  let ?u = "\<lambda>g a gf fs. let cfg = gf_config G (gf_index gf) in if listener_mask cfg \<noteq> 0
    then fl_update_feature L (gf_index gf) (raw_value g a gf) cfg fs else fs"
  have "fl_get_max L i (fold (?u g a) gfs fs) = fl_get_max L i fs \<and> fl_get_min L i (fold (?u g a) gfs fs) = fl_get_min L i fs"
    for g a gfs fs by (induction gfs arbitrary: fs) (simp_all add: Let_def update_keeps [OF assms])
  then show "fl_get_max L i (vk_features (vulcan_trace_tcp_recvmsg L G K sk k s)) = fl_get_max L i (vk_features s)"
    "fl_get_min L i (vk_features (vulcan_trace_tcp_recvmsg L G K sk k s)) = fl_get_min L i (vk_features s)"
    by (simp_all add: vulcan_trace_tcp_recvmsg_def Let_def split: option.split)
qed

lemma packets_keep_block: "vk_block (vulcan_trace_tcp_recvmsg L G K sk k s) = vk_block s"
  by (simp add: vulcan_trace_tcp_recvmsg_def Let_def split: option.split)

end

interpretation arrays: feature_store array_features zeroed_arrays
  by unfold_locales
    (auto simp: array_features_def zeroed_arrays_def vulcan_minmax_get_max_def vulcan_minmax_get_min_def minmax_zero_def)

section \<open>The dead loss boost of gen_23\<close>

lemma gen23_no_loss: "snd (gen23_network srtt 0 now ts) = ts"
  by (simp add: gen23_network_def Let_def)

lemma gen23_score_marks:
  assumes "fl_get_max L (gf_index GF_LOST) (vk_features s) = 0"
  shows "snd (gen23_score_fn L K k f s) = s"
  using assms gen23_no_loss
  by (simp add: gen23_score_fn_def Let_def split_def del: gf_index.simps split: option.split)

lemma sint_up: "150000000 \<le> (t :: u64) \<Longrightarrow> \<not> (0 \<le>s t \<and> t <s 150000000)"
proof
  assume t: "150000000 \<le> t" and "0 \<le>s t \<and> t <s 150000000"
  then have b: "0 \<le> sint t" "sint t < 150000000" by (simp_all add: word_sle_eq word_sless_alt)
  have "t = word_of_int (sint t)" by simp
  then obtain n where n: "t = word_of_int n" "0 \<le> n" "n < 150000000" using b by blast
  have "uint t = n" by (rule word_of_int_inverse) (use n in simp_all)
  then have "uint t < 150000000" using n by simp
  then show False using t by (simp add: word_le_def)
qed

text \<open>
  C38: the score of \<open>gen_23\<close> reads the maximum of the lost segments, but its configuration
  enables only their rolling window. So from the start on and over every run of hooks and
  packets, whatever the packets lose, the time of the last loss stays 0, the score changes
  nothing, and once the machine has been up for 150 ms it is the number of accesses scaled by
  the round-trip time alone, with the bonuses for recency and heat.
\<close>

theorem gen23_ignores_loss:
  assumes "feature_store L z" "kernel_ok K" "vk_features (snd w) = z" "vk_block (snd w) = 0"
    and s: "s = snd (vulcan_run L (gen23_config L) (gen23_score_fn L) K evs w)"
    and f: "evictable f" "map_of (vk_meta s) (folio_addr f) = Some meta" and up: "150000000 \<le> kf_ktime_get_ns K k"
  shows "vk_block s = 0 \<and> snd (gen23_score_fn L K k f s) = s \<and> sint (fst (gen23_score_fn L K k f s)) =
    heated (fm_interval_ewma L meta) (accesses L meta * rtt_percent (fl_get_ewma L (gf_index GF_SRTT_US) (vk_features s)) div 100
      + (if kf_ktime_get_ns K k - fm_last_access_ts L meta < 5000000000 then 50 else 0)) + last_page f"
proof -
  let ?P = "\<lambda>(g, n, x). fl_get_max L (gf_index GF_LOST) g = 0 \<and> x = (0 :: u64)"
  have off: "listener_mask (gf_config (gen23_config L) (gf_index GF_LOST)) AND FL_MINMAX L = 0"
    using feature_store.disjoint_masks [OF assms(1)] by (simp add: gen23_config_def rw_listener_def)
  have "?P (signals s)"
    unfolding s using assms(2)
  proof (rule run_signals [where P = ?P])
    show "?P (signals (snd (gen23_score_fn L K k f t)))" if "?P (signals t)" for k f t
      using that gen23_score_marks [of L t K k f] by (simp add: signals_def del: gf_index.simps)
    show "?P (signals (vulcan_trace_tcp_recvmsg L (gen23_config L) K sk k t))" if "?P (signals t)" for sk k t
      using that by (simp add: signals_def feature_store.packets_keep(1) [OF assms(1) off]
          feature_store.packets_keep_block [OF assms(1)] del: gf_index.simps)
    show "?P (signals (snd w))"
      using assms(3,4) feature_store.get_zero(1) [OF assms(1)] by (simp add: signals_def del: gf_index.simps)
  qed
  then have quiet: "fl_get_max L (gf_index GF_LOST) (vk_features s) = 0" "vk_block s = 0"
    by (simp_all add: signals_def del: gf_index.simps)
  let ?srtt = "fl_get_ewma L (gf_index GF_SRTT_US) (vk_features s)" and ?now = "kf_ktime_get_ns K k"
  have "\<not> (0 \<le>s ?now \<and> ?now <s 150000000)" using up by (simp add: sint_up)
  then have n: "gen23_network ?srtt (fl_get_max L (gf_index GF_LOST) (vk_features s)) ?now (vk_block s) =
      (word_of_int (rtt_percent ?srtt), 0)"
    by (auto simp: quiet gen23_network_def rtt_factor_int Let_def simp del: gf_index.simps)
  have "rtt_percent ?srtt \<le> 172" using rtt_percent_bounds(2) [of ?srtt] by simp
  then show ?thesis
    using gen23_score_eq(1) [OF f n rtt_percent_bounds(1)] quiet(2) gen23_score_marks [OF quiet(1)] by simp
qed

text \<open>A packet of a connection that has lost \<open>n\<close> segments, received on a watched port.\<close>

definition lossy_packet :: "u32 \<Rightarrow> tcp_sock" where
  "lossy_packet n = \<lparr>skc_num = 9001, tp_srtt_us = 4000, tp_mdev_us = 0, tp_bytes_received = 0, tp_bytes_acked = 0,
     tp_segs_in = 0, tp_segs_out = 0, tp_delivered = 0, tp_snd_cwnd = 10, tp_snd_ssthresh = 0, tp_rcv_wnd = 0,
     tp_packets_out = 0, tp_total_retrans = 0, tp_retrans_out = 0, tp_lost = n\<rparr>"

text \<open>A packet of the connection is received, then 20 seconds pass.\<close>

definition lossy_run :: "u32 \<Rightarrow> list_kernel vulcan_event list" where
  "lossy_run n = [VK_Recv (Some (lossy_packet n)), VK_Kernel (demo_kernel\<lparr>lk_now := 20000000000\<rparr>)]"

lemma lossy_run_state:
  "vk_meta (snd (vulcan_run L G sc K (lossy_run n) (k, s))) = vk_meta s"
  by (simp add: vulcan_run_def lossy_run_def vulcan_trace_tcp_recvmsg_def Let_def)

theorem gen23_ignores_loss_witness:
  "vk_block (snd (vulcan_run array_features (gen23_config array_features) (gen23_score_fn array_features)
     list_kfuncs (lossy_run 7) (demo_kernel, demo_arrays 0))) = 0"
proof -
  let ?s = "snd (vulcan_run array_features (gen23_config array_features) (gen23_score_fn array_features)
     list_kfuncs (lossy_run 7) (demo_kernel, demo_arrays 0))"
  have m: "map_of (vk_meta ?s) (folio_addr (clean_folio 2)) = Some (100, 0, 20000000000)"
    by (simp only: lossy_run_state demo_arrays_simps)
  have k: "kernel_ok (list_kfuncs :: (list_kernel, (listener_arrays, u32 \<times> u64 \<times> s64, u64) vulcan_state) kfuncs)"
    by (rule list_kernel_ok)
  have up: "150000000 \<le> kf_ktime_get_ns (list_kfuncs :: (list_kernel, (listener_arrays, u32 \<times> u64 \<times> s64, u64) vulcan_state) kfuncs)
      (demo_kernel\<lparr>lk_now := 20000000000\<rparr>)"
    by (simp add: list_kfuncs_def)
  show ?thesis
    using gen23_ignores_loss [OF arrays.feature_store_axioms k _ _ refl demo_folio_flags(1) m up]
    by (simp add: demo_arrays_simps)
qed

section \<open>The losses gen_66 does not see\<close>

lemma gen66_score_marks:
  "ng_lost (vk_net s) \<le> prev_loss_count (vk_block s) \<Longrightarrow> snd (gen66_score_fn L K k f s) = s"
  by (simp add: gen66_score_fn_def gen66_note_loss_def Let_def leD split: option.split)

text \<open>The score depends on the marks through the network's part alone.\<close>

lemma gen66_score_network:
  "fst (gen66_score_fn L K k f s) = (case scored_meta f s of None \<Rightarrow> INT64_MAX | Some meta \<Rightarrow>
     (let now = kf_ktime_get_ns K k;
          base_score = div64 (ucast (fm_access_count L meta) * (100 + recency_factor (now - fm_last_access_ts L meta))) 100;
          n = gen66_network (fl_get_ewma L (gf_index GF_SRTT_US) (vk_features s)) now
            (gen66_note_loss now (ng_lost (vk_net s)) (vk_block s));
          score = gen66_heat_adjust (fm_interval_ewma L meta) (div64 (base_score * n) 100)
      in if vulcan_is_last_page_in_file f then score + 100000 else score))"
  by (cases "scored_meta f s") (simp_all add: gen66_score_fn_def Let_def del: gf_index.simps)

text \<open>
  C39: \<open>gen_66\<close> takes the counter of the connection that received last for one counter of
  losses, and remembers the greatest value it met. While no connection it hears from has lost
  more segments than that, however many they lose meanwhile, its marks stay as they are, and
  from 150 ms after the last time it took for a loss the score is that of a client that has
  never lost a segment.
\<close>

theorem gen66_lower_counts_unnoticed:
  assumes "kernel_ok K" and b: "b = vk_block (snd w)" "ng_lost (vk_net (snd w)) \<le> prev_loss_count b"
    and lost: "\<And>tp. VK_Recv (Some tp) \<in> set evs \<Longrightarrow> tp_lost tp \<le> prev_loss_count b"
    and s: "s = snd (vulcan_run L (gen66_config L) (gen66_score_fn L) K evs w)"
    and late: "150000000 \<le> kf_ktime_get_ns K k - last_loss_event_ts b"
  shows "vk_block s = b \<and> snd (gen66_score_fn L K k f s) = s \<and> fst (gen66_score_fn L K k f s) =
    fst (gen66_score_fn L K k f (s\<lparr>vk_net := (vk_net s)\<lparr>ng_lost := 0\<rparr>,
      vk_block := \<lparr>last_loss_event_ts = 0, prev_loss_count = 0\<rparr>\<rparr>))"
proof -
  let ?P = "\<lambda>(g, n, x). ng_lost n \<le> prev_loss_count b \<and> x = b"
  have "?P (signals s)"
    unfolding s using assms(1)
  proof (rule run_signals [where P = ?P])
    show "?P (signals (snd (gen66_score_fn L K k f t)))" if "?P (signals t)" for k f t
      using that by (simp add: signals_def gen66_score_marks)
    show "?P (signals (vulcan_trace_tcp_recvmsg L (gen66_config L) K sk k t))"
      if "VK_Recv sk \<in> set evs" "?P (signals t)" for sk k t
      using that lost by (auto simp: signals_def vulcan_trace_tcp_recvmsg_def read_tcp_sock_def Let_def split: option.split)
    show "?P (signals (snd w))" using b by (simp add: signals_def)
  qed
  then have q: "ng_lost (vk_net s) \<le> prev_loss_count b" "vk_block s = b" by (simp_all add: signals_def)
  then have unnoticed: "gen66_note_loss t (ng_lost (vk_net s)) (vk_block s) = b" for t by (simp add: gen66_note_loss_def)
  have calm: "gen66_network x (kf_ktime_get_ns K k) b = rtt_factor x" for x
    using late by (simp add: gen66_network_def Let_def leD)
  let ?b0 = "\<lparr>last_loss_event_ts = 0, prev_loss_count = 0\<rparr>"
  have never: "gen66_note_loss t 0 ?b0 = ?b0" "gen66_network x t ?b0 = rtt_factor x" for t x
    by (simp_all add: gen66_note_loss_def gen66_network_def Let_def)
  have "snd (gen66_score_fn L K k f s) = s" by (intro gen66_score_marks) (simp add: q)
  moreover have "fst (gen66_score_fn L K k f s) =
      fst (gen66_score_fn L K k f (s\<lparr>vk_net := (vk_net s)\<lparr>ng_lost := 0\<rparr>, vk_block := ?b0\<rparr>))"
  proof -
    have "scored_meta f (s\<lparr>vk_net := n, vk_block := x\<rparr>) = scored_meta f s" for n x by (simp add: scored_meta_eq)
    then show ?thesis unfolding gen66_score_network
      by (cases "scored_meta f s") (simp_all add: q(2) unnoticed [unfolded q(2)] calm never Let_def del: gf_index.simps)
  qed
  ultimately show ?thesis using q(2) by blast
qed

text \<open>After a connection that lost 7 segments, one that loses 5.\<close>

theorem gen66_lower_counts_unnoticed_witness:
  "vk_block (snd (vulcan_run array_features (gen66_config array_features) (gen66_score_fn array_features)
     list_kfuncs (lossy_run 5) (demo_kernel, demo_arrays \<lparr>last_loss_event_ts = 1, prev_loss_count = 7\<rparr>)))
     = \<lparr>last_loss_event_ts = 1, prev_loss_count = 7\<rparr>"
proof -
  let ?b = "\<lparr>last_loss_event_ts = 1, prev_loss_count = 7\<rparr>"
  have k: "kernel_ok (list_kfuncs :: (list_kernel, (listener_arrays, u32 \<times> u64 \<times> s64, loss_marks) vulcan_state) kfuncs)"
    by (rule list_kernel_ok)
  have b: "?b = vk_block (snd (demo_kernel, demo_arrays ?b))"
    "ng_lost (vk_net (snd (demo_kernel, demo_arrays ?b))) \<le> prev_loss_count ?b"
    by (simp_all add: demo_arrays_simps)
  have l: "tp_lost tp \<le> prev_loss_count ?b" if "VK_Recv (Some tp) \<in> set (lossy_run 5)" for tp
    using that by (simp add: lossy_run_def lossy_packet_def)
  have t: "150000000 \<le> kf_ktime_get_ns (list_kfuncs :: (list_kernel, (listener_arrays, u32 \<times> u64 \<times> s64, loss_marks) vulcan_state) kfuncs)
      (demo_kernel\<lparr>lk_now := 20000000000\<rparr>) - last_loss_event_ts ?b"
    by (simp add: list_kfuncs_def)
  show ?thesis using gen66_lower_counts_unnoticed [OF k b l refl t] by simp
qed

section \<open>What else does not decide\<close>

text \<open>
  \<open>gen_39\<close> reads the least congestion window, but enables only its moving average: the bonus
  is never reduced for a client that recovers from congestion.
\<close>

lemma gen39_score_pure: "snd (gen39_score_fn L K k f s) = s"
  by (simp add: gen39_score_fn_def Let_def split: option.split)

lemma gen39_never_recovers:
  assumes "feature_store L z" "kernel_ok K" "vk_features (snd w) = z"
  shows "\<not> gen39_recovering c (fl_get_min L (gf_index GF_SND_CWND)
    (vk_features (snd (vulcan_run L (gen39_config L) (gen39_score_fn L) K evs w))))"
proof -
  let ?P = "\<lambda>(g, n, x). fl_get_min L (gf_index GF_SND_CWND) g = 0"
  have off: "listener_mask (gf_config (gen39_config L) (gf_index GF_SND_CWND)) AND FL_MINMAX L = 0"
    using feature_store.disjoint_masks [OF assms(1)] by (simp add: gen39_config_def ewma_listener_def)
  have "?P (signals (snd (vulcan_run L (gen39_config L) (gen39_score_fn L) K evs w)))"
    using assms(2)
  proof (rule run_signals [where P = ?P])
    show "?P (signals (snd (gen39_score_fn L K k f t)))" if "?P (signals t)" for k f t
      using that by (simp only: gen39_score_pure)
    show "?P (signals (vulcan_trace_tcp_recvmsg L (gen39_config L) K sk k t))" if "?P (signals t)" for sk k t
      using that by (simp add: signals_def feature_store.packets_keep(2) [OF assms(1) off] del: gf_index.simps)
    show "?P (signals (snd w))"
      using assms(3) feature_store.get_zero(2) [OF assms(1)] by (simp add: signals_def del: gf_index.simps)
  qed
  then show ?thesis by (simp add: signals_def gen39_recovering_def del: gf_index.simps)
qed

text \<open>The floor of 50 percent in \<open>gen_56\<close> is never reached, nor the decay to it.\<close>

lemma gen56_decay_above_floor:
  assumes "100000000 \<le> t" "t < 1000000000"
  shows "56 \<le>s gen56_decay_pct t"
proof -
  obtain e where e: "0 \<le> e" "e \<le> 8" "gen56_decay_pct t = word_of_int (80 - 3 * e)" using gen56_decay [OF assms] by blast
  have "sint (word_of_int (80 - 3 * e) :: s64) = 80 - 3 * e" using e(1,2) by (intro sint_wrap_small) simp_all
  then show ?thesis unfolding e(3) word_sle_eq using e(2) by simp
qed

end
