(* ===== verification/Lhd_System.thy ===== *)
theory Lhd_System
  imports Lhd Loaders
begin

text \<open>
  LHD as it runs: the policy in the kernel (\<open>policies/cache_ext_lhd.bpf.c\<close>), the ring buffer
  through which it asks for a reconfiguration, and the loader (\<open>policies/cache_ext_lhd.c\<close>)
  whose callback \<open>handle_event\<close> runs the program \<open>reconfigure\<close> for each event. The system is
  a step relation: the kernel calls a hook, a file is opened, the loader takes an event off
  the buffer, in any order (each step runs to its end). Shown, for every reachable system:
  requests, reconfigurations, pending and handled events add up; events arrive in order and
  at most once; the age scale changes only while the counter, not the event, says 5 or 25.
\<close>

section \<open>The system\<close>

definition INITIAL_AGE_COARSENING_SHIFT :: u64 where
  "INITIAL_AGE_COARSENING_SHIFT = 10"

definition zero_class :: lhd_class where
  "zero_class = \<lparr>total_hits = 0, total_evictions = 0, hits = (\<lambda>_. 0), evictions = (\<lambda>_. 0), hit_densities = (\<lambda>_. 0)\<rparr>"

text \<open>The policy's data when the loader attaches it with the watch state \<open>ws\<close>.\<close>

definition lhd_boot :: "watch_state \<Rightarrow> lhd_state" where
  "lhd_boot ws = watch_state.extend ws (lhd_state.fields REQS_PER_RECONFIG 0 INITIAL_AGE_COARSENING_SHIFT
     0 0 0 0 0 0 0 (\<lambda>_. zero_class) [] [])"

text \<open>
  \<open>sys_handled\<close> is the loader's counter; \<open>sys_polling\<close> says that its event loop still runs.
\<close>

record 'k lhd_system =
  sys_kernel :: 'k
  sys_lhd :: lhd_state
  sys_handled :: s64
  sys_polling :: bool

definition lhd_attached :: "'k \<Rightarrow> lhd_state \<Rightarrow> 'k lhd_system" where
  "lhd_attached k s = \<lparr>sys_kernel = k, sys_lhd = s, sys_handled = 0, sys_polling = True\<rparr>"

text \<open>
  A successful test run executes \<open>reconfigure\<close>, a failed one does not; a negative result
  ends \<open>ring_buffer__poll\<close> and with it the loader's loop. The event is consumed either way.
\<close>

definition take_event :: "s32 \<Rightarrow> lhd_state \<Rightarrow> lhd_state" where
  "take_event test_run s =
     (let s1 = s\<lparr>lhd_events := tl (lhd_events s)\<rparr>
      in if test_run = 0 then snd (reconfigure s1) else s1)"

inductive lhd_step :: "('k, lhd_state) kfuncs \<Rightarrow> 'k lhd_system \<Rightarrow> 'k lhd_system \<Rightarrow> bool" for K where
  hook: "lhd_adm K (sys_kernel w) h (sys_lhd w) \<Longrightarrow>
     call_hook (lhd_ops K) h (sys_kernel w, sys_lhd w) = (k', s') \<Longrightarrow>
     lhd_step K w (w\<lparr>sys_kernel := k', sys_lhd := s'\<rparr>)"
| opened: "lhd_step K w (w\<lparr>sys_lhd := vfs_open_enter err dm d (sys_lhd w)\<rparr>)"
| event: "sys_polling w \<Longrightarrow> lhd_events (sys_lhd w) \<noteq> [] \<Longrightarrow>
     handle_event test_run (sys_handled w) = (ret, n') \<Longrightarrow>
     lhd_step K w (w\<lparr>sys_lhd := take_event test_run (sys_lhd w), sys_handled := n',
                    sys_polling := \<not> ret <s 0\<rparr>)"

inductive_cases lhd_stepE: "lhd_step K w w'"

text \<open>The systems reached from \<open>w0\<close> in a number of steps.\<close>

inductive lhd_reach :: "('k, lhd_state) kfuncs \<Rightarrow> 'k lhd_system \<Rightarrow> nat \<Rightarrow> 'k lhd_system \<Rightarrow> bool" for K w0 where
  start: "lhd_reach K w0 0 w0"
| step: "lhd_reach K w0 n w \<Longrightarrow> lhd_step K w w' \<Longrightarrow> lhd_reach K w0 (Suc n) w'"

section \<open>What a step does to the queue of events\<close>

definition queue_step :: "lhd_state \<Rightarrow> lhd_state \<Rightarrow> bool" where
  "queue_step s s' \<longleftrightarrow>
     (lhd_timestamp s' = lhd_timestamp s \<or> lhd_timestamp s' = lhd_timestamp s + 1) \<and>
     (num_reconfigurations s' = num_reconfigurations s \<and> lhd_events s' = lhd_events s \<or>
      num_reconfigurations s' = num_reconfigurations s + 1 \<and>
        (lhd_events s' = lhd_events s \<or> lhd_events s' = lhd_events s @ [num_reconfigurations s']))"

lemma queue_count_request:
  "lhd_timestamp s' = lhd_timestamp s + 1 \<Longrightarrow> num_reconfigurations s' = num_reconfigurations s \<Longrightarrow>
   lhd_events s' = lhd_events s \<Longrightarrow> queue_step s (count_request K k s')"
  by (auto simp: queue_step_def count_request_def Let_def)

lemma queue_same:
  "lhd_timestamp s' = lhd_timestamp s \<Longrightarrow> num_reconfigurations s' = num_reconfigurations s \<Longrightarrow>
   lhd_events s' = lhd_events s \<Longrightarrow> queue_step s s'"
  by (simp add: queue_step_def)

lemma queue_accessed: "queue_step s (snd (lhd_folio_accessed K f k s))"
proof (cases "map_of (lhd_meta s) (folio_addr f)")
  case (Some data)
  obtain age n where a: "get_age data s = (age, s\<lparr>overflows := n\<rparr>)"
    using get_age_frame [of data s] by (cases "get_age data s") auto
  show ?thesis
    using Some by (auto simp: lhd_folio_accessed_def a Let_def class_hit_def intro: queue_count_request queue_same)
qed (auto simp: lhd_folio_accessed_def intro: queue_same)

lemma queue_evicted: "queue_step s (snd (lhd_folio_evicted f k s))"
proof (cases "map_of (lhd_meta s) (folio_addr f)")
  case (Some data)
  obtain age n where a: "get_age data s = (age, s\<lparr>overflows := n\<rparr>)"
    using get_age_frame [of data s] by (cases "get_age data s") auto
  show ?thesis
    using Some by (auto simp: lhd_folio_evicted_def a Let_def class_eviction_def intro: queue_same)
qed (auto simp: lhd_folio_evicted_def intro: queue_same)

lemma queue_added: "queue_step s (snd (lhd_folio_added K f k s))"
  by (auto simp: lhd_folio_added_def Let_def split_def intro: queue_count_request queue_same)

lemma queue_evict:
  fixes K :: "('k, lhd_state) kfuncs"
  assumes "kernel_ok K"
  shows "queue_step s (snd (snd (lhd_evict_folios K c m k s)))"
proof -
  let ?P = "\<lambda>t. lhd_timestamp t = lhd_timestamp s \<and> num_reconfigurations t = num_reconfigurations s
    \<and> lhd_events t = lhd_events s"
  have keep: "?P (snd (bpf_lhd_score_fn k f t))" if "?P t" for k :: 'k and f t
  proof -
    obtain n where "snd (bpf_lhd_score_fn k f t) = t\<lparr>overflows := n\<rparr>" using score_frame [of k f t] by (rule exE)
    with that show ?thesis by simp
  qed
  have "?P (snd (snd (lhd_evict_folios K c m k s)))"
    using sample_inv [where P = ?P and sc = bpf_lhd_score_fn, OF assms keep]
    by (simp add: lhd_evict_folios_def split_def Let_def)
  then show ?thesis by (auto intro: queue_same)
qed

lemma queue_hook:
  assumes "kernel_ok K"
  shows "queue_step s (snd (call_hook (lhd_ops K) h (k, s)))"
  by (cases h) (simp_all add: lhd_ops_def queue_added queue_accessed queue_evicted queue_evict [OF assms])

lemma vfs_open_frame [simp]:
  fixes s :: lhd_state
  shows "lhd_timestamp (vfs_open_enter err dm d s) = lhd_timestamp s"
    "num_reconfigurations (vfs_open_enter err dm d s) = num_reconfigurations s"
    "next_reconfiguration (vfs_open_enter err dm d s) = next_reconfiguration s"
    "lhd_events (vfs_open_enter err dm d s) = lhd_events s" "lhd_meta (vfs_open_enter err dm d s) = lhd_meta s"
    "num_objects (vfs_open_enter err dm d s) = num_objects s"
    "age_coarsening_shift (vfs_open_enter err dm d s) = age_coarsening_shift s"
  by (auto simp: vfs_open_enter_def Let_def split: option.split prod.split)

lemma reconfigure_frame [simp]:
  "lhd_timestamp (snd (reconfigure s)) = lhd_timestamp s" "num_objects (snd (reconfigure s)) = num_objects s"
  "num_reconfigurations (snd (reconfigure s)) = num_reconfigurations s"
  "next_reconfiguration (snd (reconfigure s)) = next_reconfiguration s"
  "lhd_events (snd (reconfigure s)) = lhd_events s" "lhd_meta (snd (reconfigure s)) = lhd_meta s"
  "age_coarsening_shift (snd (reconfigure s)) = age_coarsening_shift (adapt_age_coarsening s)"
  by (simp_all add: reconfigure_def adapt_age_coarsening_def Let_def)

lemma lhd_inv_open: "lhd_inv s \<Longrightarrow> lhd_inv (vfs_open_enter err dm d s)"
  by (simp add: lhd_inv_def requests_ok_def)

lemma lhd_inv_take: "lhd_inv s \<Longrightarrow> lhd_inv (take_event r s)"
  by (simp add: lhd_inv_def requests_ok_def take_event_def Let_def)

lemma take_event_frame [simp]:
  "lhd_timestamp (take_event r s) = lhd_timestamp s" "num_reconfigurations (take_event r s) = num_reconfigurations s"
  "lhd_events (take_event r s) = tl (lhd_events s)"
  by (simp_all add: take_event_def Let_def)

section \<open>Requests, events and reconfigurations add up\<close>

text \<open>Before the clock wraps, the number of reconfigurations is read off it.\<close>

lemma reconfigurations_of_clock:
  assumes "requests_ok s" "unat (lhd_timestamp s) < 2 ^ 51"
  shows "unat (num_reconfigurations s) = unat (lhd_timestamp s) div 2 ^ 20"
proof -
  let ?t = "unat (lhd_timestamp s)" and ?x = "unat (next_reconfiguration s)" and ?m = "unat (num_reconfigurations s)"
  have x: "1 \<le> ?x" "?x \<le> 2 ^ 20"
    using assms(1) by (simp_all add: requests_ok_def REQS_PER_RECONFIG_def word_le_nat_alt)
  have m: "?m < 2 ^ 32" using unsigned_less [of "num_reconfigurations s"] by simp
  have u: "unat (2 ^ 12 * (lhd_timestamp s + next_reconfiguration s)) = 2 ^ 12 * (?t + ?x)"
    using assms(2) x by (simp add: unat_word_ariths)
  have "unat (ucast (num_reconfigurations s) + 1 :: u64) = ?m + 1"
    using m by (simp add: unat_word_ariths unsigned_ucast_eq take_bit_nat_eq_self)
  then have "unat (2 ^ 32 * (ucast (num_reconfigurations s) + 1) :: u64) = (2 ^ 32 * (?m + 1)) mod 2 ^ 64"
    by (subst unat_word_ariths(2)) simp
  moreover have "2 ^ 12 * (lhd_timestamp s + next_reconfiguration s) = 2 ^ 32 * (ucast (num_reconfigurations s) + 1)"
    using assms(1) by (simp add: requests_ok_def)
  ultimately have "unat (2 ^ 12 * (lhd_timestamp s + next_reconfiguration s)) = (2 ^ 32 * (?m + 1)) mod 2 ^ 64"
    by (simp only:)
  with u have eq: "2 ^ 12 * (?t + ?x) = (2 ^ 32 * (?m + 1)) mod 2 ^ 64" by simp
  have "?m + 1 \<noteq> 2 ^ 32"
  proof
    assume "?m + 1 = 2 ^ 32"
    then have "(2 ^ 32 * (?m + 1)) mod 2 ^ 64 = (0 :: nat)" by simp
    with eq x show False by simp
  qed
  with m have "2 ^ 32 * (?m + 1) < (2 ^ 64 :: nat)" by simp
  with eq have "?t + ?x = 2 ^ 20 * (?m + 1)" by simp
  then have "?t = 2 ^ 20 * ?m + (2 ^ 20 - ?x)" using x by simp
  moreover have "2 ^ 20 - ?x < (2 ^ 20 :: nat)" using x by simp
  ultimately show ?thesis by simp
qed

text \<open>
  In a system reached in \<open>n\<close> steps: the policy's own invariant; at most one request per
  step; the pending events in increasing order, none beyond the counter; no event handled
  that was not sent.
\<close>

definition system_inv :: "nat \<Rightarrow> 'k lhd_system \<Rightarrow> bool" where
  "system_inv n w \<longleftrightarrow> (let s = sys_lhd w in
     lhd_inv s \<and> unat (lhd_timestamp s) \<le> n
     \<and> sorted_wrt (<) (lhd_events s) \<and> (\<forall>e \<in> set (lhd_events s). e \<le> num_reconfigurations s)
     \<and> unat (sys_handled w) + length (lhd_events s) \<le> unat (num_reconfigurations s))"

lemma system_inv_queue:
  assumes "system_inv n w" "n < 2 ^ 51" "queue_step (sys_lhd w) s'" "lhd_inv s'"
  shows "system_inv (Suc n) (w\<lparr>sys_kernel := k', sys_lhd := s'\<rparr>)"
proof -
  let ?s = "sys_lhd w"
  have inv: "requests_ok ?s" "unat (lhd_timestamp ?s) \<le> n" using assms(1) by (simp_all add: system_inv_def lhd_inv_def Let_def)
  have "unat (num_reconfigurations ?s) \<le> unat (lhd_timestamp ?s)"
    using reconfigurations_of_clock [OF inv(1)] inv(2) assms(2) by simp
  then have "unat (num_reconfigurations ?s) < 2 ^ 32 - 1"
    using reconfigurations_of_clock [OF inv(1)] inv(2) assms(2) div_le_mono [of "unat (lhd_timestamp ?s)" "2 ^ 51" "2 ^ 20"] by simp
  then have num: "unat (num_reconfigurations ?s + 1) = unat (num_reconfigurations ?s) + 1"
    by (simp add: unat_word_ariths)
  have "unat (lhd_timestamp ?s + 1) \<le> unat (lhd_timestamp ?s) + 1"
    by (simp add: unat_word_ariths)
  then have ts: "unat (lhd_timestamp s') \<le> Suc n"
    using assms(3) inv(2) by (auto simp: queue_step_def)
  have up: "e < num_reconfigurations ?s + 1" if "e \<in> set (lhd_events ?s)" for e
    using assms(1) that num by (auto simp: system_inv_def Let_def word_less_nat_alt word_le_nat_alt)
  show ?thesis
    using assms(1,3,4) ts num up
    by (auto simp: system_inv_def queue_step_def Let_def sorted_wrt_append less_imp_le)
qed

lemma system_inv_step:
  assumes "kernel_ok K" "lhd_step K w w'" "system_inv n w" "n < 2 ^ 51"
  shows "system_inv (Suc n) w'"
  using assms(2)
proof (cases rule: lhd_step.cases)
  case (hook h k' s')
  have s': "s' = snd (call_hook (lhd_ops K) h (sys_kernel w, sys_lhd w))" using hook by simp
  have "lhd_inv s'"
    unfolding s' using lhd.hook_inv [OF assms(1), of "(sys_kernel w, sys_lhd w)" h] hook assms(3)
    by (simp add: system_inv_def Let_def)
  moreover have "queue_step (sys_lhd w) s'" unfolding s' by (rule queue_hook [OF assms(1)])
  ultimately show ?thesis using system_inv_queue [OF assms(3,4)] hook(1) by simp
next
  case (opened err dm d)
  then show ?thesis using assms(3) by (simp add: system_inv_def Let_def lhd_inv_open)
next
  case (event r ret n')
  let ?s = "sys_lhd w"
  obtain e es where es: "lhd_events ?s = e # es" using event(3) by (cases "lhd_events ?s") auto
  have n: "n' = sys_handled w + 1" using event(4) by (simp add: handle_event_def)
  have "unat (sys_handled w) + 1 \<le> unat (num_reconfigurations ?s)"
    using assms(3) es by (simp add: system_inv_def Let_def)
  moreover have "unat (num_reconfigurations ?s) < 2 ^ 32" using unsigned_less [of "num_reconfigurations ?s"] by simp
  ultimately have "unat n' = unat (sys_handled w) + 1" by (simp add: n unat_word_ariths)
  then show ?thesis
    using assms(3) es event(1) by (simp add: system_inv_def Let_def lhd_inv_take)
qed

lemma system_inv_reach:
  assumes "kernel_ok K" "lhd_reach K w0 n w" "system_inv 0 w0" "n \<le> 2 ^ 51"
  shows "system_inv n w"
  using assms(2,4)
proof (induction rule: lhd_reach.induct)
  case (step n w w')
  then show ?case using system_inv_step [OF assms(1)] by simp
qed (rule assms(3))

lemma lhd_booted:
  assumes "lhd_init K memcg k (lhd_boot ws) = (0, k1, s1)"
  shows "system_inv 0 (lhd_attached k1 s1)"
  using assms
  by (auto simp: lhd_init_def Let_def split_def lhd_attached_def system_inv_def lhd_inv_def requests_ok_def lhd_boot_def
      watch_state.defs lhd_state.defs REQS_PER_RECONFIG_def hmap_ok_def lhd_meta_cap_def word_le_nat_alt split: if_splits)

text \<open>
  C15: over every interleaving of hooks, opened files and handled events in which the hook for
  added folios is called only for a folio without metadata (the kernel adds a folio to the page
  cache once before it evicts it), from the moment the policy is initialised and for less than
  2 to the 51 steps (the clock does not wrap): one reconfiguration is asked for per 2 to the 20
  requests, the loader handles at most as many, the events wait in increasing order, so each is
  handled at most once, and the counter of objects is the number of tracked folios. Nothing is
  assumed of the other hooks, nor of the results of the list operations.
\<close>

theorem lhd_system_accounts:
  assumes "kernel_ok K" "lhd_init K memcg k (lhd_boot ws) = (0, k1, s1)"
    and "lhd_reach K (lhd_attached k1 s1) n w" "n < 2 ^ 51" "s = sys_lhd w"
  shows "unat (num_reconfigurations s) = unat (lhd_timestamp s) div 2 ^ 20
    \<and> unat (sys_handled w) + length (lhd_events s) \<le> unat (lhd_timestamp s) div 2 ^ 20
    \<and> sorted_wrt (<) (lhd_events s)
    \<and> num_objects s = of_nat (length (lhd_meta s))"
proof -
  have inv: "system_inv n w"
    using system_inv_reach [OF assms(1,3) lhd_booted [OF assms(2)]] assms(4) by simp
  then have "requests_ok s" "unat (lhd_timestamp s) < 2 ^ 51"
    using assms(4,5) by (simp_all add: system_inv_def lhd_inv_def Let_def)
  from reconfigurations_of_clock [OF this] inv assms(5) show ?thesis
    by (simp add: system_inv_def lhd_inv_def Let_def)
qed

lemma demo_boot:
  "lhd_init list_kfuncs 0 demo_kernel (lhd_boot demo_watch) =
     (0, snd (lhd_init list_kfuncs 0 demo_kernel (lhd_boot demo_watch)))"
  by (simp add: lhd_init_def list_kernel_simps demo_kernel_def Let_def)

definition demo_system :: "list_kernel lhd_system" where
  "demo_system = (let (ret, k1, s1) = lhd_init list_kfuncs 0 demo_kernel (lhd_boot demo_watch) in lhd_attached k1 s1)"

text \<open>A file of the watched directory is opened and one of its pages added.\<close>

definition demo_opened :: "list_kernel lhd_system" where
  "demo_opened = demo_system\<lparr>sys_lhd := vfs_open_enter 0 demo_dentries 16 (sys_lhd demo_system)\<rparr>"

theorem lhd_system_accounts_witness:
  "\<exists>w. lhd_reach list_kfuncs demo_system 2 w
    \<and> num_objects (sys_lhd w) = of_nat (length (lhd_meta (sys_lhd w)))"
proof -
  obtain k1 s1 where b: "lhd_init list_kfuncs 0 demo_kernel (lhd_boot demo_watch) = (0, k1, s1)"
    using demo_boot by (cases "snd (lhd_init list_kfuncs 0 demo_kernel (lhd_boot demo_watch))") metis
  have sys: "demo_system = lhd_attached k1 s1" by (simp add: demo_system_def b)
  have m: "lhd_meta s1 = []"
    using b by (auto simp: lhd_init_def Let_def split_def lhd_boot_def watch_state.defs lhd_state.defs split: if_splits)
  let ?h = "Folio_Added (clean_folio 3)"
  obtain k' s' where c: "call_hook (lhd_ops list_kfuncs) ?h (sys_kernel demo_opened, sys_lhd demo_opened) = (k', s')" by force
  have "lhd_step list_kfuncs demo_system demo_opened" unfolding demo_opened_def by (rule lhd_step.opened)
  moreover have "lhd_step list_kfuncs demo_opened (demo_opened\<lparr>sys_kernel := k', sys_lhd := s'\<rparr>)"
    by (rule lhd_step.hook [OF _ c]) (simp add: demo_opened_def sys lhd_attached_def m)
  ultimately have r: "lhd_reach list_kfuncs demo_system (Suc (Suc 0)) (demo_opened\<lparr>sys_kernel := k', sys_lhd := s'\<rparr>)"
    by (blast intro: lhd_reach.intros)
  have n: "Suc (Suc 0) < 2 ^ 51" by simp
  from lhd_system_accounts [OF list_kernel_ok b r [unfolded sys] n refl] r
  show ?thesis by (intro exI [of _ "demo_opened\<lparr>sys_kernel := k', sys_lhd := s'\<rparr>"]) (simp add: numeral_2_eq_2)
qed

section \<open>When the age scale changes\<close>

lemma hook_shift:
  fixes K :: "('k, lhd_state) kfuncs"
  assumes "kernel_ok K"
  shows "age_coarsening_shift (snd (call_hook (lhd_ops K) h (k, s))) = age_coarsening_shift s"
proof (cases h)
  case (Folio_Accessed f)
  show ?thesis
  proof (cases "map_of (lhd_meta s) (folio_addr f)")
    case (Some data)
    obtain age n where a: "get_age data s = (age, s\<lparr>overflows := n\<rparr>)"
      using get_age_frame [of data s] by (cases "get_age data s") auto
    show ?thesis using Folio_Accessed Some
      by (simp add: lhd_ops_def lhd_folio_accessed_def a Let_def class_hit_def count_request_def)
  qed (use Folio_Accessed in \<open>simp add: lhd_ops_def lhd_folio_accessed_def\<close>)
next
  case (Folio_Evicted f)
  show ?thesis
  proof (cases "map_of (lhd_meta s) (folio_addr f)")
    case (Some data)
    obtain age n where a: "get_age data s = (age, s\<lparr>overflows := n\<rparr>)"
      using get_age_frame [of data s] by (cases "get_age data s") auto
    show ?thesis using Folio_Evicted Some
      by (simp add: lhd_ops_def lhd_folio_evicted_def a Let_def class_eviction_def)
  qed (use Folio_Evicted in \<open>simp add: lhd_ops_def lhd_folio_evicted_def\<close>)
next
  case (Evict_Folios c m)
  have keep: "age_coarsening_shift (snd (bpf_lhd_score_fn k f t)) = age_coarsening_shift s"
    if "age_coarsening_shift t = age_coarsening_shift s" for k :: 'k and f t
  proof -
    obtain n where "snd (bpf_lhd_score_fn k f t) = t\<lparr>overflows := n\<rparr>" using score_frame [of k f t] by (rule exE)
    with that show ?thesis by simp
  qed
  show ?thesis
    using sample_inv [where P = "\<lambda>t. age_coarsening_shift t = age_coarsening_shift s" and sc = bpf_lhd_score_fn,
        OF assms keep]
    by (simp add: Evict_Folios lhd_ops_def lhd_evict_folios_def split_def Let_def)
qed (simp add: lhd_ops_def lhd_folio_added_def split_def Let_def count_request_def)

text \<open>
  The age scale changes only when the loader handles an event while the counter of
  reconfigurations reads 5 or 25, whatever the number in the event: the fifth event changes
  nothing once the counter has moved on, and an earlier one handled late changes the scale.
\<close>

lemma scale_follows_counter:
  assumes "kernel_ok K" "lhd_step K w w'"
    and "age_coarsening_shift (sys_lhd w') \<noteq> age_coarsening_shift (sys_lhd w)"
  shows "num_reconfigurations (sys_lhd w) \<in> {5, 25} \<and> lhd_events (sys_lhd w) \<noteq> []
    \<and> lhd_events (sys_lhd w') = tl (lhd_events (sys_lhd w))
    \<and> age_coarsening_shift (sys_lhd w') = ucast (coarsening_loop 10 (optimal_coarsening (sys_lhd w)) 1)"
  using assms(2)
proof (cases rule: lhd_step.cases)
  case (hook h k' s')
  then have "s' = snd (call_hook (lhd_ops K) h (sys_kernel w, sys_lhd w))" by simp
  then show ?thesis using hook(1) assms(3) hook_shift [OF assms(1)] by simp
next
  case (event r ret n')
  then show ?thesis using assms(3)
    by (auto simp: take_event_def Let_def adapt_shift optimal_coarsening_def split: if_splits)
qed (use assms(3) in simp)

text \<open>The event of reconfiguration 4 waits while the counter already says 5.\<close>

definition demo_late :: "list_kernel lhd_system" where
  "demo_late = lhd_attached demo_kernel (demo_lhd\<lparr>num_reconfigurations := 5, lhd_events := [4]\<rparr>)"

end
