(* ===== verification/Watch_System.thy ===== *)
theory Watch_System
  imports Loaders Fifo Mru Sampling Get_Scan Net S3fifo Mglru Lhd Evolved_Lfu Evolved_Sched Evolved_Sampling
    Evolved_Split Evolved_Gens
begin

text \<open>
  The directory watcher across its three parts: the loader (\<open>policies/dir_watcher.h\<close>) enters
  the inodes it finds below the watch roots, the probe on \<open>vfs_open\<close>
  (\<open>policies/dir_watcher.bpf.h\<close>) classifies the files opened later, and every policy tests
  the folios the kernel reports. Shown: no hook of any policy changes the watchlist; over
  every run of hooks and opened files a file's tag is that of its latest classified open, or
  the one the loader gave it; FIFO tracks exactly the pages of the files so tagged.
\<close>

section \<open>Runs of hooks and opened files\<close>

datatype watch_event = Hook hook | Opened s32 "u64 \<Rightarrow> dentry" u64

fun watch_step :: "('k, 'a watch_state_scheme) cache_ext_ops \<Rightarrow> watch_event \<Rightarrow> 'k \<times> 'a watch_state_scheme \<Rightarrow>
    'k \<times> 'a watch_state_scheme" where
  "watch_step ops (Hook h) w = call_hook ops h w"
| "watch_step ops (Opened err dm d) w = (fst w, vfs_open_enter err dm d (snd w))"

definition watch_run :: "('k, 'a watch_state_scheme) cache_ext_ops \<Rightarrow> watch_event list \<Rightarrow> 'k \<times> 'a watch_state_scheme \<Rightarrow>
    'k \<times> 'a watch_state_scheme" where
  "watch_run ops evs w = fold (watch_step ops) evs w"

section \<open>The specification\<close>

text \<open>
  The abstract state is the tag of each inode. An opened file gets the tag of the nearest
  watch root above it, if there is one among its first 64 ancestors; a store the kernel
  refuses leaves it untagged.
\<close>

definition open_tag :: "watch_state \<Rightarrow> (u64 \<Rightarrow> dentry) \<Rightarrow> u64 \<Rightarrow> u32" where
  "open_tag ws dm d = (if watch_root_ino_1 ws = 0 \<or> d = 0 then 0 else first_root_tag ws (ancestor_inos dm 64 d))"

fun spec_step :: "watch_state \<Rightarrow> watch_event \<Rightarrow> (u64 \<Rightarrow> u32) \<Rightarrow> (u64 \<Rightarrow> u32)" where
  "spec_step ws (Hook h) tags = tags"
| "spec_step ws (Opened err dm d) tags =
     (case d_inode (dm d) of
        None \<Rightarrow> tags
      | Some ino \<Rightarrow> if open_tag ws dm d = 0 then tags
                     else tags(ino := if err = 0 then open_tag ws dm d else 0))"

definition spec_run :: "watch_state \<Rightarrow> watch_event list \<Rightarrow> (u64 \<Rightarrow> u32) \<Rightarrow> (u64 \<Rightarrow> u32)" where
  "spec_run ws evs tags = fold (spec_step ws) evs tags"

text \<open>The watch state of a policy, without the policy's own data.\<close>

abbreviation watch_of :: "'a watch_state_scheme \<Rightarrow> watch_state" where
  "watch_of \<equiv> watch_state.truncate"

lemmas watch_of_def = watch_state.truncate_def

definition same_roots :: "watch_state \<Rightarrow> watch_state \<Rightarrow> bool" where
  "same_roots ws ws' \<longleftrightarrow> ws\<lparr>inode_watchlist := []\<rparr> = ws'\<lparr>inode_watchlist := []\<rparr>"

lemma open_tag_eq:
  assumes "same_roots ws (watch_of s)"
  shows "client_tag_from_watch_roots s dm d = open_tag ws dm d"
proof -
  have "root_tag s = root_tag ws"
    using assms by (cases ws) (auto simp: root_tag_def same_roots_def watch_of_def fun_eq_iff)
  moreover have "watch_root_ino_1 s = watch_root_ino_1 ws"
    using assms by (cases ws) (simp add: same_roots_def watch_of_def)
  ultimately show ?thesis
    by (simp add: client_tag_from_watch_roots_def walk_roots_spec open_tag_def first_root_tag_def
        del: walk_roots.simps ancestor_inos.simps)
qed

text \<open>One opened file against the specification, while the map has room.\<close>

definition watch_inv :: "watch_state \<Rightarrow> nat \<Rightarrow> 'a watch_state_scheme \<Rightarrow> bool" where
  "watch_inv ws n s \<longleftrightarrow> same_roots ws (watch_of s) \<and> hmap_ok watch_cap (inode_watchlist s)
     \<and> length (inode_watchlist s) + n \<le> watch_cap"

lemma opened_step:
  assumes "watch_inv ws (Suc n) s" "inode_get_client_tag s = tags"
  shows "watch_inv ws n (vfs_open_enter err dm d s)
    \<and> inode_get_client_tag (vfs_open_enter err dm d s) = spec_step ws (Opened err dm d) tags"
proof -
  have t: "client_tag_from_watch_roots s dm d = open_tag ws dm d"
    using assms(1) by (simp add: watch_inv_def open_tag_eq)
  have inv: "watch_inv ws n (vfs_open_enter err dm d s)"
    using assms(1) vfs_open_enter_length [of err dm d s]
    by (auto simp: watch_inv_def same_roots_def watch_of_def vfs_open_enter_ok)
  moreover have "inode_get_client_tag (vfs_open_enter err dm d s) = spec_step ws (Opened err dm d) tags"
  proof (cases "open_tag ws dm d = 0 \<or> d_inode (dm d) = None")
    case True
    then have "vfs_open_enter err dm d s = s"
      using t by (auto simp: vfs_open_enter_def Let_def)
    then show ?thesis using True assms(2) by (auto split: option.split)
  next
    case False
    then obtain ino where ino: "d_inode (dm d) = Some ino" by auto
    have "length (inode_watchlist s) < watch_cap \<or> map_of (inode_watchlist s) ino \<noteq> None"
      using assms(1) by (simp add: watch_inv_def)
    from vfs_open_tags [OF t _ ino _ this] show ?thesis
      using False assms ino by (auto simp: watch_inv_def)
  qed
  ultimately show ?thesis by blast
qed

section \<open>Policies that leave the watchlist alone\<close>

locale watching =
  fixes ops :: "('k, 'a watch_state_scheme) kfuncs \<Rightarrow> ('k, 'a watch_state_scheme) cache_ext_ops"
  assumes frame: "kernel_ok K \<Longrightarrow> watch_of (snd (call_hook (ops K) h (k, s))) = watch_of s"
begin

lemma hook_tags:
  assumes "kernel_ok K"
  shows "inode_get_client_tag (snd (call_hook (ops K) h w)) = inode_get_client_tag (snd w)"
    "watch_inv ws n (snd (call_hook (ops K) h w)) = watch_inv ws n (snd w)"
proof -
  have e: "watch_of (snd (call_hook (ops K) h w)) = watch_of (snd w)"
    using frame [OF assms, of h "fst w" "snd w"] by simp
  then have i: "inode_watchlist (snd (call_hook (ops K) h w)) = inode_watchlist (snd w)"
    by (simp add: watch_of_def)
  show "inode_get_client_tag (snd (call_hook (ops K) h w)) = inode_get_client_tag (snd w)"
    by (simp add: fun_eq_iff inode_get_client_tag_eq i)
  show "watch_inv ws n (snd (call_hook (ops K) h w)) = watch_inv ws n (snd w)"
    by (simp add: watch_inv_def e i)
qed

lemma run_tags:
  assumes "kernel_ok K" "watch_inv ws (length evs) (snd w)"
  shows "inode_get_client_tag (snd (watch_run (ops K) evs w)) = spec_run ws evs (inode_get_client_tag (snd w))"
  using assms(2) unfolding watch_run_def spec_run_def
proof (induction evs arbitrary: w)
  case (Cons ev evs)
  have "watch_inv ws (length evs) (snd (watch_step (ops K) ev w))
    \<and> inode_get_client_tag (snd (watch_step (ops K) ev w)) = spec_step ws ev (inode_get_client_tag (snd w))"
  proof (cases ev)
    case (Hook h)
    then show ?thesis using Cons.prems hook_tags [OF assms(1)] by (simp add: watch_inv_def)
  next
    case (Opened err dm d)
    then show ?thesis using opened_step [of ws "length evs" "snd w"] Cons.prems by simp
  qed
  then show ?case using Cons.IH by simp
qed simp

end

section \<open>Every policy does\<close>

lemma watch_iterate:
  assumes "kernel_ok K" "\<And>k i f t. watch_of (snd (cb k i f t)) = watch_of t"
  shows "watch_of (snd (snd (snd (kf_list_iterate K m l cb c k s)))) = watch_of s"
  using assms(1) by (rule iterate_inv [where P = "\<lambda>t. watch_of t = watch_of s"]) (simp_all add: assms(2))

lemma watch_iterate_extended:
  assumes "kernel_ok K" "\<And>k i f t. watch_of (snd (cb k i f t)) = watch_of t"
  shows "watch_of (snd (snd (snd (snd (kf_list_iterate_extended K m l cb opts c k s))))) = watch_of s"
  using assms(1) by (rule iterate_extended_inv [where P = "\<lambda>t. watch_of t = watch_of s"]) (simp_all add: assms(2))

lemma watch_sample:
  assumes "kernel_ok K" "\<And>k f t. watch_of (snd (sc k f t)) = watch_of t"
  shows "watch_of (snd (snd (snd (kf_list_sample K m l sc opts c k s)))) = watch_of s"
  using assms(1) by (rule sample_inv [where P = "\<lambda>t. watch_of t = watch_of s"]) (simp_all add: assms(2))

named_theorems watch_frames

lemma fifo_watch [watch_frames]: "watch_of (s\<lparr>eviction_count := n\<rparr>) = watch_of s"
  by (simp add: watch_of_def)

interpretation fifo_w: watching fifo_ops
proof (unfold_locales, goal_cases)
  case (1 K h k s)
  have cb: "watch_of (snd (bpf_fifo_evict_cb k i f t)) = watch_of t" for k :: 'a and i f t
    by (simp add: fifo_cb_eq watch_frames)
  show ?case
    by (cases h) (simp_all add: fifo_ops_def fifo_folio_added_def fifo_folio_evicted_def fifo_evict_folios_def
        split_def Let_def watch_iterate [OF 1 cb])
qed

interpretation mru_w: watching mru_ops
proof (unfold_locales, goal_cases)
  case (1 K h k s)
  have "snd (snd (mru_evict_folios K c m k s)) = s" for c m using mru_evict_spec [OF 1, of c m k s] by auto
  then show ?case
    by (cases h) (simp_all add: mru_ops_def mru_folio_added_def mru_folio_accessed_def mru_folio_evicted_def split_def Let_def)
qed

lemma sampling_watch [watch_frames]: "watch_of (s\<lparr>sampling_meta := m\<rparr>) = watch_of s"
  by (simp add: watch_of_def)

interpretation sampling_w: watching sampling_ops
proof (unfold_locales, goal_cases)
  case (1 K h k s)
  show ?case
    by (cases h) (simp_all add: sampling_ops_def sampling_folio_added_def sampling_folio_accessed_def
        sampling_folio_evicted_def sampling_evict_state [OF 1] split_def Let_def watch_frames split: option.split)
qed

interpretation baseline_w: watching baseline_ops
proof (unfold_locales, goal_cases)
  case (1 K h k s)
  show ?case
    by (cases h) (simp_all add: baseline_ops_def baseline_folio_added_def baseline_folio_accessed_def
        baseline_folio_evicted_def baseline_evict_state [OF 1] split_def Let_def watch_frames split: option.split)
qed

lemma mixed_watch [watch_frames]:
  "watch_of (s\<lparr>mixed_meta := m\<rparr>) = watch_of s" "watch_of (s\<lparr>scan_pages := n\<rparr>) = watch_of s"
  by (simp_all add: watch_of_def)

interpretation mixed_w: watching mixed_ops
proof (unfold_locales, goal_cases)
  case (1 K h k s)
  show ?case
    by (cases h) (simp_all add: mixed_ops_def mixed_folio_added_def mixed_folio_accessed_def
        mixed_folio_evicted_def mixed_evict_state [OF 1] split_def Let_def watch_frames split: option.split)
qed

lemma net_watch [watch_frames]:
  "watch_of (bump_counter i s) = watch_of s" "watch_of (bump_error K k r s) = watch_of s"
  "watch_of (s\<lparr>net_meta := m\<rparr>) = watch_of s"
  by (simp_all add: watch_of_def bump_counter_def bump_error_def split: option.split)

interpretation net_w: watching net_ops
proof (unfold_locales, goal_cases)
  case (1 K h k s)
  have cb: "watch_of (snd (bpf_net_evict_cb K k i f t)) = watch_of t" for k i f t
    by (simp add: bpf_net_evict_cb_def Let_def split: option.split)
  show ?case
    by (cases h) (simp_all add: net_ops_def net_folio_added_def net_folio_accessed_def
        net_folio_evicted_def net_evict_folios_def split_def Let_def watch_frames watch_iterate [OF 1 cb] split: option.split)
qed

lemma lhd_watch [watch_frames]:
  "watch_of (snd (get_age d s)) = watch_of s" "watch_of (count_request K k s) = watch_of s"
  "watch_of (class_hit i a s) = watch_of s" "watch_of (class_eviction i a s) = watch_of s"
  "watch_of (s\<lparr>lhd_meta := m\<rparr>) = watch_of s" "watch_of (s\<lparr>lhd_timestamp := t\<rparr>) = watch_of s"
  "watch_of (s\<lparr>num_objects := n\<rparr>) = watch_of s" "watch_of (s\<lparr>ewma_victim_hit_density := n\<rparr>) = watch_of s"
  by (simp_all add: watch_of_def get_age_def count_request_def class_hit_def class_eviction_def Let_def)

interpretation lhd_w: watching lhd_ops
proof (unfold_locales, goal_cases)
  case (1 K h k s)
  have sc: "watch_of (snd (bpf_lhd_score_fn k f t)) = watch_of t" for k :: 'a and f t
    by (simp add: lhd_score_eq get_hit_density_def watch_frames split_def Let_def split: option.split)
  show ?case
    by (cases h) (simp_all add: lhd_ops_def lhd_folio_added_def lhd_folio_accessed_def
        lhd_folio_evicted_def lhd_evict_folios_def split_def Let_def watch_frames watch_sample [OF 1 sc] split: option.split)
qed

lemma s3fifo_watch [watch_frames]:
  "watch_of (set_folio_metadata f g s) = watch_of s" "watch_of (s\<lparr>s3_meta := m\<rparr>) = watch_of s"
  "watch_of (s\<lparr>s3_ghost := g'\<rparr>) = watch_of s" "watch_of (s\<lparr>small_list_size := n\<rparr>) = watch_of s"
  "watch_of (s\<lparr>main_list_size := n\<rparr>) = watch_of s"
  by (simp_all add: watch_of_def set_folio_metadata_def)

interpretation s3fifo_w: watching s3fifo_ops
proof (unfold_locales, goal_cases)
  case (1 K h k s)
  have main: "watch_of (snd (main_iter_fn n k i f t)) = watch_of t" for n and k :: 'a and i f t
    by (simp add: main_iter_fn_def Let_def watch_frames split: option.split)
  have small: "watch_of (snd (bpf_s3fifo_score_small_fn k i f t)) = watch_of t" for k :: 'a and i f t
    by (simp add: bpf_s3fifo_score_small_fn_def watch_frames split: option.split)
  have "watch_of (snd (snd (evict_main_iter K c m k s))) = watch_of s" for c m
    by (simp add: evict_main_iter_def split_def Let_def watch_iterate_extended [OF 1 main])
  moreover have "watch_of (snd (snd (evict_small K c m k s))) = watch_of s" for c m
    by (simp add: evict_small_def split_def Let_def watch_frames watch_iterate_extended [OF 1 small])
  ultimately show ?case
    by (cases h) (simp_all add: s3fifo_ops_def s3fifo_folio_added_def s3fifo_folio_accessed_def folio_in_ghost_def
        s3fifo_folio_evicted_def s3fifo_evict_folios_def split_def Let_def watch_frames split: option.split)
qed

lemma initial_watch [watch_frames]:
  "watch_of (initial_bump_counter i s) = watch_of s" "watch_of (initial_store K k f v s) = watch_of s"
  "watch_of (s\<lparr>initial_meta := m\<rparr>) = watch_of s"
  by (simp_all add: watch_of_def initial_bump_counter_def initial_store_def)

interpretation initial_w: watching initial_ops
proof (unfold_locales, goal_cases)
  case (1 K h k s)
  have sc: "watch_of (snd (initial_score_fn k f t)) = watch_of t" for k :: 'a and f t
    by (simp add: initial_score_fn_def Let_def split: option.split)
  show ?case
    by (cases h) (simp_all add: initial_ops_def initial_folio_added_def initial_folio_accessed_def
        initial_folio_evicted_def initial_evict_folios_def split_def Let_def watch_frames watch_sample [OF 1 sc]
        split: option.split)
qed

lemma sched_watch [watch_frames]:
  "watch_of (sched_bump_counter i s) = watch_of s" "watch_of (sched_store K k f v s) = watch_of s"
  "watch_of (s\<lparr>sched_meta := m\<rparr>) = watch_of s"
  by (simp_all add: watch_of_def sched_bump_counter_def sched_store_def)

interpretation sched_w: watching "sched_ops T" for T
proof (unfold_locales, goal_cases)
  case (1 K h k s)
  have cb: "watch_of (snd (sched_evict_cb K k i f t)) = watch_of t" for k i f t
    by (simp add: sched_evict_cb_def Let_def split: option.split)
  show ?case
    by (cases h) (simp_all add: sched_ops_def sched_folio_added_def sched_folio_accessed_def
        sched_folio_evicted_def sched_evict_folios_def split_def Let_def watch_frames watch_iterate [OF 1 cb]
        split: option.split)
qed

lemma split_watch [watch_frames]:
  "watch_of (split_bump_counter i s) = watch_of s" "watch_of (split_store K k f v s) = watch_of s"
  "watch_of (s\<lparr>split_meta := m\<rparr>) = watch_of s" "watch_of (feed_client_tag L G E t s) = watch_of s"
  by (simp_all add: watch_of_def split_bump_counter_def split_store_def feed_client_tag_def
      vulcan_tag_update_feature_def Let_def)

interpretation split_w: watching "split_ops L G E" for L G E
proof (unfold_locales, goal_cases)
  case (1 K h k s)
  show ?case
    by (cases h) (simp_all add: split_ops_def split_folio_added_def split_folio_accessed_def
        split_folio_evicted_def split_evict_state [OF 1] split_def Let_def watch_frames split: option.split)
qed

lemma vulcan_watch [watch_frames]:
  "watch_of (vulcan_bump_counter i s) = watch_of s" "watch_of (vulcan_store K k f v s) = watch_of s"
  "watch_of (s\<lparr>vk_meta := m\<rparr>) = watch_of s"
  by (simp_all add: watch_of_def vulcan_bump_counter_def vulcan_store_def)

text \<open>The hooks of the single-client policies are shared, so the proof needs only that the score leaves the watchlist alone.\<close>

lemma vulcan_hooks_watch:
  assumes "kernel_ok K" "\<And>k f t. watch_of (snd (sc K k f t)) = watch_of t"
  shows "watch_of (snd (call_hook (vulcan_ops L G sc K) h (k, s))) = watch_of s"
  by (cases h) (simp_all add: vulcan_ops_def vulcan_folio_added_def vulcan_folio_accessed_def
      vulcan_folio_evicted_def vulcan_evict_frame [where F = watch_of, OF assms] split_def Let_def watch_frames split: option.split)

interpretation seed_w: watching "vulcan_ops L G (seed_score_fn L)" for L G
  by unfold_locales (simp add: vulcan_hooks_watch evolved_scores_pure)

interpretation best1_w: watching "vulcan_ops L (best1_config L) (best1_score_fn L)" for L
  by unfold_locales (simp add: vulcan_hooks_watch evolved_scores_pure)

interpretation best2_w: watching "vulcan_ops L (best2_config L) (best2_score_fn L)" for L
  by unfold_locales (simp add: vulcan_hooks_watch evolved_scores_pure)

lemma candidates_watch [watch_frames]:
  "watch_of (snd (gen23_score_fn L K23 k f s23)) = watch_of s23" "watch_of (snd (gen66_score_fn L K66 k f s66)) = watch_of s66"
  "watch_of (snd (gen56_score_fn L K k f s)) = watch_of s" "watch_of (snd (gen39_score_fn L K k f s)) = watch_of s"
  by (simp_all add: watch_of_def gen23_score_fn_def gen66_score_fn_def gen56_score_fn_def gen39_score_fn_def
      split_def Let_def split: option.split)

interpretation gen23_w: watching "vulcan_ops L (gen23_config L) (gen23_score_fn L)" for L
  by unfold_locales (simp add: vulcan_hooks_watch watch_frames)

interpretation gen66_w: watching "vulcan_ops L (gen66_config L) (gen66_score_fn L)" for L
  by unfold_locales (simp add: vulcan_hooks_watch watch_frames)

interpretation gen56_w: watching "vulcan_ops L (gen56_config L) (gen56_score_fn L)" for L
  by unfold_locales (simp add: vulcan_hooks_watch watch_frames)

interpretation gen39_w: watching "vulcan_ops L (gen39_config L) (gen39_score_fn L)" for L
  by unfold_locales (simp add: vulcan_hooks_watch watch_frames)

lemma mglru_watch [watch_frames]:
  "watch_of (s\<lparr>lrugen := lr\<rparr>) = watch_of s" "watch_of (s\<lparr>mg_meta := m\<rparr>) = watch_of s"
  "watch_of (s\<lparr>mglru_percpu := p\<rparr>) = watch_of s" "watch_of (s\<lparr>mg_ghost := g\<rparr>) = watch_of s"
  by (simp_all add: watch_of_def)

lemma mglru_calls_watch [watch_frames]:
  "watch_of (mglru_promote f s) = watch_of s" "watch_of (folio_inc_refs f s) = watch_of s"
  "watch_of (insert_ghost_entry_for_folio K k f t s) = watch_of s"
  "watch_of (snd (mg_folio_in_ghost f s)) = watch_of s"
  by (simp_all add: mglru_promote_def folio_inc_refs_def insert_ghost_entry_for_folio_def mg_folio_in_ghost_def
      Let_def split_def watch_of_def split: option.split)

interpretation mglru_w: watching mglru_ops
proof (unfold_locales, goal_cases)
  case (1 K h k s)
  have cb: "watch_of (snd (mglru_iter_fn k i f t)) = watch_of t" for k :: 'a and i f t
    by (simp add: mglru_iter_fn_def Let_def watch_frames split: option.split)
  have scan: "watch_of (snd (snd (snd (mglru_scan_oldest K c m k s)))) = watch_of s" for c m k s
    by (simp add: mglru_scan_oldest_def split_def Let_def watch_iterate_extended [OF 1 cb])
  have added: "watch_of (snd (snd (lru_gen_add_folio K f k s))) = watch_of s" for f
    by (simp add: lru_gen_add_folio_def split_def Let_def watch_frames)
  show ?case
    by (cases h) (simp_all add: mglru_ops_def mglru_folio_added_def mglru_folio_accessed_def mglru_folio_evicted_def
        mglru_evict_folios_def split_def Let_def watch_frames scan added split: option.split)
qed

section \<open>From the command line to the list\<close>

lemma init_watch_ok:
  assumes "cache_ext_init_inode_watch_map fs path1 path2 dual recursive empty_walk = Some (ret, w)"
  shows "hmap_ok watch_cap (ws_map w)"
proof -
  have walk: "initialize_watch_dir_map_tagged fs p r t s = Some (ret', s') \<Longrightarrow> hmap_ok watch_cap (ws_map s) \<Longrightarrow>
      hmap_ok watch_cap (ws_map s')" for p r t s ret' s'
    by (simp add: initialize_watch_dir_map_tagged_def watch_walk_ok(1))
  have "hmap_ok watch_cap (ws_map empty_walk)" by (simp add: empty_walk_def hmap_ok_def)
  then show ?thesis
    using assms by (auto simp: cache_ext_init_inode_watch_map_def initialize_dual_watch_dir_maps_def
        initialize_watch_dir_map_def split: if_splits option.splits dest!: walk)
qed

lemma rodata_ok:
  "cache_ext_init_inode_watch_map fs path1 path2 dual recursive empty_walk = Some (ret, w) \<Longrightarrow>
   hmap_ok watch_cap (inode_watchlist (rodata ino1 ino2 dual' (ws_map w)))"
  by (simp add: rodata_def set_watch_root_inos_def init_watch_ok)

lemma loaders_ok:
  assumes "(main, recursive) \<in> set loaders"
  shows "attaches (\<lambda>ws. hmap_ok watch_cap (inode_watchlist ws)) (main env)"
  using assms
  by (auto simp: loaders_def loader_mains Let_def split_def attaches_rules rodata_ok
      intro!: attaches_setup attaches_fill split: option.split)

text \<open>FIFO as it is attached: the loader's watch state and no data of its own.\<close>

definition fifo_boot :: "watch_state \<Rightarrow> fifo_state" where
  "fifo_boot ws = watch_state.extend ws (fifo_state.fields 0 0)"

lemma fifo_boot_watch:
  assumes "fifo_init K memcg k (fifo_boot ws) = (0, k1, s1)"
  shows "watch_of s1 = ws" "inode_watchlist s1 = inode_watchlist ws"
  using assms by (cases ws; auto simp: fifo_init_def fifo_boot_def Let_def split_def watch_of_def watch_state.defs
      fifo_state.defs split: if_splits)+

text \<open>
  C4: the whole way of a page under FIFO. The loader attaches the policy with the watch state
  it computed from the command line and the file system; the kernel initialises it; hooks
  and opened files follow in any order, as long as the map has room. Then a page reported as
  added is put at the tail of the list exactly when its file has a tag by the specification:
  the tag of its latest classified open or, without one, the tag of the root it was listed
  under when the loader ran. No other page enters the list.
\<close>

theorem fifo_tracks_watched_files:
  assumes "kernel_ok K" "fifo_main env = Some (ret, log)" "Attach_ops ws \<in> set log"
    and "fifo_init K memcg k0 (fifo_boot ws) = (0, k1, s1)"
    and "length (inode_watchlist ws) + length evs \<le> watch_cap"
    and "(k, s) = watch_run (fifo_ops K) evs (k1, s1)"
  shows "starts_ok env True ws
    \<and> call_hook (fifo_ops K) (Folio_Added f) (k, s) =
        (if \<exists>i. folio_host f = Some i \<and> spec_run ws evs (inode_get_client_tag ws) (i_ino i) \<noteq> 0
         then (snd (kf_list_add_tail K (fifo_main_list s) f k), s) else (k, s))"
proof -
  have "attaches (starts_ok env True) (fifo_main env)" by (rule loader_attaches(1))
  then have start: "starts_ok env True ws" using assms(2,3) by (auto simp: attaches_def)
  have "attaches (\<lambda>ws. hmap_ok watch_cap (inode_watchlist ws)) (fifo_main env)"
    by (rule loaders_ok [of _ True]) (simp add: loaders_def)
  then have "hmap_ok watch_cap (inode_watchlist ws)" using assms(2,3) by (auto simp: attaches_def)
  then have inv: "watch_inv ws (length evs) s1"
    using fifo_boot_watch [OF assms(4)] assms(5) by (simp add: watch_inv_def same_roots_def)
  have tags: "inode_get_client_tag s = spec_run ws evs (inode_get_client_tag ws)"
  proof -
    have "inode_get_client_tag s1 = inode_get_client_tag ws"
      using fifo_boot_watch(2) [OF assms(4)] by (simp add: fun_eq_iff inode_get_client_tag_eq)
    then show ?thesis
      using fifo_w.run_tags [OF assms(1), of ws evs "(k1, s1)"] inv by (simp flip: assms(6))
  qed
  have "relevant s f \<longleftrightarrow> (\<exists>i. folio_host f = Some i \<and> spec_run ws evs (inode_get_client_tag ws) (i_ino i) \<noteq> 0)"
    by (simp add: relevant_def inode_in_watchlist_def tags)
  then show ?thesis
    using start by (auto simp: fifo_ops_def fifo_folio_added_def split_def Let_def)
qed

definition demo_start :: watch_state where
  "demo_start = rodata 7 0 False [(10, 1), (12, 1), (11, 1)]"

lemma demo_fifo_main: "\<exists>log. fifo_main demo_env = Some (0, log) \<and> Attach_ops demo_start \<in> set log"
  by (simp add: fifo_main_def demo_run demo_env_def demo_start_def)

lemma demo_ancestors: "ancestor_inos demo_dentries 64 16 = [42, 7]"
proof -
  have "(64::nat) = Suc (Suc 62)" by simp
  then show ?thesis by (simp only: ancestor_inos.simps) (simp add: demo_dentries_def)
qed

lemma demo_open_tag: "open_tag demo_start demo_dentries 16 = 1"
  by (simp add: open_tag_def demo_ancestors first_root_tag_def root_tag_def demo_start_def rodata_def
      set_watch_root_inos_def List.map_filter_def)

text \<open>
  The file with inode 42 is created below the watched directory after the loader ran: it is
  opened, and its page is tracked.
\<close>

theorem fifo_tracks_watched_files_witness:
  "\<exists>k1 s1. fifo_init list_kfuncs 0 demo_kernel (fifo_boot demo_start) = (0, k1, s1)
    \<and> (let (k, s) = watch_run (fifo_ops list_kfuncs) [Opened 0 demo_dentries 16] (k1, s1)
       in call_hook (fifo_ops list_kfuncs) (Folio_Added (clean_folio 3)) (k, s) =
            (snd (kf_list_add_tail (list_kfuncs :: (list_kernel, fifo_state) kfuncs) (fifo_main_list s) (clean_folio 3) k), s))"
proof -
  obtain log where l: "fifo_main demo_env = Some (0, log)" "Attach_ops demo_start \<in> set log"
    using demo_fifo_main by blast
  obtain k1 s1 where i: "fifo_init list_kfuncs 0 demo_kernel (fifo_boot demo_start) = (0, k1, s1)"
    by (simp add: fifo_init_def list_kernel_simps demo_kernel_def Let_def)
  let ?evs = "[Opened 0 demo_dentries 16]"
  obtain k s where r: "watch_run (fifo_ops list_kfuncs) ?evs (k1, s1) = (k, s)" by force
  have tag: "spec_run demo_start ?evs g 42 = 1" for g
    by (simp add: spec_run_def demo_open_tag) (simp add: demo_dentries_def demo_open_tag)
  have len: "length (inode_watchlist demo_start) + length ?evs \<le> watch_cap"
    by (simp add: demo_start_def rodata_def set_watch_root_inos_def watch_cap_def)
  from fifo_tracks_watched_files [OF list_kernel_ok l i len r [symmetric], of "clean_folio 3"] i r
  show ?thesis by (intro exI [of _ k1] exI [of _ s1]) (simp add: tag)
qed

section \<open>No policy changes the watchlist\<close>

text \<open>
  Whatever the kernel reports, no hook of any of the fifteen policies changes the
  watchlist, the watch roots or the client tags: only the loader and the probe on
  \<open>vfs_open\<close> do.
\<close>

lemma policies_keep_watchlist:
  assumes "kernel_ok K1" "kernel_ok K2" "kernel_ok K3" "kernel_ok K4" "kernel_ok K5" "kernel_ok K6"
    "kernel_ok K7" "kernel_ok K8" "kernel_ok K9" "kernel_ok K10" "kernel_ok K11" "kernel_ok K12"
  shows "watch_of (snd (call_hook (fifo_ops K1) h (k, s1))) = watch_of s1
    \<and> watch_of (snd (call_hook (mru_ops K2) h (k, s2))) = watch_of s2
    \<and> watch_of (snd (call_hook (sampling_ops K3) h (k, s3))) = watch_of s3
    \<and> watch_of (snd (call_hook (baseline_ops K3) h (k, s3))) = watch_of s3
    \<and> watch_of (snd (call_hook (mixed_ops K4) h (k, s4))) = watch_of s4
    \<and> watch_of (snd (call_hook (net_ops K5) h (k, s5))) = watch_of s5
    \<and> watch_of (snd (call_hook (s3fifo_ops K6) h (k, s6))) = watch_of s6
    \<and> watch_of (snd (call_hook (mglru_ops K7) h (k, s7))) = watch_of s7
    \<and> watch_of (snd (call_hook (lhd_ops K8) h (k, s8))) = watch_of s8
    \<and> watch_of (snd (call_hook (initial_ops K9) h (k, s9))) = watch_of s9
    \<and> watch_of (snd (call_hook (sched_ops T K10) h (k, s10))) = watch_of s10
    \<and> watch_of (snd (call_hook (split_ops L G E K11) h (k, s11))) = watch_of s11
    \<and> watch_of (snd (call_hook (vulcan_ops M vulcan_seed_config (seed_score_fn M) K12) h (k, s12))) = watch_of s12
    \<and> watch_of (snd (call_hook (vulcan_ops M (best1_config M) (best1_score_fn M) K12) h (k, s12))) = watch_of s12
    \<and> watch_of (snd (call_hook (vulcan_ops M (best2_config M) (best2_score_fn M) K12) h (k, s12))) = watch_of s12"
  using assms
  by (simp add: fifo_w.frame mru_w.frame sampling_w.frame baseline_w.frame mixed_w.frame net_w.frame s3fifo_w.frame
      mglru_w.frame lhd_w.frame initial_w.frame sched_w.frame split_w.frame
      seed_w.frame best1_w.frame best2_w.frame)

end
