(* ===== verification/Interleaving.thy ===== *)
theory Interleaving
  imports "HOL-Library.Multiset" BPF_Prelude
begin

text \<open>
  Hooks of one policy run at the same time on several CPUs and share its maps and globals.
  Here an invocation of a hook is a thread: a place in the hook's body and what it holds in
  local variables. A step takes one thread from one access of the shared memory to its next;
  which thread runs is arbitrary. The threads of a run form a multiset, so an invariant may
  count those at a place. Invocations that start later wait at the hook's entry.
\<close>

section \<open>Steps and runs\<close>

inductive thread_step :: "('p \<Rightarrow> 'm \<Rightarrow> 'p \<times> 'm) \<Rightarrow> 'p multiset \<times> 'm \<Rightarrow> 'p multiset \<times> 'm \<Rightarrow> bool"
  for step where
  Run: "step p m = (p', m') \<Longrightarrow> thread_step step (add_mset p R, m) (add_mset p' R, m')"

inductive_cases thread_stepE: "thread_step step (T, m) (T', m')"

abbreviation interleave :: "('p \<Rightarrow> 'm \<Rightarrow> 'p \<times> 'm) \<Rightarrow> 'p multiset \<times> 'm \<Rightarrow> 'p multiset \<times> 'm \<Rightarrow> bool" where
  "interleave step \<equiv> (thread_step step)\<^sup>*\<^sup>*"

lemma interleave_size: "interleave step S S' \<Longrightarrow> size (fst S') = size (fst S)"
  by (induction rule: rtranclp_induct) (auto elim: thread_step.cases)

text \<open>What no step of a thread changes, such as the folio of the hook, stays with the threads.\<close>

lemma interleave_image:
  assumes "\<And>p m p' m'. step p m = (p', m') \<Longrightarrow> h p' = h p" "interleave step S S'"
  shows "image_mset h (fst S') = image_mset h (fst S)"
  using assms(2) by (induction rule: rtranclp_induct) (auto elim!: thread_step.cases dest: assms(1))

lemma interleave_none: "interleave step ({#}, m) S \<Longrightarrow> S = ({#}, m)"
  by (erule converse_rtranclpE) (auto elim: thread_step.cases)

text \<open>Other threads that do not run change nothing.\<close>

lemma interleave_frame:
  assumes "interleave step (T, m) (T', m')"
  shows "interleave step (T + U, m) (T' + U, m')"
  using assms
proof (induction rule: rtranclp_induct2)
  case (step T1 m1 T2 m2)
  obtain p p' R where "step p m1 = (p', m2)" "T1 = add_mset p R" "T2 = add_mset p' R"
    using step.hyps(2) by (auto elim: thread_stepE)
  then have "thread_step step (T1 + U, m1) (T2 + U, m2)"
    using Run [of step p m1 p' m2 "R + U"] by simp
  with step.IH show ?case by (rule rtranclp.rtrancl_into_rtrancl)
qed simp

lemma multiset_split:
  fixes T :: "'p multiset"
  assumes "n \<le> size T"
  shows "\<exists>U V. T = U + V \<and> size U = n"
proof -
  obtain xs where "mset xs = T" using ex_mset by blast
  with assms show ?thesis
    by (intro exI [of _ "mset (take n xs)"] exI [of _ "mset (drop n xs)"])
      (auto simp: mset_append [symmetric] simp del: mset_append)
qed

lemma funpow_const: "0 < i \<Longrightarrow> ((\<lambda>_. x) ^^ i) y = x" for x y :: 'a
  by (cases i) simp_all

text \<open>How many threads are at a place.\<close>

definition threads_at :: "('p \<Rightarrow> bool) \<Rightarrow> 'p multiset \<Rightarrow> nat" where
  "threads_at P T = size {#p \<in># T. P p#}"

lemma threads_at_empty [simp]: "threads_at P {#} = 0"
  by (simp add: threads_at_def)

lemma threads_at_add [simp]: "threads_at P (add_mset p T) = (if P p then 1 else 0) + threads_at P T"
  by (simp add: threads_at_def)

lemma threads_at_le: "threads_at P T \<le> size T"
  by (simp add: threads_at_def size_filter_mset_lesseq)

lemma threads_at_cong: "(\<And>p. p \<in># T \<Longrightarrow> P p = Q p) \<Longrightarrow> threads_at P T = threads_at Q T"
  by (induction T) auto

lemma threads_at_none: "\<forall>p \<in># T. \<not> P p \<Longrightarrow> threads_at P T = 0"
  by (induction T) auto

lemma threads_at_mono: "(\<And>p. P p \<Longrightarrow> Q p) \<Longrightarrow> threads_at P T \<le> threads_at Q T"
  by (induction T) auto

lemma threads_at_zeroD: "threads_at P T = 0 \<Longrightarrow> t \<in># T \<Longrightarrow> \<not> P t"
  by (auto simp: threads_at_def)

lemma threads_at_either:
  "(\<And>t. P t \<Longrightarrow> Q t \<or> S t) \<Longrightarrow> threads_at P T \<le> threads_at Q T + threads_at S T"
  by (induction T) (auto simp: le_SucI)

lemma threads_at_image: "threads_at (\<lambda>t. P (h t)) T = size (filter_mset P (image_mset h T))"
  by (induction T) auto

section \<open>One thread, and schedules\<close>

fun thread_alone :: "('p \<Rightarrow> 'm \<Rightarrow> 'p \<times> 'm) \<Rightarrow> nat \<Rightarrow> 'p \<times> 'm \<Rightarrow> 'p \<times> 'm" where
  "thread_alone step 0 c = c"
| "thread_alone step (Suc n) (p, m) = thread_alone step n (step p m)"

lemma thread_alone_interleaves:
  "thread_alone step n (p, m) = (p', m') \<Longrightarrow> interleave step (add_mset p R, m) (add_mset p' R, m')"
proof (induction n arbitrary: p m)
  case (Suc n)
  obtain q k where q: "step p m = (q, k)" by force
  then show ?case using Suc.IH [of q k] Suc.prems Run [of step p m q k R]
    by (auto intro: converse_rtranclp_into_rtranclp)
qed simp

text \<open>One thread after the other: \<open>Q i\<close> describes the memory, \<open>i\<close> goes to \<open>g i\<close> with every thread.\<close>

lemma interleave_each:
  assumes alone: "\<And>p m i. p \<in># T \<Longrightarrow> Q i m \<Longrightarrow> \<exists>n p' m'. thread_alone step n (p, m) = (p', m') \<and> P p' \<and> Q (g i) m'"
    and "Q i m"
  shows "\<exists>T' m'. interleave step (T, m) (T', m') \<and> (\<forall>p \<in># T'. P p) \<and> Q ((g ^^ size T) i) m'"
  using assms
proof (induction T arbitrary: m i)
  case (add p T)
  obtain n p' m1 where p: "thread_alone step n (p, m) = (p', m1)" "P p'" "Q (g i) m1"
    using add.prems by (metis union_single_eq_member)
  have "\<exists>T' m'. interleave step (T, m1) (T', m') \<and> (\<forall>p \<in># T'. P p) \<and> Q ((g ^^ size T) (g i)) m'"
    using add.prems(1) p(3) by (intro add.IH) auto
  then obtain T' m' where T: "interleave step (T, m1) (T', m')" "\<forall>p \<in># T'. P p" "Q ((g ^^ size T) (g i)) m'"
    by blast
  have "interleave step (add_mset p T, m) (add_mset p' T', m')"
    using rtranclp_trans [OF thread_alone_interleaves [OF p(1), of T]] interleave_frame [OF T(1), of "{#p'#}"] by simp
  then show ?case using p(2) T(2,3)
    by (intro exI [of _ "add_mset p' T'"] exI [of _ m']) (simp add: funpow_swap1)
next
  case empty
  then show ?case by (intro exI [of _ "{#}"] exI [of _ m]) simp
qed

text \<open>Where every thread alone comes to an end, some run ends all of them.\<close>

lemma interleave_completes:
  assumes "\<And>p m. p \<in># T \<Longrightarrow> \<exists>n p' m'. thread_alone step n (p, m) = (p', m') \<and> finished p'"
  shows "\<exists>T' m'. interleave step (T, m) (T', m') \<and> (\<forall>p \<in># T'. finished p)"
  using interleave_each [of T "\<lambda>_ _. True" step finished id undefined m] assms by auto

text \<open>A schedule names the thread that runs next; a number that names none runs none.\<close>

fun run_schedule :: "('p \<Rightarrow> 'm \<Rightarrow> 'p \<times> 'm) \<Rightarrow> nat list \<Rightarrow> 'p list \<times> 'm \<Rightarrow> 'p list \<times> 'm" where
  "run_schedule step [] c = c"
| "run_schedule step (i # is) (ps, m) =
     (if i < length ps then let (p', m') = step (ps ! i) m in run_schedule step is (ps[i := p'], m')
      else run_schedule step is (ps, m))"

lemma run_schedule_interleaves:
  "run_schedule step is (ps, m) = (ps', m') \<Longrightarrow> interleave step (mset ps, m) (mset ps', m')"
proof (induction "is" arbitrary: ps m)
  case (Cons i "is")
  show ?case
  proof (cases "i < length ps")
    case True
    obtain q k where q: "step (ps ! i) m = (q, k)" by force
    have "mset ps = add_mset (ps ! i) (mset ps - {#ps ! i#})" using True by simp
    moreover have "mset (ps[i := q]) = add_mset q (mset ps - {#ps ! i#})" using True by (simp add: mset_update)
    ultimately have "thread_step step (mset ps, m) (mset (ps[i := q]), k)"
      using Run [of step "ps ! i" m q k] q by metis
    then show ?thesis
      using Cons.IH [of "ps[i := q]" k] Cons.prems True q by (auto intro: converse_rtranclp_into_rtranclp)
  qed (use Cons in simp)
qed simp

section \<open>Invariants\<close>

text \<open>
  An invariant of the threads and the shared memory that every step of any one thread keeps,
  whatever the others are doing, holds at the end of every run.
\<close>

locale threads =
  fixes step :: "'p \<Rightarrow> 'm \<Rightarrow> 'p \<times> 'm"
    and inv :: "'p multiset \<Rightarrow> 'm \<Rightarrow> bool"
  assumes step_inv: "inv (add_mset p R) m \<Longrightarrow> step p m = (p', m') \<Longrightarrow> inv (add_mset p' R) m'"
begin

lemma interleave_inv:
  assumes "interleave step (T, m) (T', m')" "inv T m"
  shows "inv T' m'"
  using assms by (induction rule: rtranclp_induct2) (auto elim: thread_stepE intro: step_inv)

end

end
