(* ===== verification/Sampling_Threads.thy ===== *)
theory Sampling_Threads
  imports Interleaving Sampling
begin

text \<open>
  \<open>sampling_folio_accessed\<close> of \<open>policies/cache_ext_sampling.bpf.c\<close> on several CPUs at the
  same time. An update of the hash map replaces the element of a key, so a pointer a lookup
  returned may be to an element that is no longer in the map; elements are numbered by key.
  Shown: one thread alone does what the hook does; however threads are interleaved, no
  access to a tracked folio is lost; the accesses that race to create an entry can be.
\<close>

section \<open>The hook, one access of the map at a time\<close>

record sampling_mem =
  sm_state :: sampling_state
  sm_elem :: "u64 \<Rightarrow> nat"

datatype sampling_place = SA_Enter | SA_Create | SA_Lookup | SA_Add nat | SA_Done

type_synonym 'k sampling_thread = "'k \<times> folio \<times> sampling_place"

fun sampling_access_step :: "('k, sampling_state) kfuncs \<Rightarrow> 'k sampling_thread \<Rightarrow> sampling_mem \<Rightarrow>
    'k sampling_thread \<times> sampling_mem" where
  "sampling_access_step K (k, f, SA_Enter) m =
     (if \<not> sampling_is_folio_relevant (sm_state m) (Some f) then ((k, f, SA_Done), m)
      else case map_of (sampling_meta (sm_state m)) (folio_addr f) of
        None \<Rightarrow> ((k, f, SA_Create), m)
      | Some _ \<Rightarrow> ((k, f, SA_Add (sm_elem m (folio_addr f))), m))"
| "sampling_access_step K (k, f, SA_Create) m =
     (let key = folio_addr f; s = sm_state m;
          (ret, meta) = hmap_update sampling_meta_cap (kf_map_err K k key) key 0 (sampling_meta s)
      in if ret \<noteq> 0 then ((k, f, SA_Done), m)
         else ((k, f, SA_Lookup),
               \<lparr>sm_state = s\<lparr>sampling_meta := meta\<rparr>, sm_elem = (sm_elem m)(key := sm_elem m key + 1)\<rparr>))"
| "sampling_access_step K (k, f, SA_Lookup) m =
     (case map_of (sampling_meta (sm_state m)) (folio_addr f) of
        None \<Rightarrow> ((k, f, SA_Done), m)
      | Some _ \<Rightarrow> ((k, f, SA_Add (sm_elem m (folio_addr f))), m))"
| "sampling_access_step K (k, f, SA_Add e) m =
     (let key = folio_addr f; s = sm_state m
      in ((k, f, SA_Done),
          if sm_elem m key = e then m\<lparr>sm_state := s\<lparr>sampling_meta := hmap_modify key (\<lambda>a. a + 1) (sampling_meta s)\<rparr>\<rparr>
          else m))"
| "sampling_access_step K (k, f, SA_Done) m = ((k, f, SA_Done), m)"

lemma sampling_thread_alone:
  "\<exists>m'. thread_alone (sampling_access_step K) 4 ((k, f, SA_Enter), m) = ((k, f, SA_Done), m')
     \<and> sm_state m' = snd (sampling_folio_accessed K f k (sm_state m))"
  by (simp add: eval_nat_numeral sampling_folio_accessed_def Let_def hmap_update_def bpf_map_simps
      split: option.split)

lemma sampling_thread_alone_ends:
  "\<exists>n p' m'. thread_alone (sampling_access_step K) n ((k, f, SA_Enter), m) = (p', m') \<and> snd (snd p') = SA_Done"
  using sampling_thread_alone [of K k f m] by fastforce

section \<open>Tracked folios\<close>

definition accesses_of :: "u64 \<Rightarrow> 'k sampling_thread multiset \<Rightarrow> nat" where
  "accesses_of a = threads_at (\<lambda>(k, f, pl). folio_addr f = a)"

definition accesses_left :: "u64 \<Rightarrow> 'k sampling_thread multiset \<Rightarrow> nat" where
  "accesses_left a = threads_at (\<lambda>(k, f, pl). folio_addr f = a \<and> pl \<noteq> SA_Done)"

definition tracked_threads :: "'k sampling_thread multiset \<Rightarrow> sampling_mem \<Rightarrow> bool" where
  "tracked_threads T m \<longleftrightarrow> (\<forall>(k, f, pl) \<in># T. relevant (sm_state m) f
     \<and> map_of (sampling_meta (sm_state m)) (folio_addr f) \<noteq> None
     \<and> pl \<in> {SA_Enter, SA_Add (sm_elem m (folio_addr f)), SA_Done})"

lemma accesses_left_add [simp]:
  "accesses_left a (add_mset (k, f, pl) T) =
     (if folio_addr f = a \<and> pl \<noteq> SA_Done then 1 else 0) + accesses_left a T"
  by (simp add: accesses_left_def)

lemma tracked_threads_add [simp]:
  "tracked_threads (add_mset (k, f, pl) T) m \<longleftrightarrow> relevant (sm_state m) f
     \<and> map_of (sampling_meta (sm_state m)) (folio_addr f) \<noteq> None
     \<and> pl \<in> {SA_Enter, SA_Add (sm_elem m (folio_addr f)), SA_Done} \<and> tracked_threads T m"
  by (simp add: tracked_threads_def)

lemma relevant_meta [simp]: "relevant (s\<lparr>sampling_meta := x\<rparr>) f = relevant s f"
  by (simp add: relevant_def inode_in_watchlist_def inode_get_client_tag_def split: option.split)

lemma hmap_modify_None: "map_of (hmap_modify a g m) b = None \<longleftrightarrow> map_of m b = None"
  by (simp add: bpf_map_simps)

lemma tracked_threads_modify [simp]:
  "tracked_threads T (m\<lparr>sm_state := (sm_state m)\<lparr>sampling_meta := hmap_modify a g (sampling_meta (sm_state m))\<rparr>\<rparr>)
     = tracked_threads T m"
  by (simp add: tracked_threads_def hmap_modify_None)

text \<open>What the map will hold when the accesses that are left have been counted.\<close>

definition counts_due :: "(u64 \<Rightarrow> u64 option) \<Rightarrow> 'k sampling_thread multiset \<Rightarrow> sampling_mem \<Rightarrow> bool" where
  "counts_due F T m \<longleftrightarrow> tracked_threads T m
     \<and> (\<forall>a. map_option (\<lambda>n. n + of_nat (accesses_left a T)) (map_of (sampling_meta (sm_state m)) a) = F a)"

interpretation sampling_counts: threads "sampling_access_step K" "counts_due F" for K F
proof (unfold_locales, goal_cases)
  case (1 p R m p' m')
  obtain k f pl where p: "p = (k, f, pl)" by (cases p)
  show ?case
  proof (cases pl)
    case SA_Enter
    then show ?thesis using 1 by (auto simp: counts_due_def p split: option.splits)
  next
    case (SA_Add e)
    let ?meta = "sampling_meta (sm_state m)"
    have "map_option (\<lambda>n. n + of_nat (accesses_left a R)) (map_of (hmap_modify (folio_addr f) (\<lambda>n. n + 1) ?meta) a)
        = map_option (\<lambda>n. n + of_nat (accesses_left a (add_mset p R))) (map_of ?meta a)" for a
      by (simp add: p SA_Add bpf_map_simps option.map_comp comp_def ac_simps)
    then show ?thesis using 1 by (auto simp: counts_due_def p SA_Add Let_def hmap_modify_None)
  qed (use 1 in \<open>auto simp: counts_due_def p\<close>)
qed

abbreviation sampling_done :: "'k sampling_thread \<Rightarrow> bool" where
  "sampling_done t \<equiv> snd (snd t) = SA_Done"

lemma accesses_left_none: "\<forall>t \<in># T. sampling_done t \<Longrightarrow> accesses_left a T = 0"
  unfolding accesses_left_def by (rule threads_at_none) auto

text \<open>
  C5: when any number of CPUs report accesses to folios the sampling policy tracks, the map
  holds, once all hooks have returned, each folio's former count plus the number of accesses
  to it, in whatever order the hooks took their steps; no other entry has changed. Some run
  lets all hooks return.
\<close>

theorem concurrent_accesses_counted:
  assumes "\<forall>(k, f, pl) \<in># T. pl = SA_Enter \<and> relevant (sm_state m) f
      \<and> map_of (sampling_meta (sm_state m)) (folio_addr f) \<noteq> None"
  shows "(\<exists>T' m'. interleave (sampling_access_step K) (T, m) (T', m') \<and> (\<forall>t \<in># T'. sampling_done t))
    \<and> (\<forall>T' m' a. interleave (sampling_access_step K) (T, m) (T', m') \<and> (\<forall>t \<in># T'. sampling_done t) \<longrightarrow>
        map_of (sampling_meta (sm_state m')) a =
          map_option (\<lambda>n. n + of_nat (accesses_of a T)) (map_of (sampling_meta (sm_state m)) a))"
proof (intro conjI allI impI)
  show "\<exists>T' m'. interleave (sampling_access_step K) (T, m) (T', m') \<and> (\<forall>t \<in># T'. sampling_done t)"
    using assms by (intro interleave_completes) (use assms sampling_thread_alone_ends in fast)
next
  fix T' m' a
  assume run: "interleave (sampling_access_step K) (T, m) (T', m') \<and> (\<forall>t \<in># T'. sampling_done t)"
  let ?F = "\<lambda>a. map_option (\<lambda>n. n + of_nat (accesses_left a T)) (map_of (sampling_meta (sm_state m)) a)"
  have due: "accesses_left a T = accesses_of a T"
    unfolding accesses_left_def accesses_of_def using assms by (intro threads_at_cong) auto
  have "counts_due ?F T m" using assms by (auto simp: counts_due_def tracked_threads_def)
  then have "counts_due ?F T' m'" using run by (blast intro: sampling_counts.interleave_inv)
  then show "map_of (sampling_meta (sm_state m')) a =
      map_option (\<lambda>n. n + of_nat (accesses_of a T)) (map_of (sampling_meta (sm_state m)) a)"
    using run by (simp add: counts_due_def accesses_left_none due option.map_ident)
qed

text \<open>Two CPUs access page 2, counted 6 times before.\<close>

abbreviation demo_accesses :: "folio \<Rightarrow> list_kernel sampling_thread multiset" where
  "demo_accesses f \<equiv> {#(demo_kernel, f, SA_Enter), (demo_kernel, f, SA_Enter)#}"

lemma demo_sampling_tracks [simp]:
  "relevant demo_sampling (clean_folio a)" "map_of (sampling_meta demo_sampling) 2 = Some 6"
  "map_of (sampling_meta demo_sampling) 3 = None" "length (sampling_meta demo_sampling) = 1"
  by (simp_all add: demo_sampling_simps relevant_def inode_in_watchlist_def inode_get_client_tag_def)

theorem concurrent_accesses_counted_witness:
  "\<exists>T' m'. interleave (sampling_access_step list_kfuncs)
       (demo_accesses (clean_folio 2), \<lparr>sm_state = demo_sampling, sm_elem = (\<lambda>_. 0)\<rparr>) (T', m')
     \<and> map_of (sampling_meta (sm_state m')) 2 = Some 8"
  using concurrent_accesses_counted [of "demo_accesses (clean_folio 2)"
      "\<lparr>sm_state = demo_sampling, sm_elem = (\<lambda>_. 0)\<rparr>" list_kfuncs]
  by (fastforce simp: accesses_of_def)

section \<open>Accesses that race to create an entry\<close>

text \<open>All threads access the folio of address \<open>a\<close>, the kernel raises no error and the map has room.\<close>

definition racing :: "('k, sampling_state) kfuncs \<Rightarrow> u64 \<Rightarrow> 'k sampling_thread multiset \<Rightarrow> sampling_mem \<Rightarrow> bool" where
  "racing K a T m \<longleftrightarrow> (\<forall>(k, f, pl) \<in># T. folio_addr f = a \<and> relevant (sm_state m) f \<and> kf_map_err K k a = 0)
     \<and> (map_of (sampling_meta (sm_state m)) a = None \<longrightarrow> length (sampling_meta (sm_state m)) < sampling_meta_cap)"

abbreviation returned :: "'k sampling_thread multiset \<Rightarrow> nat" where
  "returned \<equiv> threads_at sampling_done"

definition will_count :: "u64 \<Rightarrow> sampling_mem \<Rightarrow> 'k sampling_thread \<Rightarrow> bool" where
  "will_count a m t \<longleftrightarrow> snd (snd t) \<in> {SA_Lookup, SA_Add (sm_elem m a)}"

text \<open>The entry never holds more than the hooks that returned; while it holds 0, some thread will count.\<close>

definition race_inv :: "('k, sampling_state) kfuncs \<Rightarrow> u64 \<Rightarrow> 'k sampling_thread multiset \<Rightarrow> sampling_mem \<Rightarrow> bool" where
  "race_inv K a T m \<longleftrightarrow> racing K a T m \<and> size T < 2 ^ 64 \<and>
     (case map_of (sampling_meta (sm_state m)) a of
        None \<Rightarrow> \<forall>t \<in># T. snd (snd t) \<in> {SA_Enter, SA_Create}
      | Some n \<Rightarrow> unat n \<le> returned T \<and> (n = 0 \<longrightarrow> (\<exists>t \<in># T. will_count a m t)))"

lemma unat_Suc_small: "unat n < 2 ^ 64 - 1 \<Longrightarrow> unat (n + 1 :: u64) = unat n + 1"
  by (simp add: unat_word_ariths)

lemma Suc_zero_max: "n + 1 = 0 \<Longrightarrow> unat (n :: u64) = 2 ^ 64 - 1"
  by (simp add: add_eq_0_iff2 unsigned_minus_1_eq_mask mask_eq_exp_minus_1)

interpretation race: threads "sampling_access_step K" "race_inv K a" for K a
proof (unfold_locales, goal_cases)
  case (1 p R m p' m')
  obtain k f pl where p: "p = (k, f, pl)" by (cases p)
  have f: "folio_addr f = a" "relevant (sm_state m) f" "kf_map_err K k a = 0"
    using 1(1) by (auto simp: race_inv_def racing_def p)
  show ?case
  proof (cases pl)
    case SA_Enter
    then show ?thesis using 1 f
      by (auto simp: race_inv_def racing_def will_count_def p split: option.splits)
  next
    case SA_Create
    then show ?thesis using 1 f
      by (auto simp: race_inv_def racing_def will_count_def p Let_def hmap_update_def bpf_map_simps split: option.splits)
  next
    case SA_Lookup
    then show ?thesis using 1 f
      by (auto simp: race_inv_def racing_def will_count_def p split: option.splits)
  next
    case (SA_Add e)
    have n: "returned R \<le> size R" "size R + 1 < 2 ^ 64" using 1(1) threads_at_le by (simp_all add: race_inv_def)
    then have nz: False if "unat n \<le> returned R" "n + 1 = 0" for n :: u64 using Suc_zero_max [OF that(2)] that(1) by simp
    show ?thesis using 1 f n
      by (auto simp: race_inv_def racing_def will_count_def p SA_Add Let_def bpf_map_simps unat_Suc_small hmap_modify_None
          dest: nz split: option.splits if_splits)
  qed (use 1 in \<open>simp add: p\<close>)
qed

text \<open>Two phases lose all accesses but one: all threads miss, then each stores its entry and counts.\<close>

definition race_memory :: "('k, sampling_state) kfuncs \<Rightarrow> u64 \<Rightarrow> folio set \<Rightarrow> u64 option \<Rightarrow> sampling_mem \<Rightarrow> bool" where
  "race_memory K a F c m \<longleftrightarrow> (\<forall>f \<in> F. folio_addr f = a \<and> relevant (sm_state m) f)
     \<and> map_of (sampling_meta (sm_state m)) a = c
     \<and> (c = None \<longrightarrow> length (sampling_meta (sm_state m)) < sampling_meta_cap)"

definition race_thread :: "('k, sampling_state) kfuncs \<Rightarrow> u64 \<Rightarrow> folio set \<Rightarrow> sampling_place \<Rightarrow> 'k sampling_thread \<Rightarrow> bool" where
  "race_thread K a F pl0 t \<longleftrightarrow> (case t of (k, f, pl) \<Rightarrow> f \<in> F \<and> kf_map_err K k a = 0 \<and> pl = pl0)"

lemma racer_misses:
  assumes "race_thread K a F SA_Enter t" "race_memory K a F None m"
  shows "\<exists>n t' m'. thread_alone (sampling_access_step K) n (t, m) = (t', m') \<and> race_thread K a F SA_Create t'
    \<and> race_memory K a F None m'"
  using assms by (intro exI [of _ 1]) (auto simp: race_thread_def race_memory_def)

lemma racer_creates:
  assumes "race_thread K a F SA_Create t" "race_memory K a F c m"
  shows "\<exists>n t' m'. thread_alone (sampling_access_step K) n (t, m) = (t', m') \<and> sampling_done t'
    \<and> race_memory K a F (Some 1) m'"
  using assms by (intro exI [of _ 3])
    (auto simp: race_thread_def race_memory_def eval_nat_numeral Let_def hmap_update_def bpf_map_simps split: option.split)

lemma racers_lose:
  assumes "T \<noteq> {#}" "\<forall>t \<in># T. race_thread K a F SA_Enter t" "race_memory K a F None m"
  shows "\<exists>T' m'. interleave (sampling_access_step K) (T, m) (T', m') \<and> (\<forall>t \<in># T'. sampling_done t)
    \<and> map_of (sampling_meta (sm_state m')) a = Some 1"
proof -
  obtain T1 m1 where 1: "interleave (sampling_access_step K) (T, m) (T1, m1)" "\<forall>t \<in># T1. race_thread K a F SA_Create t"
      "race_memory K a F None m1"
    using interleave_each [of T "\<lambda>_. race_memory K a F None" "sampling_access_step K" "race_thread K a F SA_Create" id
        undefined m] assms(2,3) racer_misses by metis
  have "\<exists>T2 m2. interleave (sampling_access_step K) (T1, m1) (T2, m2) \<and> (\<forall>t \<in># T2. sampling_done t)
      \<and> race_memory K a F (((\<lambda>_. Some 1) ^^ size T1) (None :: u64 option)) m2"
    by (rule interleave_each [where Q = "race_memory K a F" and P = sampling_done])
      (use 1(2,3) racer_creates in blast)+
  then obtain T2 m2 where 2: "interleave (sampling_access_step K) (T1, m1) (T2, m2)" "\<forall>t \<in># T2. sampling_done t"
      "race_memory K a F (((\<lambda>_. Some 1) ^^ size T1) (None :: u64 option)) m2" by blast
  have "size T1 = size T" using interleave_size [OF 1(1)] by simp
  then have "((\<lambda>_. Some 1) ^^ size T1) (None :: u64 option) = Some (1 :: u64)"
    using assms(1) by (simp add: funpow_const nonempty_has_size)
  then show ?thesis using rtranclp_trans [OF 1(1) 2(1)] 2(2,3) unfolding race_memory_def by metis
qed

text \<open>
  C36: when the first accesses to a folio that has no entry yet are reported by several CPUs,
  the entry holds between 1 and the number of accesses, and 1 is possible for any number:
  each thread that finds no entry stores one that holds 0, over what others have counted.
\<close>

theorem first_accesses_race:
  assumes "T \<noteq> {#}" "size T < 2 ^ 64" "racing K a T m" "\<forall>(k, f, pl) \<in># T. pl = SA_Enter"
    and "map_of (sampling_meta (sm_state m)) a = None"
  shows "(\<forall>T' m'. interleave (sampling_access_step K) (T, m) (T', m') \<and> (\<forall>t \<in># T'. sampling_done t) \<longrightarrow>
      (\<exists>n. map_of (sampling_meta (sm_state m')) a = Some n \<and> 1 \<le> n \<and> unat n \<le> size T))
    \<and> (\<exists>T' m'. interleave (sampling_access_step K) (T, m) (T', m') \<and> (\<forall>t \<in># T'. sampling_done t)
      \<and> map_of (sampling_meta (sm_state m')) a = Some 1)"
proof (intro conjI allI impI)
  fix T' m'
  assume run: "interleave (sampling_access_step K) (T, m) (T', m') \<and> (\<forall>t \<in># T'. sampling_done t)"
  then have size: "size T' = size T" using interleave_size by fastforce
  have "race_inv K a T m" using assms(2-5) by (auto simp: race_inv_def)
  then have "race_inv K a T' m'" using run by (blast intro: race.interleave_inv)
  moreover have "T' \<noteq> {#}" using assms(1) size by force
  moreover have "\<not> will_count a m' t" if "t \<in># T'" for t using run that by (auto simp: will_count_def)
  moreover have "\<not> (\<forall>t \<in># T'. snd (snd t) \<in> {SA_Enter, SA_Create})"
    using run \<open>T' \<noteq> {#}\<close> by (force simp: multiset_nonemptyE elim: multiset_nonemptyE)
  ultimately obtain n where "map_of (sampling_meta (sm_state m')) a = Some n" "unat n \<le> returned T'" "n \<noteq> 0"
    by (auto simp: race_inv_def split: option.splits)
  then show "\<exists>n. map_of (sampling_meta (sm_state m')) a = Some n \<and> 1 \<le> n \<and> unat n \<le> size T"
    using threads_at_le [of sampling_done T'] size by (intro exI [of _ n]) (simp add: word_le_nat_alt unat_gt_0 Suc_leI)
next
  let ?F = "(\<lambda>t. fst (snd t)) ` set_mset T"
  have "\<forall>t \<in># T. race_thread K a ?F SA_Enter t" "race_memory K a ?F None m"
    using assms(3-5) by (auto simp: race_thread_def race_memory_def racing_def intro: rev_image_eqI)
  then show "\<exists>T' m'. interleave (sampling_access_step K) (T, m) (T', m') \<and> (\<forall>t \<in># T'. sampling_done t)
      \<and> map_of (sampling_meta (sm_state m')) a = Some 1"
    by (rule racers_lose [OF assms(1)])
qed

theorem first_accesses_race_witness:
  "\<exists>T' m'. interleave (sampling_access_step list_kfuncs)
       (demo_accesses (clean_folio 3), \<lparr>sm_state = demo_sampling, sm_elem = (\<lambda>_. 0)\<rparr>) (T', m')
     \<and> map_of (sampling_meta (sm_state m')) 3 = Some 1"
  using first_accesses_race [of "demo_accesses (clean_folio 3)" list_kfuncs 3
      "\<lparr>sm_state = demo_sampling, sm_elem = (\<lambda>_. 0)\<rparr>"]
  by (auto simp: racing_def list_kfuncs_def sampling_meta_cap_def)

end
