(* ===== verification/S3fifo_Threads.thy ===== *)
theory S3fifo_Threads
  imports Interleaving S3fifo
begin

text \<open>
  The frequencies of \<open>policies/cache_ext_s3fifo.bpf.c\<close> when the hooks that report accesses and
  the callbacks of the list scans run at the same time on several CPUs. The hook adds with
  \<open>__sync_add_and_fetch\<close> and stores the cap in a second access of the memory; the scan of the
  main list subtracts with \<open>__sync_sub_and_fetch\<close>. None of them adds or removes an entry, so
  the pointer a lookup returned stays good. Shown: one thread alone does what the hook or
  the callback does; the cap is passed only by accesses still under way.
\<close>

section \<open>The hook and the callbacks, one access of the map at a time\<close>

text \<open>The callback of the main list has the threshold \<open>n\<close> of its instance of \<open>MAIN_ITER_FN\<close>.\<close>

datatype s3_place = S3_Access | S3_Add | S3_Cap | S3_Main s64 | S3_Sub s64 | S3_Small | S3_Test | S3_Mark
  | S3_Done | S3_Verdict cb_ret

type_synonym s3_thread = "folio \<times> s3_place"

definition s3_access_step :: "folio \<Rightarrow> s3_place \<Rightarrow> s3fifo_state \<Rightarrow> s3_place \<times> s3fifo_state" where
  "s3_access_step f pl s =
     (case pl of
        S3_Access \<Rightarrow>
          if \<not> s3_is_folio_relevant s (Some f) then (S3_Done, s)
          else (case get_folio_metadata s f of None \<Rightarrow> (S3_Done, s) | Some _ \<Rightarrow> (S3_Add, s))
      | S3_Add \<Rightarrow>
          (case get_folio_metadata s f of
             None \<Rightarrow> (S3_Done, s)
           | Some data \<Rightarrow> (if 3 <s freq data + 1 then S3_Cap else S3_Done, set_folio_metadata f (\<lambda>d. d\<lparr>freq := freq d + 1\<rparr>) s))
      | S3_Cap \<Rightarrow> (S3_Done, set_folio_metadata f (\<lambda>d. d\<lparr>freq := 3\<rparr>) s)
      | _ \<Rightarrow> (pl, s))"

definition s3_main_step :: "folio \<Rightarrow> s3_place \<Rightarrow> s3fifo_state \<Rightarrow> s3_place \<times> s3fifo_state" where
  "s3_main_step f pl s =
     (case pl of
        S3_Main n \<Rightarrow>
          if \<not> folio_test_uptodate f \<or> \<not> folio_test_lru f then (S3_Verdict CONTINUE_ITER, s)
          else if folio_test_dirty f \<or> folio_test_writeback f then (S3_Verdict CONTINUE_ITER, s)
          else (case get_folio_metadata s f of None \<Rightarrow> (S3_Verdict CONTINUE_ITER, s) | Some _ \<Rightarrow> (S3_Sub n, s))
      | S3_Sub n \<Rightarrow>
          (case get_folio_metadata s f of
             None \<Rightarrow> (S3_Verdict CONTINUE_ITER, s)
           | Some data \<Rightarrow> (S3_Verdict (if freq data - 1 <s n then EVICT_NODE else CONTINUE_ITER),
               set_folio_metadata f (\<lambda>d. d\<lparr>freq := freq d - 1\<rparr>) s))
      | _ \<Rightarrow> (pl, s))"

definition s3_small_step :: "folio \<Rightarrow> s3_place \<Rightarrow> s3fifo_state \<Rightarrow> s3_place \<times> s3fifo_state" where
  "s3_small_step f pl s =
     (case pl of
        S3_Small \<Rightarrow>
          if \<not> folio_test_uptodate f \<or> \<not> folio_test_lru f then (S3_Verdict CONTINUE_ITER, s)
          else if folio_test_dirty f \<or> folio_test_writeback f then (S3_Verdict CONTINUE_ITER, s)
          else (case get_folio_metadata s f of None \<Rightarrow> (S3_Verdict CONTINUE_ITER, s) | Some _ \<Rightarrow> (S3_Test, s))
      | S3_Test \<Rightarrow>
          (case get_folio_metadata s f of
             None \<Rightarrow> (S3_Verdict CONTINUE_ITER, s)
           | Some data \<Rightarrow> (if 1 <s freq data then S3_Mark else S3_Verdict EVICT_NODE, s))
      | S3_Mark \<Rightarrow> (S3_Verdict CONTINUE_ITER, set_folio_metadata f (\<lambda>d. d\<lparr>in_main := True\<rparr>) s)
      | _ \<Rightarrow> (pl, s))"

text \<open>At most one of the three moves a thread: each leaves the places of the others alone.\<close>

fun s3_thread_step :: "s3_thread \<Rightarrow> s3fifo_state \<Rightarrow> s3_thread \<times> s3fifo_state" where
  "s3_thread_step (f, pl) s =
     (let (pl', s') = (case pl of
          S3_Main _ \<Rightarrow> s3_main_step f pl s | S3_Sub _ \<Rightarrow> s3_main_step f pl s
        | S3_Small \<Rightarrow> s3_small_step f pl s | S3_Test \<Rightarrow> s3_small_step f pl s | S3_Mark \<Rightarrow> s3_small_step f pl s
        | _ \<Rightarrow> s3_access_step f pl s)
      in ((f, pl'), s'))"

declare s3_thread_step.simps [simp del]

lemma s3_thread_steps [simp]:
  "s3_thread_step (f, S3_Access) s =
     (if \<not> s3_is_folio_relevant s (Some f) then ((f, S3_Done), s)
      else case get_folio_metadata s f of None \<Rightarrow> ((f, S3_Done), s) | Some _ \<Rightarrow> ((f, S3_Add), s))"
  "s3_thread_step (f, S3_Add) s =
     (case get_folio_metadata s f of
        None \<Rightarrow> ((f, S3_Done), s)
      | Some data \<Rightarrow>
          ((f, if 3 <s freq data + 1 then S3_Cap else S3_Done), set_folio_metadata f (\<lambda>d. d\<lparr>freq := freq d + 1\<rparr>) s))"
  "s3_thread_step (f, S3_Cap) s = ((f, S3_Done), set_folio_metadata f (\<lambda>d. d\<lparr>freq := 3\<rparr>) s)"
  "s3_thread_step (f, S3_Main n) s =
     (if \<not> folio_test_uptodate f \<or> \<not> folio_test_lru f then ((f, S3_Verdict CONTINUE_ITER), s)
      else if folio_test_dirty f \<or> folio_test_writeback f then ((f, S3_Verdict CONTINUE_ITER), s)
      else case get_folio_metadata s f of
        None \<Rightarrow> ((f, S3_Verdict CONTINUE_ITER), s)
      | Some _ \<Rightarrow> ((f, S3_Sub n), s))"
  "s3_thread_step (f, S3_Sub n) s =
     (case get_folio_metadata s f of
        None \<Rightarrow> ((f, S3_Verdict CONTINUE_ITER), s)
      | Some data \<Rightarrow>
          ((f, S3_Verdict (if freq data - 1 <s n then EVICT_NODE else CONTINUE_ITER)),
           set_folio_metadata f (\<lambda>d. d\<lparr>freq := freq d - 1\<rparr>) s))"
  "s3_thread_step (f, S3_Small) s =
     (if \<not> folio_test_uptodate f \<or> \<not> folio_test_lru f then ((f, S3_Verdict CONTINUE_ITER), s)
      else if folio_test_dirty f \<or> folio_test_writeback f then ((f, S3_Verdict CONTINUE_ITER), s)
      else case get_folio_metadata s f of
        None \<Rightarrow> ((f, S3_Verdict CONTINUE_ITER), s)
      | Some _ \<Rightarrow> ((f, S3_Test), s))"
  "s3_thread_step (f, S3_Test) s =
     (case get_folio_metadata s f of
        None \<Rightarrow> ((f, S3_Verdict CONTINUE_ITER), s)
      | Some data \<Rightarrow> ((f, if 1 <s freq data then S3_Mark else S3_Verdict EVICT_NODE), s))"
  "s3_thread_step (f, S3_Mark) s =
     ((f, S3_Verdict CONTINUE_ITER), set_folio_metadata f (\<lambda>d. d\<lparr>in_main := True\<rparr>) s)"
  "s3_thread_step (f, S3_Done) s = ((f, S3_Done), s)"
  "s3_thread_step (f, S3_Verdict r) s = ((f, S3_Verdict r), s)"
  by (simp_all add: s3_thread_step.simps s3_access_step_def s3_main_step_def s3_small_step_def split: option.split)

lemma s3_access_alone:
  "thread_alone s3_thread_step 3 ((f, S3_Access), s) = ((f, S3_Done), snd (s3fifo_folio_accessed f k s))"
  by (simp add: eval_nat_numeral s3fifo_folio_accessed_def Let_def split: option.split)

lemma s3_main_alone:
  "thread_alone s3_thread_step 2 ((f, S3_Main n), s) =
     ((f, S3_Verdict (fst (main_iter_fn n k i f s))), snd (main_iter_fn n k i f s))"
  by (simp add: eval_nat_numeral main_iter_fn_def Let_def split: option.split)

lemma s3_small_alone:
  "thread_alone s3_thread_step 3 ((f, S3_Small), s) =
     ((f, S3_Verdict (fst (bpf_s3fifo_score_small_fn k i f s))), snd (bpf_s3fifo_score_small_fn k i f s))"
  by (simp add: eval_nat_numeral bpf_s3fifo_score_small_fn_def Let_def split: option.split)

section \<open>The cap under concurrency\<close>

definition capping :: "u64 \<Rightarrow> s3_thread multiset \<Rightarrow> nat" where
  "capping a = threads_at (\<lambda>(f, pl). folio_addr f = a \<and> pl = S3_Cap)"

definition scanning :: "u64 \<Rightarrow> s3_thread multiset \<Rightarrow> nat" where
  "scanning a = threads_at (\<lambda>(f, pl). folio_addr f = a \<and> (case pl of S3_Main n \<Rightarrow> True | S3_Sub n \<Rightarrow> True | _ \<Rightarrow> False))"

definition s3_done :: "s3_thread \<Rightarrow> bool" where
  "s3_done t \<longleftrightarrow> (case snd t of S3_Done \<Rightarrow> True | S3_Verdict r \<Rightarrow> True | _ \<Rightarrow> False)"

lemma capping_add [simp]:
  "capping a (add_mset (f, pl) T) = (if folio_addr f = a \<and> pl = S3_Cap then 1 else 0) + capping a T"
  by (simp add: capping_def)

lemma scanning_add [simp]:
  "scanning a (add_mset (f, pl) T) =
     (if folio_addr f = a \<and> (case pl of S3_Main n \<Rightarrow> True | S3_Sub n \<Rightarrow> True | _ \<Rightarrow> False) then 1 else 0) + scanning a T"
  by (simp add: scanning_def)

lemma capping_le: "capping a T \<le> size T"
  by (simp add: capping_def threads_at_le)

text \<open>\<open>fr0\<close> is the frequency at the start, \<open>scans\<close> the number of scans so far, \<open>caps\<close> that of caps to come.\<close>

definition freq_within :: "s64 \<Rightarrow> nat \<Rightarrow> nat \<Rightarrow> s64 \<Rightarrow> bool" where
  "freq_within fr0 scans caps fr \<longleftrightarrow> sint fr0 - int scans \<le> sint fr \<and> sint fr \<le> 3 + int caps"

lemma freq_within_inc:
  assumes "freq_within fr0 n c fr" "c < 2 ^ 62"
  shows "freq_within fr0 n (if 3 <s fr + 1 then c + 1 else c) (fr + 1)" "sint (fr + 1) = sint fr + 1"
proof -
  show inc: "sint (fr + 1) = sint fr + 1" using assms by (intro sint_inc) (simp add: freq_within_def)
  show "freq_within fr0 n (if 3 <s fr + 1 then c + 1 else c) (fr + 1)"
    using assms by (simp add: freq_within_def word_sless_alt inc)
qed

lemma freq_within_dec:
  assumes "freq_within fr0 n c fr" "n < 2 ^ 62" "0 \<le> sint fr0"
  shows "freq_within fr0 (n + 1) c (fr - 1)"
  using assms sint_dec [of fr] by (simp add: freq_within_def)

lemma freq_within_cap: "sint fr0 \<le> 3 \<Longrightarrow> freq_within fr0 n c 3"
  by (simp add: freq_within_def)

lemma freq_within_mono: "freq_within fr0 n c fr \<Longrightarrow> n \<le> n' \<Longrightarrow> freq_within fr0 n' c fr"
  by (simp add: freq_within_def)

text \<open>\<open>N\<close> is the number of scans of the folio at \<open>a\<close> in all.\<close>

definition s3_freq_inv :: "u64 \<Rightarrow> s64 \<Rightarrow> nat \<Rightarrow> s3_thread multiset \<Rightarrow> s3fifo_state \<Rightarrow> bool" where
  "s3_freq_inv a fr0 N T s \<longleftrightarrow> 0 \<le> sint fr0 \<and> sint fr0 \<le> 3 \<and> size T < 2 ^ 62 \<and> N < 2 ^ 62 \<and> scanning a T \<le> N
     \<and> (\<exists>d. map_of (s3_meta s) a = Some d \<and> freq_within fr0 (N - scanning a T) (capping a T) (freq d))"

lemma meta_set_folio_metadata:
  "map_of (s3_meta (set_folio_metadata f g s)) a =
     (if a = folio_addr f then map_option g (map_of (s3_meta s) a) else map_of (s3_meta s) a)"
  by (simp add: set_folio_metadata_def bpf_map_simps)

interpretation s3_freq: threads s3_thread_step "s3_freq_inv a fr0 N" for a fr0 N
proof (unfold_locales, goal_cases)
  case (1 p R s p' s')
  obtain f pl where p: "p = (f, pl)" by (cases p)
  obtain d where d: "map_of (s3_meta s) a = Some d"
      "freq_within fr0 (N - scanning a (add_mset p R)) (capping a (add_mset p R)) (freq d)"
    and b: "0 \<le> sint fr0" "sint fr0 \<le> 3" "size R + 1 < 2 ^ 62" "N < 2 ^ 62" "scanning a (add_mset p R) \<le> N"
    using 1(1) by (auto simp: s3_freq_inv_def)
  have c: "capping a R < 2 ^ 62" using capping_le [of a R] b(3) by simp
  have inv: "s3_freq_inv a fr0 N (add_mset p' R) s'"
    if "map_of (s3_meta s') a = Some d'" "freq_within fr0 (N - scanning a (add_mset p' R)) (capping a (add_mset p' R)) (freq d')"
      "scanning a (add_mset p' R) \<le> N" for d'
    using that b by (auto simp: s3_freq_inv_def)
  show ?case
  proof (cases "folio_addr f = a")
    case other: False
    have "folio_addr (fst p') = folio_addr f" "map_of (s3_meta s') a = map_of (s3_meta s) a"
      using 1(2) other by (cases pl; auto simp: p meta_set_folio_metadata split: option.splits if_splits)+
    then show ?thesis using d b inv [of d] other by (cases p') (simp add: p)
  next
    case here: True
    show ?thesis
    proof (cases pl)
      case S3_Add
      have "freq_within fr0 (N - scanning a R) (capping a R) (freq d)" using d(2) by (simp add: p S3_Add)
      note freq_within_inc(1) [OF this c]
      with S3_Add show ?thesis using 1(2) d b here inv [of "d\<lparr>freq := freq d + 1\<rparr>"]
        by (auto simp: p get_folio_metadata_def meta_set_folio_metadata)
    next
      case S3_Cap
      then show ?thesis using 1(2) d b here inv [of "d\<lparr>freq := 3\<rparr>"] freq_within_cap [OF b(2)]
        by (auto simp: p meta_set_folio_metadata)
    next
      case (S3_Sub n)
      have "N - scanning a R = N - scanning a (add_mset p R) + 1" using b(5) by (simp add: p S3_Sub here)
      then show ?thesis using 1(2) d b here inv [of "d\<lparr>freq := freq d - 1\<rparr>"]
          freq_within_dec [OF d(2) _ b(1)] S3_Sub
        by (auto simp: p get_folio_metadata_def meta_set_folio_metadata)
    next
      case (S3_Main n)
      have "freq_within fr0 (N - scanning a R) (capping a R) (freq d)"
        using freq_within_mono [OF d(2), of "N - scanning a R"] by (simp add: p S3_Main)
      with S3_Main show ?thesis using 1(2) d b here inv [of d]
        by (auto simp: p get_folio_metadata_def split: if_splits)
    next
      case S3_Mark
      then show ?thesis using 1(2) d b here inv [of "d\<lparr>in_main := True\<rparr>"]
        by (auto simp: p meta_set_folio_metadata)
    qed (use 1(2) d b here inv [of d] in \<open>auto simp: p get_folio_metadata_def split: if_splits\<close>)
  qed
qed

text \<open>Where the hook and the two callbacks begin.\<close>

definition s3_entered :: "s3_thread \<Rightarrow> bool" where
  "s3_entered t \<longleftrightarrow> (case snd t of S3_Access \<Rightarrow> True | S3_Main n \<Rightarrow> True | S3_Small \<Rightarrow> True | _ \<Rightarrow> False)"

lemma s3_alone_ends:
  "s3_entered t \<Longrightarrow> \<exists>n t' s'. thread_alone s3_thread_step n (t, s) = (t', s') \<and> s3_done t'"
  using s3_access_alone [of "fst t" s undefined] s3_main_alone [of "fst t" _ s undefined 0]
    s3_small_alone [of "fst t" s undefined 0]
  by (cases t) (fastforce simp: s3_entered_def s3_done_def split: s3_place.splits)

lemma s3_entered_capping: "\<forall>t \<in># T. s3_entered t \<Longrightarrow> capping a T = 0"
  unfolding capping_def by (rule threads_at_none) (auto simp: s3_entered_def)

lemma s3_done_capping: "\<forall>t \<in># T. s3_done t \<Longrightarrow> capping a T = 0"
  unfolding capping_def by (rule threads_at_none) (auto simp: s3_done_def)

text \<open>
  C7: while any number of CPUs report accesses and scan the lists of the S3-FIFO policy, a
  folio's frequency passes its cap of 3 at most by the number of accesses to it that have
  still to store the cap; once all have returned it is 3 or less. Nor does it fall
  below its former value by more than the number of scans of the folio. Some run ends them all.
\<close>

theorem concurrent_frequency_capped:
  assumes "\<forall>t \<in># T. s3_entered t" "size T < 2 ^ 62"
    and "map_of (s3_meta s) a = Some d" "0 \<le> sint (freq d)" "sint (freq d) \<le> 3"
  shows "(\<exists>T' s'. interleave s3_thread_step (T, s) (T', s') \<and> (\<forall>t \<in># T'. s3_done t))
    \<and> (\<forall>T' s'. interleave s3_thread_step (T, s) (T', s') \<longrightarrow>
        (\<exists>d'. map_of (s3_meta s') a = Some d'
          \<and> sint (freq d) - int (scanning a T) \<le> sint (freq d') \<and> sint (freq d') \<le> 3 + int (capping a T')
          \<and> ((\<forall>t \<in># T'. s3_done t) \<longrightarrow> sint (freq d') \<le> 3)))"
proof (intro conjI allI impI)
  show "\<exists>T' s'. interleave s3_thread_step (T, s) (T', s') \<and> (\<forall>t \<in># T'. s3_done t)"
    using assms(1) s3_alone_ends by (intro interleave_completes) blast
next
  fix T' s'
  assume run: "interleave s3_thread_step (T, s) (T', s')"
  have "scanning a T < 2 ^ 62" using threads_at_le assms(2) unfolding scanning_def by (rule le_less_trans)
  then have "s3_freq_inv a (freq d) (scanning a T) T s"
    using assms s3_entered_capping [OF assms(1)] by (simp add: s3_freq_inv_def freq_within_def)
  with run have "s3_freq_inv a (freq d) (scanning a T) T' s'" by (rule s3_freq.interleave_inv)
  then obtain d' where "map_of (s3_meta s') a = Some d'"
      "freq_within (freq d) (scanning a T - scanning a T') (capping a T') (freq d')"
    by (auto simp: s3_freq_inv_def)
  then show "\<exists>d'. map_of (s3_meta s') a = Some d'
      \<and> sint (freq d) - int (scanning a T) \<le> sint (freq d') \<and> sint (freq d') \<le> 3 + int (capping a T')
      \<and> ((\<forall>t \<in># T'. s3_done t) \<longrightarrow> sint (freq d') \<le> 3)"
    using s3_done_capping [of T' a] by (intro exI [of _ d']) (auto simp: freq_within_def)
qed

text \<open>Two accesses to page 2, whose frequency is 3, race with a scan of the main list.\<close>

theorem concurrent_frequency_capped_witness:
  "\<exists>T' s'. interleave s3_thread_step
      ({#(clean_folio 2, S3_Access), (clean_folio 2, S3_Access), (clean_folio 2, S3_Main 0)#}, demo_s3) (T', s')
     \<and> (\<exists>d'. map_of (s3_meta s') 2 = Some d' \<and> 2 \<le> sint (freq d') \<and> sint (freq d') \<le> 3)"
proof -
  let ?T = "{#(clean_folio 2, S3_Access), (clean_folio 2, S3_Access), (clean_folio 2, S3_Main 0)#}"
  have e: "\<forall>t \<in># ?T. s3_entered t" "size ?T < 2 ^ 62" "scanning 2 ?T = 1"
    by (simp_all add: s3_entered_def scanning_def clean_folio_def)
  have d: "map_of (s3_meta demo_s3) 2 = Some \<lparr>freq = 3, in_main = True\<rparr>" by (simp add: demo_s3_simps)
  show ?thesis using concurrent_frequency_capped [OF e(1,2) d] e(3) by fastforce
qed

end
