(* ===== verification/Lfu_Threads.thy ===== *)
theory Lfu_Threads
  imports Interleaving Evolved_Lfu
begin

text \<open>
  \<open>evolved_folio_accessed\<close> of \<open>eviction_evo/initial.c\<close> on several CPUs at the same time. It
  counts with \<open>meta->access_count += 1\<close>, which reads and writes the counter in two accesses of
  the memory, where the baseline policy uses an atomic addition. Shown: one thread alone
  does what the hook does; from n accesses any number from 1 to n may be counted.
\<close>

section \<open>The hook, one access of the metadata at a time\<close>

text \<open>
  The branch for a folio without metadata is one step: its calls of list operations go to the
  kernel. The places after the lookup hold what the hook has in local variables.
\<close>

datatype lfu_place = LF_Enter | LF_Clock | LF_Load_Ts u64 | LF_Store_Prev u64 u64 | LF_Store_Last u64
  | LF_Load_Count | LF_Store_Count u32 | LF_Bump | LF_Done

type_synonym lfu_thread = "folio \<times> lfu_place"

definition lfu_set :: "folio \<Rightarrow> (lfu_folio_metadata \<Rightarrow> lfu_folio_metadata) \<Rightarrow> initial_state \<Rightarrow> initial_state" where
  "lfu_set f g s = s\<lparr>initial_meta := hmap_modify (folio_addr f) g (initial_meta s)\<rparr>"

definition lfu_get :: "folio \<Rightarrow> (lfu_folio_metadata \<Rightarrow> 'v) \<Rightarrow> initial_state \<Rightarrow> 'v option" where
  "lfu_get f g s = map_option g (map_of (initial_meta s) (folio_addr f))"

fun lfu_thread_step :: "('k, initial_state) kfuncs \<Rightarrow> lfu_thread \<Rightarrow> 'k \<times> initial_state \<Rightarrow>
    lfu_thread \<times> ('k \<times> initial_state)" where
  "lfu_thread_step K (f, LF_Enter) (k, s) =
     (if \<not> initial_is_folio_relevant s (Some f) then ((f, LF_Done), (k, s))
      else case map_of (initial_meta s) (folio_addr f) of
        None \<Rightarrow> ((f, LF_Done), initial_folio_accessed K f k s)
      | Some _ \<Rightarrow> ((f, LF_Clock), (k, s)))"
| "lfu_thread_step K (f, LF_Clock) (k, s) = ((f, LF_Load_Ts (kf_ktime_get_ns K k)), (k, s))"
| "lfu_thread_step K (f, LF_Load_Ts now) (k, s) =
     (case lfu_get f last_access_ts s of
        None \<Rightarrow> ((f, LF_Done), (k, s))
      | Some ts \<Rightarrow> ((f, LF_Store_Prev now ts), (k, s)))"
| "lfu_thread_step K (f, LF_Store_Prev now ts) (k, s) =
     ((f, LF_Store_Last now), (k, lfu_set f (\<lambda>m. m\<lparr>prev_access_ts := ts\<rparr>) s))"
| "lfu_thread_step K (f, LF_Store_Last now) (k, s) =
     ((f, LF_Load_Count), (k, lfu_set f (\<lambda>m. m\<lparr>last_access_ts := now\<rparr>) s))"
| "lfu_thread_step K (f, LF_Load_Count) (k, s) =
     (case lfu_get f access_count s of
        None \<Rightarrow> ((f, LF_Done), (k, s))
      | Some c \<Rightarrow> ((f, LF_Store_Count (c + 1)), (k, s)))"
| "lfu_thread_step K (f, LF_Store_Count c) (k, s) =
     ((f, LF_Bump), (k, lfu_set f (\<lambda>m. m\<lparr>access_count := c\<rparr>) s))"
| "lfu_thread_step K (f, LF_Bump) (k, s) = ((f, LF_Done), (k, initial_bump_counter 4 s))"
| "lfu_thread_step K (f, LF_Done) c = ((f, LF_Done), c)"

lemma lfu_thread_alone:
  "thread_alone (lfu_thread_step K) 8 ((f, LF_Enter), (k, s)) = ((f, LF_Done), initial_folio_accessed K f k s)"
proof (cases "map_of (initial_meta s) (folio_addr f)")
  case (Some m)
  have "hmap_modify (folio_addr f) (\<lambda>x. x\<lparr>prev_access_ts := last_access_ts m, last_access_ts := now, access_count := access_count m + 1\<rparr>) (initial_meta s)
     = hmap_modify (folio_addr f) (\<lambda>x. x\<lparr>prev_access_ts := last_access_ts x, last_access_ts := now, access_count := access_count x + 1\<rparr>) (initial_meta s)" for now
    by (simp add: hmap_modify_def Some)
  then show ?thesis
    by (simp add: eval_nat_numeral initial_folio_accessed_def Let_def Some lfu_get_def lfu_set_def bpf_map_simps hmap_modify_twice)
qed (simp add: eval_nat_numeral initial_folio_accessed_def)

section \<open>What is counted\<close>

definition lfu_counted :: "u64 \<Rightarrow> lfu_thread multiset \<Rightarrow> nat" where
  "lfu_counted a = threads_at (\<lambda>(f, pl). folio_addr f = a \<and> (pl = LF_Bump \<or> pl = LF_Done))"

lemma lfu_counted_add [simp]:
  "lfu_counted a (add_mset (f, pl) T) =
     (if folio_addr f = a \<and> (pl = LF_Bump \<or> pl = LF_Done) then 1 else 0) + lfu_counted a T"
  by (simp add: lfu_counted_def)

lemma lfu_counted_le: "lfu_counted a T \<le> size T"
  unfolding lfu_counted_def by (rule threads_at_le)

lemma lfu_frame [simp]:
  "relevant (lfu_set f g s) f' = relevant s f'" "relevant (initial_bump_counter i s) f' = relevant s f'"
  "map_of (initial_meta (lfu_set f g s)) a =
     (if a = folio_addr f then map_option g (map_of (initial_meta s) a) else map_of (initial_meta s) a)"
  by (simp_all add: relevant_def inode_in_watchlist_def inode_get_client_tag_def lfu_set_def initial_bump_counter_def
      bpf_map_simps split: option.split)

text \<open>
  \<open>c0\<close> is the count of the folio at \<open>a\<close> at the start, \<open>n\<close> the number of accesses to it that
  have stored theirs.
\<close>

definition lfu_thread_ok :: "u64 \<Rightarrow> int \<Rightarrow> nat \<Rightarrow> initial_state \<Rightarrow> lfu_thread \<Rightarrow> bool" where
  "lfu_thread_ok a c0 n s t \<longleftrightarrow> relevant s (fst t) \<and> map_of (initial_meta s) (folio_addr (fst t)) \<noteq> None
     \<and> (\<forall>c. t = (fst t, LF_Store_Count c) \<and> folio_addr (fst t) = a \<longrightarrow> c0 + 1 \<le> uint c \<and> uint c \<le> c0 + int n + 1)"

definition lfu_entry_ok :: "u64 \<Rightarrow> int \<Rightarrow> nat \<Rightarrow> initial_state \<Rightarrow> bool" where
  "lfu_entry_ok a c0 n s \<longleftrightarrow> (\<exists>md. map_of (initial_meta s) a = Some md
     \<and> (if n = 0 then c0 else c0 + 1) \<le> uint (access_count md) \<and> uint (access_count md) \<le> c0 + int n)"

definition lfu_count_inv :: "u64 \<Rightarrow> int \<Rightarrow> lfu_thread multiset \<Rightarrow> 'k \<times> initial_state \<Rightarrow> bool" where
  "lfu_count_inv a c0 T c \<longleftrightarrow> c0 + int (size T) < 2 ^ 32
     \<and> (\<forall>t \<in># T. lfu_thread_ok a c0 (lfu_counted a T) (snd c) t) \<and> lfu_entry_ok a c0 (lfu_counted a T) (snd c)"

lemma uint_Suc_small: "uint (n :: u32) < 2 ^ 32 - 1 \<Longrightarrow> uint (n + 1) = uint n + 1"
  by (simp add: uint_word_ariths)

lemma lfu_thread_ok_mono: "lfu_thread_ok a c0 n s t \<Longrightarrow> n \<le> n' \<Longrightarrow> lfu_thread_ok a c0 n' s t"
  by (fastforce simp: lfu_thread_ok_def)

lemma lfu_thread_ok_place:
  "lfu_thread_ok a c0 n s (f, pl) \<Longrightarrow> (\<And>c. pl' \<noteq> LF_Store_Count c) \<Longrightarrow> lfu_thread_ok a c0 n s (f, pl')"
  by (simp add: lfu_thread_ok_def)

lemma lfu_thread_ok_frame [simp]:
  "lfu_thread_ok a c0 n (lfu_set f g s) t = lfu_thread_ok a c0 n s t"
  "lfu_thread_ok a c0 n (initial_bump_counter i s) t = lfu_thread_ok a c0 n s t"
  by (auto simp: lfu_thread_ok_def)

lemma lfu_entry_ok_frame:
  "lfu_entry_ok a c0 n (initial_bump_counter i s) = lfu_entry_ok a c0 n s"
  "(\<And>m. access_count (g m) = access_count m) \<Longrightarrow> lfu_entry_ok a c0 n (lfu_set f g s) = lfu_entry_ok a c0 n s"
  by (auto simp: lfu_entry_ok_def)

lemma lfu_entry_ok_other: "folio_addr f \<noteq> a \<Longrightarrow> lfu_entry_ok a c0 n (lfu_set f g s) = lfu_entry_ok a c0 n s"
  by (simp add: lfu_entry_ok_def)

lemma lfu_load_ok:
  assumes "lfu_entry_ok a c0 n s" "map_of (initial_meta s) a = Some md" "c0 + int n + 1 < 2 ^ 32"
  shows "c0 + 1 \<le> uint (access_count md + 1)" "uint (access_count md + 1) \<le> c0 + int n + 1"
  using assms uint_Suc_small [of "access_count md"] by (auto simp: lfu_entry_ok_def split: if_splits)

lemma lfu_store_ok:
  assumes "lfu_entry_ok a c0 n s" "c0 + 1 \<le> uint c" "uint c \<le> c0 + int n + 1" "folio_addr f = a"
  shows "lfu_entry_ok a c0 (n + 1) (lfu_set f (\<lambda>m. m\<lparr>access_count := c\<rparr>) s)"
  using assms by (auto simp: lfu_entry_ok_def)

lemma lfu_step_ok:
  assumes "lfu_thread_ok a c0 n s (f, pl)" "lfu_entry_ok a c0 n s" "c0 + int n + 1 < 2 ^ 32"
    and "lfu_thread_step K (f, pl) (k, s) = ((f', pl'), c')"
  defines "n' \<equiv> if folio_addr f = a \<and> (\<exists>c. pl = LF_Store_Count c) then n + 1 else n"
  shows "lfu_thread_ok a c0 n' (snd c') (f', pl')" "lfu_entry_ok a c0 n' (snd c')" "f' = f"
    "lfu_thread_ok a c0 i (snd c') = lfu_thread_ok a c0 i s"
    "pl' = LF_Bump \<or> pl' = LF_Done \<longleftrightarrow> (\<exists>c. pl = LF_Store_Count c) \<or> pl = LF_Bump \<or> pl = LF_Done"
proof -
  have t: "relevant s f" "map_of (initial_meta s) (folio_addr f) \<noteq> None" using assms(1) by (simp_all add: lfu_thread_ok_def)
  then obtain md where md: "map_of (initial_meta s) (folio_addr f) = Some md" by blast
  have ld: "folio_addr f = a \<Longrightarrow> c0 + 1 \<le> uint (access_count md + 1) \<and> uint (access_count md + 1) \<le> c0 + int n + 1"
    using lfu_load_ok [OF assms(2) _ assms(3), of md] md by simp
  note step = assms(4) and defs = lfu_thread_ok_def lfu_get_def md n'_def
  show "f' = f" using step t md by (cases pl) (auto simp: lfu_get_def)
  show "pl' = LF_Bump \<or> pl' = LF_Done \<longleftrightarrow> (\<exists>c. pl = LF_Store_Count c) \<or> pl = LF_Bump \<or> pl = LF_Done"
    using step t md by (cases pl) (auto simp: lfu_get_def)
  show "lfu_thread_ok a c0 i (snd c') = lfu_thread_ok a c0 i s"
    using step t md by (cases pl) (auto simp: lfu_get_def fun_eq_iff)
  show "lfu_thread_ok a c0 n' (snd c') (f', pl')"
    using step t assms(1) ld by (cases pl) (auto simp: defs)
  show "lfu_entry_ok a c0 n' (snd c')"
    using step t assms(1,2) lfu_store_ok [OF assms(2)] by (cases pl) (auto simp: defs lfu_entry_ok_frame lfu_entry_ok_other)
qed

interpretation lfu_counts: threads "lfu_thread_step K" "lfu_count_inv a c0" for K :: "('k, initial_state) kfuncs" and a c0
proof (unfold_locales, goal_cases)
  case (1 p R c p' c')
  obtain f pl f' pl' k s where p: "p = (f, pl)" "p' = (f', pl')" "c = (k, s)" by (cases p; cases p'; cases c) auto
  let ?n = "lfu_counted a (add_mset p R)"
  have t: "c0 + int (size R) + 1 < 2 ^ 32" "lfu_thread_ok a c0 ?n s (f, pl)" "lfu_entry_ok a c0 ?n s"
      "\<forall>t \<in># R. lfu_thread_ok a c0 ?n s t"
    using 1(1) by (simp_all add: lfu_count_inv_def p(1,3))
  have step: "lfu_thread_step K (f, pl) (k, s) = ((f', pl'), c')" using 1(2) by (simp add: p)
  show ?case
  proof (cases "pl = LF_Bump \<or> pl = LF_Done")
    case True
    then have p': "p' = (f, LF_Done)" and s: "snd c' = s \<or> snd c' = initial_bump_counter 4 s"
      using step p(2) by auto
    have "lfu_thread_ok a c0 ?n s (f, LF_Done)" using t(2) by (rule lfu_thread_ok_place) simp
    moreover have "lfu_counted a (add_mset p' R) = ?n" using True by (simp add: p' p(1))
    moreover have "lfu_thread_ok a c0 ?n (snd c') u = lfu_thread_ok a c0 ?n s u"
        "lfu_entry_ok a c0 ?n (snd c') = lfu_entry_ok a c0 ?n s" for u
      using s by (auto simp: lfu_entry_ok_frame)
    ultimately show ?thesis using t(1,3,4) by (simp add: lfu_count_inv_def p')
  next
    case False
    have n: "?n = lfu_counted a R" using False by (simp add: p(1))
    have b: "c0 + int ?n + 1 < 2 ^ 32" using t(1) lfu_counted_le [of a R] n by simp
    note ok = lfu_step_ok [OF t(2,3) b step]
    let ?n' = "if folio_addr f = a \<and> (\<exists>c. pl = LF_Store_Count c) then ?n + 1 else ?n"
    have n': "lfu_counted a (add_mset p' R) = ?n'" using ok(3,5) False by (simp add: p(2) n)
    have "lfu_thread_ok a c0 ?n' (snd c') u" if "u \<in># R" for u
      using t(4) that ok(4) by (auto intro: lfu_thread_ok_mono)
    then show ?thesis using ok(1,2) t(1) unfolding lfu_count_inv_def n' by (simp add: p(2) del: lfu_counted_add)
  qed
qed

section \<open>What may be lost\<close>

abbreviation lfu_done :: "lfu_thread \<Rightarrow> bool" where
  "lfu_done t \<equiv> snd t = LF_Done"

text \<open>The folios of \<open>F\<close> are at the address \<open>a\<close> and have been accessed \<open>n\<close> times.\<close>

definition lfu_memory :: "u64 \<Rightarrow> folio set \<Rightarrow> u32 \<Rightarrow> 'k \<times> initial_state \<Rightarrow> bool" where
  "lfu_memory a F n c \<longleftrightarrow> (\<forall>f \<in> F. folio_addr f = a \<and> relevant (snd c) f)
     \<and> map_option access_count (map_of (initial_meta (snd c)) a) = Some n"

lemma lfu_racer_loads:
  assumes "fst t \<in> F" "snd t = LF_Enter" "lfu_memory a F n c"
  shows "\<exists>i t' c'. thread_alone (lfu_thread_step K) i (t, c) = (t', c')
    \<and> (fst t' \<in> F \<and> snd t' = LF_Store_Count (n + 1)) \<and> lfu_memory a F n c'"
  using assms by (cases t; cases c; intro exI [of _ 6])
    (auto simp: lfu_memory_def eval_nat_numeral lfu_get_def)

lemma lfu_racer_stores:
  assumes "fst t \<in> F" "snd t = LF_Store_Count n'" "lfu_memory a F n c"
  shows "\<exists>i t' c'. thread_alone (lfu_thread_step K) i (t, c) = (t', c') \<and> lfu_done t' \<and> lfu_memory a F n' c'"
  using assms by (cases t; cases c; intro exI [of _ 2])
    (auto simp: lfu_memory_def eval_nat_numeral)

lemma lfu_late_counts:
  assumes "fst t \<in> F" "snd t = LF_Enter" "lfu_memory a F n c"
  shows "\<exists>i t' c'. thread_alone (lfu_thread_step K) i (t, c) = (t', c') \<and> lfu_done t' \<and> lfu_memory a F (n + 1) c'"
  using assms by (cases t; cases c; intro exI [of _ 8])
    (auto simp: lfu_memory_def eval_nat_numeral lfu_get_def)

lemma funpow_inc: "((\<lambda>n. n + 1) ^^ i) n = n + of_nat i" for n :: "'a::len word"
  by (induction i) simp_all

text \<open>Of \<open>T + U\<close>, the threads of \<open>T\<close> all read the same count before any of them stores.\<close>

lemma lfu_racers_lose:
  assumes "T \<noteq> {#}" "\<forall>t \<in># T + U. fst t \<in> F \<and> snd t = LF_Enter" "lfu_memory a F n c"
  shows "\<exists>T' c'. interleave (lfu_thread_step K) (T + U, c) (T', c') \<and> (\<forall>t \<in># T'. lfu_done t)
    \<and> lfu_memory a F (n + 1 + of_nat (size U)) c'"
proof -
  have T: "fst t \<in> F" "snd t = LF_Enter" if "t \<in># T \<or> t \<in># U" for t using assms(2) that by auto
  have "\<exists>T1 c1. interleave (lfu_thread_step K) (T, c) (T1, c1)
      \<and> (\<forall>t \<in># T1. fst t \<in> F \<and> snd t = LF_Store_Count (n + 1)) \<and> lfu_memory a F n c1"
    by (rule interleave_each [where Q = "\<lambda>_. lfu_memory a F n" and i = undefined
          and P = "\<lambda>t. fst t \<in> F \<and> snd t = LF_Store_Count (n + 1)"])
      (blast intro: assms(3) lfu_racer_loads T)+
  then obtain T1 c1 where 1: "interleave (lfu_thread_step K) (T, c) (T1, c1)"
      "\<forall>t \<in># T1. fst t \<in> F \<and> snd t = LF_Store_Count (n + 1)" "lfu_memory a F n c1" by auto
  have "\<exists>T2 c2. interleave (lfu_thread_step K) (T1, c1) (T2, c2) \<and> (\<forall>t \<in># T2. lfu_done t)
      \<and> lfu_memory a F (((\<lambda>_. n + 1) ^^ size T1) n) c2"
    by (rule interleave_each [where Q = "lfu_memory a F" and P = lfu_done]) (use 1(2,3) lfu_racer_stores in blast)+
  moreover have "0 < size T1" using interleave_size [OF 1(1)] assms(1) by (simp add: nonempty_has_size)
  ultimately obtain T2 c2 where 2: "interleave (lfu_thread_step K) (T1, c1) (T2, c2)" "\<forall>t \<in># T2. lfu_done t"
      "lfu_memory a F (n + 1) c2" by (auto simp: funpow_const)
  have "\<exists>U' c3. interleave (lfu_thread_step K) (U, c2) (U', c3) \<and> (\<forall>t \<in># U'. lfu_done t)
      \<and> lfu_memory a F (((\<lambda>n. n + 1) ^^ size U) (n + 1)) c3"
    by (rule interleave_each [where Q = "lfu_memory a F" and P = lfu_done]) (blast intro: 2(3) lfu_late_counts T)+
  then obtain U' c3 where 3: "interleave (lfu_thread_step K) (U, c2) (U', c3)" "\<forall>t \<in># U'. lfu_done t"
      "lfu_memory a F (n + 1 + of_nat (size U)) c3" by (auto simp: funpow_inc)
  have "interleave (lfu_thread_step K) (T + U, c) (T2 + U, c2)"
    using interleave_frame [OF rtranclp_trans [OF 1(1) 2(1)]] .
  also have "interleave (lfu_thread_step K) (T2 + U, c2) (T2 + U', c3)"
    using interleave_frame [OF 3(1), of T2] by (simp add: add.commute)
  finally show ?thesis using 2(2) 3(2,3) by (intro exI [of _ "T2 + U'"] exI [of _ c3]) auto
qed

lemma lfu_step_folio: "lfu_thread_step K p c = (p', c') \<Longrightarrow> fst p' = fst p"
  by (cases "(K, p, c)" rule: lfu_thread_step.cases) (auto split: option.splits if_splits)

lemma lfu_all_counted:
  "\<forall>t \<in># T. lfu_done t \<Longrightarrow> \<forall>t \<in># T. folio_addr (fst t) = a \<Longrightarrow> lfu_counted a T = size T"
proof (induction T)
  case (add t T)
  then show ?case by (cases t) auto
qed (simp add: lfu_counted_def)

lemma lfu_thread_alone_ends:
  "snd t = LF_Enter \<Longrightarrow> \<exists>n t' c'. thread_alone (lfu_thread_step K) n (t, c) = (t', c') \<and> lfu_done t'"
  using lfu_thread_alone [of K "fst t" "fst c" "snd c"] by (cases t; cases c) fastforce

text \<open>
  C11: when several CPUs report accesses to one tracked folio, the count grows by 1 at
  least and by the number of accesses at most, in whatever order the hooks take their steps;
  and every number in between comes out of some order, so all accesses but one may be lost.
\<close>

theorem plain_increments_race:
  assumes "T \<noteq> {#}" "\<forall>t \<in># T. snd t = LF_Enter \<and> folio_addr (fst t) = a \<and> relevant s (fst t)"
    and "map_of (initial_meta s) a = Some md" "uint (access_count md) + int (size T) < 2 ^ 32"
  shows "(\<forall>T' k' s'. interleave (lfu_thread_step K) (T, k, s) (T', k', s') \<and> (\<forall>t \<in># T'. lfu_done t) \<longrightarrow>
      (\<exists>md'. map_of (initial_meta s') a = Some md'
        \<and> uint (access_count md') - uint (access_count md) \<in> {1 .. int (size T)}))
    \<and> (\<forall>j \<in> {1 .. size T}. \<exists>T' k' s'. interleave (lfu_thread_step K) (T, k, s) (T', k', s') \<and> (\<forall>t \<in># T'. lfu_done t)
      \<and> (\<exists>md'. map_of (initial_meta s') a = Some md' \<and> access_count md' = access_count md + of_nat j))"
proof (intro conjI allI impI ballI)
  fix T' k' s'
  assume run: "interleave (lfu_thread_step K) (T, k, s) (T', k', s') \<and> (\<forall>t \<in># T'. lfu_done t)"
  let ?c0 = "uint (access_count md)"
  have "lfu_counted a T = 0" unfolding lfu_counted_def using assms(2) by (intro threads_at_none) auto
  then have "lfu_count_inv a ?c0 T (k, s)"
    using assms(2-4) by (fastforce simp: lfu_count_inv_def lfu_thread_ok_def lfu_entry_ok_def)
  then have inv: "lfu_count_inv a ?c0 T' (k', s')" using run by (blast intro: lfu_counts.interleave_inv)
  have "image_mset fst T' = image_mset fst T"
    using interleave_image [OF lfu_step_folio conjunct1 [OF run]] by simp
  then have "\<forall>t \<in># T'. folio_addr (fst t) = a" using assms(2) by (metis image_eqI set_image_mset imageE)
  then have "0 < lfu_counted a T'"
    using run interleave_size [OF conjunct1 [OF run]] assms(1) lfu_all_counted [of T' a] by (simp add: nonempty_has_size)
  then show "\<exists>md'. map_of (initial_meta s') a = Some md' \<and> uint (access_count md') - ?c0 \<in> {1 .. int (size T)}"
    using inv lfu_counted_le [of a T'] interleave_size [OF conjunct1 [OF run]]
    by (fastforce simp: lfu_count_inv_def lfu_entry_ok_def)
next
  fix j assume j: "j \<in> {1 .. size T}"
  have "size T - (j - 1) \<le> size T" by (rule diff_le_self)
  then obtain V U where T: "T = V + U" "size V = size T - (j - 1)" using multiset_split by blast
  let ?F = "fst ` set_mset T"
  have "V \<noteq> {#}" "size U = j - 1" using T j by (auto simp: T(1))
  moreover have "lfu_memory a ?F (access_count md) (k, s)" using assms(2,3) by (auto simp: lfu_memory_def)
  moreover have "\<forall>t \<in># V + U. fst t \<in> ?F \<and> snd t = LF_Enter" using assms(2) T(1) by auto
  ultimately obtain T' k' s' where "interleave (lfu_thread_step K) (T, k, s) (T', k', s')" "\<forall>t \<in># T'. lfu_done t"
      "lfu_memory a ?F (access_count md + 1 + of_nat (j - 1)) (k', s')"
    using lfu_racers_lose [of V U ?F a "access_count md" "(k, s)" K] T(1) by auto
  moreover have "access_count md + 1 + of_nat (j - 1) = access_count md + of_nat j" using j by (simp add: of_nat_diff)
  ultimately have "interleave (lfu_thread_step K) (T, k, s) (T', k', s') \<and> (\<forall>t \<in># T'. lfu_done t)
      \<and> map_option access_count (map_of (initial_meta s') a) = Some (access_count md + of_nat j)"
    by (simp only: lfu_memory_def snd_conv)
  then show "\<exists>T' k' s'. interleave (lfu_thread_step K) (T, k, s) (T', k', s') \<and> (\<forall>t \<in># T'. lfu_done t)
      \<and> (\<exists>md'. map_of (initial_meta s') a = Some md' \<and> access_count md' = access_count md + of_nat j)"
    by (fastforce simp: map_option_eq_Some)
qed

text \<open>Two accesses to page 2, counted 6 times before: 7 comes out as well as 8.\<close>

definition demo_lfu :: initial_state where
  "demo_lfu = demo_initial\<lparr>initial_meta := [(2, \<lparr>access_count = 6, last_access_ts = 5, prev_access_ts = 4\<rparr>)]\<rparr>"

lemma demo_lfu_tracks:
  "relevant demo_lfu (clean_folio a)"
  "map_of (initial_meta demo_lfu) 2 = Some \<lparr>access_count = 6, last_access_ts = 5, prev_access_ts = 4\<rparr>"
  by (simp_all add: demo_lfu_def demo_initial_simps)

abbreviation demo_lfu_threads :: "lfu_thread multiset" where
  "demo_lfu_threads \<equiv> {#(clean_folio 2, LF_Enter), (clean_folio 2, LF_Enter)#}"

theorem plain_increments_race_witness:
  "(\<exists>T' k' s' md'. interleave (lfu_thread_step list_kfuncs) (demo_lfu_threads, demo_kernel, demo_lfu) (T', k', s')
      \<and> map_of (initial_meta s') 2 = Some md' \<and> access_count md' = 7)
   \<and> (\<exists>T' k' s' md'. interleave (lfu_thread_step list_kfuncs) (demo_lfu_threads, demo_kernel, demo_lfu) (T', k', s')
      \<and> map_of (initial_meta s') 2 = Some md' \<and> access_count md' = 8)"
proof -
  have T: "demo_lfu_threads \<noteq> {#}"
    "\<forall>t \<in># demo_lfu_threads. snd t = LF_Enter \<and> folio_addr (fst t) = 2 \<and> relevant demo_lfu (fst t)"
    using demo_lfu_tracks(1) [of 2] by (auto simp: clean_folio_def)
  note runs = conjunct2 [OF plain_increments_race [OF T demo_lfu_tracks(2), of list_kfuncs demo_kernel]]
  show ?thesis using bspec [OF runs, of 1] bspec [OF runs, of 2] by auto
qed

end
