(* ===== verification/Lhd_Threads.thy ===== *)
theory Lhd_Threads
  imports Interleaving Lhd
begin

text \<open>
  How the hooks of \<open>policies/cache_ext_lhd.bpf.c\<close> count requests when they run on several
  CPUs at the same time: the clock and the counter of requests left are atomic, the reset of
  that counter and the increment of \<open>num_reconfigurations\<close> are not. Shown: one thread alone
  does what the model of the hooks does; at most one thread at a time resets the counter, and
  no more events are submitted than periods of requests have passed.
\<close>

section \<open>The end of the hooks, one access of the memory at a time\<close>

datatype lhd_place = LH_Stamp | LH_Count | LH_Reset | LH_Load | LH_Store u32 | LH_Output | LH_Done

fun lhd_request_step :: "('k, lhd_state) kfuncs \<Rightarrow> 'k \<Rightarrow> lhd_place \<Rightarrow> lhd_state \<Rightarrow> lhd_place \<times> lhd_state" where
  "lhd_request_step K k LH_Stamp s = (LH_Count, s\<lparr>lhd_timestamp := lhd_timestamp s + 1\<rparr>)"
| "lhd_request_step K k LH_Count s =
     (let left = next_reconfiguration s - 1
      in (if left = 0 then LH_Reset else LH_Done, s\<lparr>next_reconfiguration := left\<rparr>))"
| "lhd_request_step K k LH_Reset s = (LH_Load, s\<lparr>next_reconfiguration := REQS_PER_RECONFIG\<rparr>)"
| "lhd_request_step K k LH_Load s = (LH_Store (num_reconfigurations s + 1), s)"
| "lhd_request_step K k (LH_Store n) s = (LH_Output, s\<lparr>num_reconfigurations := n\<rparr>)"
| "lhd_request_step K k LH_Output s =
     (LH_Done, if kf_ringbuf_output K k = 0 then s\<lparr>lhd_events := lhd_events s @ [num_reconfigurations s]\<rparr> else s)"
| "lhd_request_step K k LH_Done s = (LH_Done, s)"

lemma lhd_request_alone:
  "thread_alone (lhd_request_step K k) 6 (LH_Stamp, s) = (LH_Done, count_request K k (s\<lparr>lhd_timestamp := lhd_timestamp s + 1\<rparr>))"
  by (simp add: eval_nat_numeral count_request_def Let_def)

lemma lhd_request_ends:
  "pl = LH_Stamp \<Longrightarrow> \<exists>n pl' s'. thread_alone (lhd_request_step K k) n (pl, s) = (pl', s') \<and> pl' = LH_Done"
  by (rule exI [of _ 6]) (simp only: lhd_request_alone prod.inject, simp)

section \<open>Periods\<close>

definition lhd_resetting :: "lhd_place multiset \<Rightarrow> nat" where
  "lhd_resetting = threads_at (\<lambda>pl. pl = LH_Reset)"

definition lhd_reporting :: "lhd_place multiset \<Rightarrow> nat" where
  "lhd_reporting = threads_at (\<lambda>pl. case pl of LH_Load \<Rightarrow> True | LH_Store n \<Rightarrow> True | LH_Output \<Rightarrow> True | _ \<Rightarrow> False)"

definition lhd_stamped :: "lhd_place multiset \<Rightarrow> nat" where
  "lhd_stamped = threads_at (\<lambda>pl. pl \<noteq> LH_Stamp)"

definition lhd_requests :: "lhd_place multiset \<Rightarrow> nat" where
  "lhd_requests = threads_at (\<lambda>pl. pl \<noteq> LH_Stamp \<and> pl \<noteq> LH_Count)"

lemma lhd_counts_add [simp]:
  "lhd_resetting (add_mset pl T) = (if pl = LH_Reset then 1 else 0) + lhd_resetting T"
  "lhd_reporting (add_mset pl T) =
     (case pl of LH_Load \<Rightarrow> 1 | LH_Store n \<Rightarrow> 1 | LH_Output \<Rightarrow> 1 | _ \<Rightarrow> 0) + lhd_reporting T"
  "lhd_stamped (add_mset pl T) = (if pl = LH_Stamp then 0 else 1) + lhd_stamped T"
  "lhd_requests (add_mset pl T) = (if pl = LH_Stamp \<or> pl = LH_Count then 0 else 1) + lhd_requests T"
  by (simp_all add: lhd_resetting_def lhd_reporting_def lhd_stamped_def lhd_requests_def split: lhd_place.split)

abbreviation period :: nat where
  "period \<equiv> unat REQS_PER_RECONFIG"

text \<open>
  \<open>r0\<close> is the number of requests of the period counted before the run, \<open>e\<close> that of the events
  of the run. While a thread is about to reset the counter, it has gone on to count below zero.
\<close>

definition lhd_periods :: "nat \<Rightarrow> nat \<Rightarrow> u64 \<Rightarrow> lhd_place multiset \<Rightarrow> bool" where
  "lhd_periods r0 e left T \<longleftrightarrow>
     (case lhd_resetting T of
        0 \<Rightarrow> 1 \<le> unat left \<and> unat left \<le> period
          \<and> (e + lhd_reporting T) * period + (period - unat left) \<le> r0 + lhd_requests T
      | Suc n \<Rightarrow> n = 0 \<and> (\<exists>j. left = - of_nat j \<and> (e + lhd_reporting T + 1) * period + j \<le> r0 + lhd_requests T))"

definition lhd_request_inv :: "nat \<Rightarrow> nat \<Rightarrow> u64 \<Rightarrow> lhd_place multiset \<Rightarrow> lhd_state \<Rightarrow> bool" where
  "lhd_request_inv r0 e0 t0 T s \<longleftrightarrow> size T < 2 ^ 63 \<and> r0 < period \<and> e0 \<le> length (lhd_events s)
     \<and> lhd_timestamp s = t0 + of_nat (lhd_stamped T)
     \<and> lhd_periods r0 (length (lhd_events s) - e0) (next_reconfiguration s) T"

lemma period_pos: "0 < period" by (simp add: REQS_PER_RECONFIG_def)

lemma unat_dec: "left \<noteq> 0 \<Longrightarrow> unat (left - 1 :: u64) = unat left - 1"
  by (simp add: unat_sub word_le_nat_alt unat_gt_0 Suc_leI)

lemma below_zero_dec:
  "j < 2 ^ 63 \<Longrightarrow> (- of_nat j - 1 :: u64) = - of_nat (Suc j) \<and> (- of_nat j - 1 :: u64) \<noteq> 0"
proof -
  assume "j < 2 ^ 63"
  then have "(of_nat (Suc j) :: u64) \<noteq> 0" by (intro of_nat_word_nonzero) simp_all
  moreover have "- of_nat j - 1 = - (of_nat (Suc j) :: u64)" by simp
  ultimately show ?thesis by (simp only: neg_equal_0_iff_equal) simp
qed

lemma requests_le: "lhd_requests T \<le> size T"
  by (simp add: lhd_requests_def threads_at_le)

text \<open>What a step does to the period, by the place of the thread.\<close>

lemma lhd_count_periods:
  assumes "lhd_periods r0 e left (add_mset LH_Count R)" "size R + 1 + r0 < 2 ^ 63 + period" "r0 < period"
  shows "lhd_periods r0 e (left - 1) (add_mset (if left - 1 = 0 then LH_Reset else LH_Done) R)"
proof (cases "lhd_resetting R")
  case 0
  with assms(1) have l: "1 \<le> unat left" "unat left \<le> period"
      "(e + lhd_reporting R) * period + (period - unat left) \<le> r0 + lhd_requests R"
    by (auto simp: lhd_periods_def)
  then have "left \<noteq> 0" by auto
  note d = unat_dec [OF this]
  show ?thesis
  proof (cases "left - 1 = 0")
    case True
    then have "unat left = 1" using d l(1) by simp
    then show ?thesis using True 0 l(3) period_pos by (auto simp: lhd_periods_def algebra_simps intro!: exI [of _ 0])
  next
    case False
    then have "1 \<le> unat left - 1" using d unat_eq_0 [of "left - 1"] by linarith
    then show ?thesis using False 0 l d by (simp add: lhd_periods_def) linarith
  qed
next
  case (Suc n)
  with assms(1) obtain j where j: "n = 0" "left = - of_nat j" "(e + lhd_reporting R + 1) * period + j \<le> r0 + lhd_requests R"
    by (auto simp: lhd_periods_def)
  have "period + j \<le> (e + lhd_reporting R + 1) * period + j" by simp
  then have "j < 2 ^ 63" using j(3) assms(2) requests_le [of R] by linarith
  note d = below_zero_dec [OF this]
  have "lhd_resetting (add_mset LH_Done R) = Suc n" "lhd_reporting (add_mset LH_Done R) = lhd_reporting R"
    "lhd_requests (add_mset LH_Done R) = Suc (lhd_requests R)"
    using Suc by (simp_all add:)
  moreover have "left - 1 \<noteq> 0" "left - 1 = - of_nat (Suc j)" using d j(2) by simp_all
  ultimately show ?thesis using j(1,3) by (simp only: lhd_periods_def if_False nat.case) (intro conjI exI [of _ "Suc j"]; simp)
qed

lemma lhd_reset_periods:
  assumes "lhd_periods r0 e left (add_mset LH_Reset R)"
  shows "lhd_periods r0 e REQS_PER_RECONFIG (add_mset LH_Load R)"
  using assms period_pos by (auto simp: lhd_periods_def)

lemma lhd_report_periods:
  assumes "lhd_periods r0 e left (add_mset pl R)"
  shows "pl = LH_Load \<Longrightarrow> lhd_periods r0 e left (add_mset (LH_Store n) R)"
    "pl = LH_Store n \<Longrightarrow> lhd_periods r0 e left (add_mset LH_Output R)"
    "pl = LH_Output \<Longrightarrow> lhd_periods r0 (e + 1) left (add_mset LH_Done R)"
    "pl = LH_Output \<Longrightarrow> lhd_periods r0 e left (add_mset LH_Done R)"
    "pl = LH_Stamp \<Longrightarrow> lhd_periods r0 e left (add_mset LH_Count R)"
  using assms by (auto simp: lhd_periods_def split: nat.splits intro: order.trans [rotated])

interpretation lhd_periods: threads "lhd_request_step K k" "lhd_request_inv r0 e0 t0" for K k r0 e0 t0
proof (unfold_locales, goal_cases)
  case (1 p R s p' s')
  have i: "lhd_periods r0 (length (lhd_events s) - e0) (next_reconfiguration s) (add_mset p R)" "e0 \<le> length (lhd_events s)"
      "size R + 1 < 2 ^ 63" "r0 < period" "lhd_timestamp s = t0 + of_nat (lhd_stamped (add_mset p R))"
    using 1(1) by (simp_all add: lhd_request_inv_def)
  show ?case
  proof (cases p)
    case LH_Count
    then show ?thesis using 1(2) i lhd_count_periods [OF i(1) [unfolded LH_Count]]
      by (auto simp: lhd_request_inv_def Let_def split: if_split_asm)
  next
    case LH_Reset
    then show ?thesis using 1(2) i lhd_reset_periods [OF i(1) [unfolded LH_Reset]]
      by (auto simp: lhd_request_inv_def)
  next
    case LH_Output
    then show ?thesis using 1(2) i lhd_report_periods(3,4) [OF i(1) LH_Output]
      by (auto simp: lhd_request_inv_def Suc_diff_le)
  qed (use 1(2) i lhd_report_periods [OF i(1)] in \<open>auto simp: lhd_request_inv_def\<close>)
qed

section \<open>Runs\<close>

abbreviation lhd_done :: "lhd_place \<Rightarrow> bool" where
  "lhd_done pl \<equiv> pl = LH_Done"

lemma lhd_waiting_counts:
  assumes "\<forall>pl \<in># T. pl = LH_Stamp"
  shows "lhd_resetting T = 0" "lhd_reporting T = 0" "lhd_stamped T = 0" "lhd_requests T = 0"
  using assms by (auto simp: lhd_resetting_def lhd_reporting_def lhd_stamped_def lhd_requests_def intro!: threads_at_none)

lemma lhd_done_stamped: "\<forall>pl \<in># T. lhd_done pl \<Longrightarrow> lhd_stamped T = size T"
  by (induction T) (auto simp: lhd_stamped_def)

text \<open>
  C10: when any number of CPUs count requests at the same time, the clock advances by
  exactly the number of requests, at most one thread at a time is about to reset the counter of
  requests left, and the events submitted and under way number no more than the periods of
  2^20 requests completed, counting those of the period before the run. Some run ends all threads.
\<close>

theorem concurrent_requests_counted:
  assumes "\<forall>pl \<in># T. pl = LH_Stamp" "size T < 2 ^ 63"
    and "1 \<le> unat (next_reconfiguration s)" "unat (next_reconfiguration s) \<le> period"
  shows "(\<exists>T' s'. interleave (lhd_request_step K k) (T, s) (T', s') \<and> (\<forall>pl \<in># T'. lhd_done pl))
    \<and> (\<forall>T' s'. interleave (lhd_request_step K k) (T, s) (T', s') \<longrightarrow>
        lhd_resetting T' \<le> 1
        \<and> (length (lhd_events s') - length (lhd_events s) + lhd_reporting T') * period
            \<le> (period - unat (next_reconfiguration s)) + lhd_requests T'
        \<and> ((\<forall>pl \<in># T'. lhd_done pl) \<longrightarrow> lhd_timestamp s' = lhd_timestamp s + of_nat (size T)
            \<and> 1 \<le> unat (next_reconfiguration s') \<and> unat (next_reconfiguration s') \<le> period))"
proof (intro conjI allI impI)
  show "\<exists>T' s'. interleave (lhd_request_step K k) (T, s) (T', s') \<and> (\<forall>pl \<in># T'. lhd_done pl)"
    by (intro interleave_completes lhd_request_ends) (use assms(1) in blast)
next
  fix T' s' assume run: "interleave (lhd_request_step K k) (T, s) (T', s')"
  let ?r0 = "period - unat (next_reconfiguration s)" and ?e0 = "length (lhd_events s)"
  have "lhd_request_inv ?r0 ?e0 (lhd_timestamp s) T s"
    using assms lhd_waiting_counts [OF assms(1)] by (auto simp: lhd_request_inv_def lhd_periods_def)
  with run have inv: "lhd_request_inv ?r0 ?e0 (lhd_timestamp s) T' s'" by (rule lhd_periods.interleave_inv)
  then have p: "lhd_periods ?r0 (length (lhd_events s') - ?e0) (next_reconfiguration s') T'"
    by (simp add: lhd_request_inv_def)
  show "lhd_resetting T' \<le> 1" using p by (auto simp: lhd_periods_def split: nat.splits)
  show "(length (lhd_events s') - ?e0 + lhd_reporting T') * period \<le> ?r0 + lhd_requests T'"
    using p by (auto simp: lhd_periods_def split: nat.splits)
  assume d: "\<forall>pl \<in># T'. lhd_done pl"
  then show "lhd_timestamp s' = lhd_timestamp s + of_nat (size T)"
    using inv lhd_done_stamped [OF d] interleave_size [OF run] by (simp add: lhd_request_inv_def)
  have "lhd_resetting T' = 0" using d by (auto simp: lhd_resetting_def intro!: threads_at_none)
  then show "1 \<le> unat (next_reconfiguration s')" "unat (next_reconfiguration s') \<le> period"
    using p by (auto simp: lhd_periods_def)
qed

text \<open>The period of \<open>demo_lhd\<close> has counted one request; two more are counted at the same time.\<close>

theorem concurrent_requests_counted_witness:
  "\<exists>T' s'. interleave (lhd_request_step list_kfuncs demo_kernel) ({#LH_Stamp, LH_Stamp#}, demo_lhd) (T', s')
     \<and> lhd_timestamp s' = 3"
proof -
  have d: "1 \<le> unat (next_reconfiguration demo_lhd)" "unat (next_reconfiguration demo_lhd) \<le> period"
      "lhd_timestamp demo_lhd = 1"
    by (simp_all add: demo_lhd_simps REQS_PER_RECONFIG_def)
  show ?thesis
    using concurrent_requests_counted [OF _ _ d(1,2), of "{#LH_Stamp, LH_Stamp#}" list_kfuncs demo_kernel] d(3) by fastforce
qed

end
