(* ===== verification/Mglru_Threads.thy ===== *)
theory Mglru_Threads
  imports Interleaving Mglru
begin

text \<open>
  The hooks of \<open>policies/cache_ext_mglru.bpf.c\<close> on several CPUs at the same time. Evictions age
  the generations under a spin lock; everything else runs without it: the hooks for added,
  accessed and evicted folios and the callback of the scan. The counts of pages, the tier
  statistics and the folio's counter change by atomic operations, one per step here. Shown:
  one thread alone does what the hook does; the lock admits one thread at a time and keeps
  the window of generations; the page counts sum to the tracked folios again when all
  threads have returned, while the count of a single generation may be left wrong.

  In one step here: what the lock holder reads of the page counts and writes of the
  statistics, and the ghost entry's lookup and deletion. An entry that is deleted after it was
  found reads as one that was not found, and what is written to it is lost. The metadata of an
  eviction is per CPU, so a callback carries its own. The kernel reports a folio as added or
  evicted by one CPU at a time.
\<close>

section \<open>The hooks, one access of the memory at a time\<close>

record 'k mglru_mem =
  mm_kernel :: 'k
  mm_lock :: bool
  mm_state :: mglru_state

definition mm_lr :: "(mglru_global_metadata \<Rightarrow> mglru_global_metadata) \<Rightarrow> 'k mglru_mem \<Rightarrow> 'k mglru_mem" where
  "mm_lr g m = m\<lparr>mm_state := (mm_state m)\<lparr>lrugen := g (lrugen (mm_state m))\<rparr>\<rparr>"

definition mm_meta :: "((u64, mglru_folio_metadata) hmap \<Rightarrow> (u64, mglru_folio_metadata) hmap) \<Rightarrow>
    'k mglru_mem \<Rightarrow> 'k mglru_mem" where
  "mm_meta g m = m\<lparr>mm_state := (mm_state m)\<lparr>mg_meta := g (mg_meta (mm_state m))\<rparr>\<rparr>"

abbreviation mm_find :: "'k mglru_mem \<Rightarrow> folio \<Rightarrow> mglru_folio_metadata option" where
  "mm_find m f \<equiv> map_of (mg_meta (mm_state m)) (folio_addr f)"

text \<open>The locked region of an eviction; the sequence numbers it starts from and the generations
  it picks are local.\<close>

datatype age_place = GA_Lock | GA_Read | GA_Age u64 u64 | GA_Drop u64 u64 | GA_Gens | GA_Unlock u32 u32
  | GA_Done u32 u32

fun mglru_age_step :: "age_place \<Rightarrow> 'k mglru_mem \<Rightarrow> age_place \<times> 'k mglru_mem" where
  "mglru_age_step GA_Lock m = (if mm_lock m then (GA_Lock, m) else (GA_Read, m\<lparr>mm_lock := True\<rparr>))"
| "mglru_age_step GA_Read m = (GA_Age (min_seq (lrugen (mm_state m))) (max_seq (lrugen (mm_state m))), m)"
| "mglru_age_step (GA_Age mn mx) m =
     (GA_Drop mn mx, mm_lr (\<lambda>lr. if should_run_aging lr mx then snd (try_to_inc_max_seq lr) else lr) m)"
| "mglru_age_step (GA_Drop mn mx) m =
     (GA_Gens, mm_lr (\<lambda>lr. if MIN_NR_GENS < mx - mn then snd (try_to_inc_min_seq lr) else lr) m)"
| "mglru_age_step GA_Gens m =
     (let oldest_gen = lru_gen_from_seq (min_seq (lrugen (mm_state m)));
          next_gen = (oldest_gen + 1) mod MAX_NR_GENS
      in (GA_Unlock oldest_gen next_gen, m))"
| "mglru_age_step (GA_Unlock g n) m = (GA_Done g n, m\<lparr>mm_lock := False\<rparr>)"
| "mglru_age_step (GA_Done g n) m = (GA_Done g n, m)"

text \<open>The callback of the scan.\<close>

datatype scan_place = CB_Enter eviction_metadata | CB_Test eviction_metadata | CB_Protect eviction_metadata s32
  | CB_Leave eviction_metadata | CB_Join eviction_metadata | CB_Store eviction_metadata | CB_Verdict cb_ret

fun mglru_scan_step :: "folio \<Rightarrow> scan_place \<Rightarrow> 'k mglru_mem \<Rightarrow> scan_place \<times> 'k mglru_mem" where
  "mglru_scan_step f (CB_Enter ev) m =
     (case mm_find m f of None \<Rightarrow> (CB_Verdict EVICT_NODE, m) | Some _ \<Rightarrow> (CB_Test ev, m))"
| "mglru_scan_step f (CB_Test ev) m =
     (case mm_find m f of
        None \<Rightarrow> (CB_Verdict EVICT_NODE, m)
      | Some meta \<Rightarrow>
          let threshold = (ucast (tier_threshold ev) :: s32);
              tier = lru_tier_from_refs (ucast (mg_accesses meta))
          in if threshold <s tier then (CB_Protect ev tier, m)
             else if folio_test_locked f \<or> folio_test_writeback f \<or> folio_test_dirty f then (CB_Leave ev, m)
             else (CB_Verdict EVICT_NODE, m))"
| "mglru_scan_step f (CB_Protect ev tier) m =
     (CB_Leave ev, mm_lr (\<lambda>lr. update_protected_stat lr tier (folio_nr_pages f)) m)"
| "mglru_scan_step f (CB_Leave ev) m =
     (CB_Join ev, mm_lr (\<lambda>lr. update_nr_pages_stat lr (ucast (curr_gen ev)) (scast (- (ucast (folio_nr_pages f) :: s32)))) m)"
| "mglru_scan_step f (CB_Join ev) m =
     (CB_Store ev, mm_lr (\<lambda>lr. update_nr_pages_stat lr (ucast (next_gen ev)) (scast (ucast (folio_nr_pages f) :: s32))) m)"
| "mglru_scan_step f (CB_Store ev) m =
     (CB_Verdict CONTINUE_ITER, mm_meta (hmap_modify (folio_addr f) (\<lambda>d. d\<lparr>mg_gen := next_gen ev\<rparr>)) m)"
| "mglru_scan_step f (CB_Verdict r) m = (CB_Verdict r, m)"

text \<open>The hook for accesses.\<close>

datatype ref_place = AC_Enter | AC_Add | AC_Done

fun mglru_ref_step :: "folio \<Rightarrow> ref_place \<Rightarrow> 'k mglru_mem \<Rightarrow> ref_place \<times> 'k mglru_mem" where
  "mglru_ref_step f AC_Enter m =
     (if \<not> mglru_is_folio_relevant (mm_state m) (Some f) then (AC_Done, m)
      else case mm_find m f of None \<Rightarrow> (AC_Done, m) | Some _ \<Rightarrow> (AC_Add, m))"
| "mglru_ref_step f AC_Add m =
     (AC_Done, mm_meta (hmap_modify (folio_addr f) (\<lambda>d. d\<lparr>mg_accesses := mg_accesses d + 1\<rparr>)) m)"
| "mglru_ref_step f AC_Done m = (AC_Done, m)"

text \<open>The hook for added folios. It reads the two sequence numbers without the lock.\<close>

datatype add_place = AD_Enter | AD_Min | AD_Max u64 | AD_Gen u64 u64 | AD_Store u32 | AD_Count u32
  | AD_Ghost u32 | AD_Refault u32 s32 | AD_List u32 | AD_Done

fun mglru_add_step :: "('k, mglru_state) kfuncs \<Rightarrow> folio \<Rightarrow> add_place \<Rightarrow> 'k mglru_mem \<Rightarrow> add_place \<times> 'k mglru_mem" where
  "mglru_add_step K f AD_Enter m =
     (if \<not> mglru_is_folio_relevant (mm_state m) (Some f) \<or> folio_test_unevictable f then (AD_Done, m) else (AD_Min, m))"
| "mglru_add_step K f AD_Min m = (AD_Max (min_seq (lrugen (mm_state m))), m)"
| "mglru_add_step K f (AD_Max mn) m = (AD_Gen mn (max_seq (lrugen (mm_state m))), m)"
| "mglru_add_step K f (AD_Gen mn mx) m =
     (let s = mm_state m;
          gen = lru_gen_from_seq (lru_gen_add_seq (s\<lparr>lrugen := (lrugen s)\<lparr>min_seq := mn, max_seq := mx\<rparr>\<rparr>) f)
      in (if gen_within_limits gen then AD_Store gen else AD_Done, m))"
| "mglru_add_step K f (AD_Store gen) m =
     (let (ret, meta) = hmap_update MAX_NR_FOLIOS (kf_map_err K (mm_kernel m) (folio_addr f)) (folio_addr f)
            \<lparr>mg_accesses = 1, mg_gen = ucast gen\<rparr> (mg_meta (mm_state m))
      in (if ret \<noteq> 0 then AD_Done else AD_Count gen, mm_meta (\<lambda>_. meta) m))"
| "mglru_add_step K f (AD_Count gen) m =
     (AD_Ghost gen, mm_lr (\<lambda>lr. update_nr_pages_stat lr gen (folio_nr_pages f)) m)"
| "mglru_add_step K f (AD_Ghost gen) m =
     (let (ret, s) = mg_folio_in_ghost f (mm_state m)
      in (if 0 \<le>s ret then AD_Refault gen ret else AD_List gen, m\<lparr>mm_state := s\<rparr>))"
| "mglru_add_step K f (AD_Refault gen tier) m = (AD_List gen, mm_lr (\<lambda>lr. update_refaulted_stat lr tier 1) m)"
| "mglru_add_step K f (AD_List gen) m =
     (AD_Done, m\<lparr>mm_kernel := snd (kf_list_add K (mglru_lists (mm_state m) ! unat gen) f (mm_kernel m))\<rparr>)"
| "mglru_add_step K f AD_Done m = (AD_Done, m)"

text \<open>The hook for evicted folios.\<close>

datatype del_place = EV_Enter | EV_Tier | EV_Ghost s32 | EV_Stat s32 | EV_Gen | EV_Pages u32 | EV_Delete | EV_Done

fun mglru_del_step :: "('k, mglru_state) kfuncs \<Rightarrow> folio \<Rightarrow> del_place \<Rightarrow> 'k mglru_mem \<Rightarrow> del_place \<times> 'k mglru_mem" where
  "mglru_del_step K f EV_Enter m =
     (if \<not> mglru_is_folio_relevant (mm_state m) (Some f) then (EV_Done, m)
      else case mm_find m f of None \<Rightarrow> (EV_Done, m) | Some _ \<Rightarrow> (EV_Tier, m))"
| "mglru_del_step K f EV_Tier m =
     (case mm_find m f of
        None \<Rightarrow> (EV_Done, m)
      | Some meta \<Rightarrow> (EV_Ghost (lru_tier_from_refs (ucast (mg_accesses meta))), m))"
| "mglru_del_step K f (EV_Ghost tier) m =
     (EV_Stat tier, m\<lparr>mm_state := insert_ghost_entry_for_folio K (mm_kernel m) f tier (mm_state m)\<rparr>)"
| "mglru_del_step K f (EV_Stat tier) m = (EV_Gen, mm_lr (\<lambda>lr. update_evicted_stat lr tier 1) m)"
| "mglru_del_step K f EV_Gen m =
     (case mm_find m f of None \<Rightarrow> (EV_Done, m) | Some meta \<Rightarrow> (EV_Pages (ucast (mg_gen meta)), m))"
| "mglru_del_step K f (EV_Pages gen) m =
     (EV_Delete, mm_lr (\<lambda>lr. update_nr_pages_stat lr gen (- folio_nr_pages f)) m)"
| "mglru_del_step K f EV_Delete m = (EV_Done, mm_meta (\<lambda>h. snd (hmap_delete (folio_addr f) h)) m)"
| "mglru_del_step K f EV_Done m = (EV_Done, m)"

datatype mglru_thread = Aging age_place | Scanning folio scan_place | Referring folio ref_place
  | Adding folio add_place | Removing folio del_place

fun mglru_thread_step :: "('k, mglru_state) kfuncs \<Rightarrow> mglru_thread \<Rightarrow> 'k mglru_mem \<Rightarrow> mglru_thread \<times> 'k mglru_mem" where
  "mglru_thread_step K (Aging pl) m = apfst Aging (mglru_age_step pl m)"
| "mglru_thread_step K (Scanning f pl) m = apfst (Scanning f) (mglru_scan_step f pl m)"
| "mglru_thread_step K (Referring f pl) m = apfst (Referring f) (mglru_ref_step f pl m)"
| "mglru_thread_step K (Adding f pl) m = apfst (Adding f) (mglru_add_step K f pl m)"
| "mglru_thread_step K (Removing f pl) m = apfst (Removing f) (mglru_del_step K f pl m)"

section \<open>One thread alone\<close>

lemma aging_alone:
  assumes "\<not> mm_lock m"
  shows "thread_alone (mglru_thread_step K) 6 (Aging GA_Lock, m) =
    (let lr = mglru_advance (lrugen (mm_state m)); g = lru_gen_from_seq (min_seq lr)
     in (Aging (GA_Done g ((g + 1) mod MAX_NR_GENS)), mm_lr mglru_advance m))"
  using assms by (cases m) (simp add: eval_nat_numeral mm_lr_def mglru_advance_def Let_def)

lemma scanning_alone:
  "\<exists>n. thread_alone (mglru_thread_step K) n (Scanning f (CB_Enter (mglru_percpu s)), m\<lparr>mm_state := s\<rparr>) =
     (Scanning f (CB_Verdict (fst (mglru_iter_fn k i f s))),
      m\<lparr>mm_state := (snd (mglru_iter_fn k i f s))\<lparr>mglru_percpu := mglru_percpu s\<rparr>\<rparr>)"
  by (intro exI [of _ 6])
    (simp add: eval_nat_numeral mm_lr_def mm_meta_def mglru_iter_fn_def mglru_promote_def Let_def split: option.split)

lemma referring_alone:
  "thread_alone (mglru_thread_step K) 2 (Referring f AC_Enter, m) =
     (Referring f AC_Done, m\<lparr>mm_state := snd (mglru_folio_accessed f k (mm_state m))\<rparr>)"
  by (simp add: eval_nat_numeral mm_meta_def mglru_folio_accessed_def folio_inc_refs_def split: option.split)

lemma adding_alone:
  "thread_alone (mglru_thread_step K) 10 (Adding f AD_Enter, m) =
     (Adding f AD_Done, let (k, s) = mglru_folio_added K f (mm_kernel m) (mm_state m) in m\<lparr>mm_kernel := k, mm_state := s\<rparr>)"
  by (simp add: eval_nat_numeral mm_lr_def mm_meta_def mglru_folio_added_def lru_gen_add_folio_def mg_folio_in_ghost_def
      Let_def split: option.split prod.split)

lemma removing_alone:
  "thread_alone (mglru_thread_step K) 7 (Removing f EV_Enter, m) =
     (Removing f EV_Done, let (k, s) = mglru_folio_evicted K f (mm_kernel m) (mm_state m) in m\<lparr>mm_kernel := k, mm_state := s\<rparr>)"
  by (simp add: eval_nat_numeral mm_lr_def mm_meta_def mglru_folio_evicted_def insert_ghost_entry_for_folio_def
      Let_def split: option.split prod.split)

section \<open>What every interleaving keeps\<close>

text \<open>The threads in the locked region, those that add or evict the folio at an address, and those
  between the two accesses that keep the page counts and the map of the folios in step.\<close>

definition critical :: "mglru_thread \<Rightarrow> bool" where
  "critical t \<longleftrightarrow> (case t of Aging GA_Lock \<Rightarrow> False | Aging (GA_Done _ _) \<Rightarrow> False | Aging _ \<Rightarrow> True | _ \<Rightarrow> False)"

definition reports :: "u64 \<Rightarrow> mglru_thread \<Rightarrow> bool" where
  "reports a t \<longleftrightarrow> (case t of Adding f _ \<Rightarrow> folio_addr f = a | Removing f _ \<Rightarrow> folio_addr f = a | _ \<Rightarrow> False)"

definition uncounted :: "mglru_thread \<Rightarrow> bool" where
  "uncounted t \<longleftrightarrow> (case t of
     Scanning _ (CB_Join _) \<Rightarrow> True | Adding _ (AD_Count _) \<Rightarrow> True | Removing _ EV_Delete \<Rightarrow> True | _ \<Rightarrow> False)"

text \<open>What a thread holds in its local variables.\<close>

definition ev_ok :: "eviction_metadata \<Rightarrow> bool" where
  "ev_ok ev \<longleftrightarrow> valid_gen (ucast (curr_gen ev)) \<and> valid_gen (ucast (next_gen ev))"

fun scan_local :: "scan_place \<Rightarrow> bool" where
  "scan_local (CB_Enter ev) = ev_ok ev"
| "scan_local (CB_Test ev) = ev_ok ev"
| "scan_local (CB_Protect ev _) = ev_ok ev"
| "scan_local (CB_Leave ev) = ev_ok ev"
| "scan_local (CB_Join ev) = ev_ok ev"
| "scan_local (CB_Store ev) = ev_ok ev"
| "scan_local (CB_Verdict _) = True"

fun age_local :: "u64 \<Rightarrow> u64 \<Rightarrow> age_place \<Rightarrow> bool" where
  "age_local lo hi (GA_Age mn mx) \<longleftrightarrow> mn = lo \<and> mx = hi"
| "age_local lo hi (GA_Drop mn mx) \<longleftrightarrow> mx - mn \<in> {2, 3} \<and> (mx - mn = 3 \<longrightarrow> hi - lo = 3)"
| "age_local lo hi (GA_Unlock g n) \<longleftrightarrow> valid_gen g \<and> valid_gen n \<and> g \<noteq> n"
| "age_local lo hi (GA_Done g n) \<longleftrightarrow> valid_gen g \<and> valid_gen n \<and> g \<noteq> n"
| "age_local lo hi _ \<longleftrightarrow> True"

fun add_local :: "bool \<Rightarrow> add_place \<Rightarrow> bool" where
  "add_local tracked (AD_Store g) \<longleftrightarrow> \<not> tracked \<and> valid_gen g"
| "add_local tracked (AD_Count g) \<longleftrightarrow> valid_gen g"
| "add_local tracked (AD_Ghost g) \<longleftrightarrow> True"
| "add_local tracked (AD_Refault g _) \<longleftrightarrow> True"
| "add_local tracked (AD_List g) \<longleftrightarrow> True"
| "add_local tracked AD_Done \<longleftrightarrow> True"
| "add_local tracked _ \<longleftrightarrow> \<not> tracked"

fun del_local :: "bool \<Rightarrow> del_place \<Rightarrow> bool" where
  "del_local tracked EV_Enter \<longleftrightarrow> True"
| "del_local tracked EV_Done \<longleftrightarrow> True"
| "del_local tracked (EV_Pages g) \<longleftrightarrow> tracked \<and> valid_gen g"
| "del_local tracked _ \<longleftrightarrow> tracked"

fun local_ok :: "u64 \<Rightarrow> u64 \<Rightarrow> u64 set \<Rightarrow> mglru_thread \<Rightarrow> bool" where
  "local_ok lo hi D (Aging pl) = age_local lo hi pl"
| "local_ok lo hi D (Scanning f pl) = scan_local pl"
| "local_ok lo hi D (Referring f pl) = True"
| "local_ok lo hi D (Adding f pl) = add_local (folio_addr f \<in> D) pl"
| "local_ok lo hi D (Removing f pl) = del_local (folio_addr f \<in> D) pl"

abbreviation mm_lrugen :: "'k mglru_mem \<Rightarrow> mglru_global_metadata" where
  "mm_lrugen m \<equiv> lrugen (mm_state m)"

abbreviation mm_tracked :: "'k mglru_mem \<Rightarrow> u64 set" where
  "mm_tracked m \<equiv> dom (map_of (mg_meta (mm_state m)))"

abbreviation mm_window :: "'k mglru_mem \<Rightarrow> u64" where
  "mm_window m \<equiv> max_seq (mm_lrugen m) - min_seq (mm_lrugen m)"

abbreviation holds :: "'k mglru_mem \<Rightarrow> mglru_thread \<Rightarrow> bool" where
  "holds m t \<equiv> local_ok (min_seq (mm_lrugen m)) (max_seq (mm_lrugen m)) (mm_tracked m) t"

text \<open>The memory, \<open>n\<close> pages being uncounted.\<close>

definition mm_ok :: "nat \<Rightarrow> 'k mglru_mem \<Rightarrow> bool" where
  "mm_ok n m \<longleftrightarrow> hmap_ok MAX_NR_FOLIOS (mg_meta (mm_state m))
     \<and> (\<forall>x d. map_of (mg_meta (mm_state m)) x = Some d \<longrightarrow> valid_gen (ucast (mg_gen d)))
     \<and> lr_shape (mm_lrugen m) \<and> mm_window m \<in> {2, 3}
     \<and> sum_list (nr_pages (mm_lrugen m)) + of_nat n = of_nat (length (mg_meta (mm_state m)))"

lemma mm_lr_simps [simp]:
  "mm_lock (mm_lr g m) = mm_lock m" "lrugen (mm_state (mm_lr g m)) = g (mm_lrugen m)"
  "mg_meta (mm_state (mm_lr g m)) = mg_meta (mm_state m)"
  by (simp_all add: mm_lr_def)

lemma mm_meta_simps [simp]:
  "mm_lock (mm_meta g m) = mm_lock m" "lrugen (mm_state (mm_meta g m)) = lrugen (mm_state m)"
  "mg_meta (mm_state (mm_meta g m)) = g (mg_meta (mm_state m))"
  by (simp_all add: mm_meta_def)

lemma stats_frame [simp]:
  "min_seq (update_refaulted_stat lr t x) = min_seq lr" "max_seq (update_refaulted_stat lr t x) = max_seq lr"
  "min_seq (update_evicted_stat lr t x) = min_seq lr" "max_seq (update_evicted_stat lr t x) = max_seq lr"
  "min_seq (update_protected_stat lr t x) = min_seq lr" "max_seq (update_protected_stat lr t x) = max_seq lr"
  "min_seq (update_nr_pages_stat lr g x) = min_seq lr" "max_seq (update_nr_pages_stat lr g x) = max_seq lr"
  by (simp_all add: update_refaulted_stat_def update_evicted_stat_def update_protected_stat_def update_nr_pages_stat_def)

lemma mm_ok_stats:
  assumes "mm_ok n m"
  shows "mm_ok n (mm_lr (\<lambda>lr. update_refaulted_stat lr t x) m)" "mm_ok n (mm_lr (\<lambda>lr. update_evicted_stat lr t x) m)"
    "mm_ok n (mm_lr (\<lambda>lr. update_protected_stat lr t x) m)"
  using assms by (simp_all add: mm_ok_def lr_shape_def update_refaulted_stat_def update_evicted_stat_def update_protected_stat_def)

lemma mm_ok_pages:
  assumes "mm_ok n m" "valid_gen g" "of_nat n' + x = (of_nat n :: s64)"
  shows "mm_ok n' (mm_lr (\<lambda>lr. update_nr_pages_stat lr g x) m)"
proof -
  let ?sum = "sum_list (nr_pages (mm_lrugen m))"
  have "?sum + x + of_nat n' = ?sum + (of_nat n' + x)" by (simp add: ac_simps)
  also have "\<dots> = of_nat (length (mg_meta (mm_state m)))" using assms(1) by (simp only: assms(3) mm_ok_def)
  finally have "?sum + x + of_nat n' = of_nat (length (mg_meta (mm_state m)))" .
  then show ?thesis
    using assms(1,2) valid_gen_less [of g]
    by (simp add: mm_ok_def lr_shape_def update_nr_pages_stat_def sum_list_add_at)
qed

lemma mm_ok_frame:
  "mm_ok n (m\<lparr>mm_lock := b\<rparr>) = mm_ok n m" "mm_ok n (m\<lparr>mm_kernel := k\<rparr>) = mm_ok n m"
  by (simp_all add: mm_ok_def)

lemma mm_ok_lr:
  assumes "mm_ok n m" "\<And>k. lr_ok (mm_lrugen m) k \<Longrightarrow> lr_ok (g (mm_lrugen m)) k"
  shows "mm_ok n (mm_lr g m)"
proof -
  have "lr_ok (mm_lrugen m) (unat (sum_list (nr_pages (mm_lrugen m))))"
    using assms(1) by (simp add: mm_ok_def lr_ok_def)
  then have "lr_ok (g (mm_lrugen m)) (unat (sum_list (nr_pages (mm_lrugen m))))" by (rule assms(2))
  then show ?thesis using assms(1) by (simp add: mm_ok_def lr_ok_def)
qed

lemma mm_ok_modify:
  assumes "mm_ok n m" "\<And>d. valid_gen (ucast (mg_gen d)) \<Longrightarrow> valid_gen (ucast (mg_gen (h d)))"
  shows "mm_ok n (mm_meta (hmap_modify a h) m)"
  using assms by (auto simp: mm_ok_def bpf_map_simps split: if_splits)

lemma mm_ok_update:
  assumes "mm_ok n m" "a \<notin> mm_tracked m" "hmap_update MAX_NR_FOLIOS e a d (mg_meta (mm_state m)) = (ret, h)"
    and "valid_gen (ucast (mg_gen d))"
  shows "mm_ok (if ret = 0 then Suc n else n) (mm_meta (\<lambda>_. h) m)"
    and "dom (map_of h) = (if ret = 0 then insert a (mm_tracked m) else mm_tracked m)"
proof -
  have none: "map_of (mg_meta (mm_state m)) a = None" using assms(2) by auto
  have fail: "h = mg_meta (mm_state m)" if "ret \<noteq> 0"
    using assms(3) that by (auto simp: hmap_update_def split: if_splits)
  have ok: "h = AList.update a d (mg_meta (mm_state m)) \<and> length (mg_meta (mm_state m)) < MAX_NR_FOLIOS" if "ret = 0"
    using assms(3) that none by (auto simp: hmap_update_def E2BIG_def split: if_splits)
  show "mm_ok (if ret = 0 then Suc n else n) (mm_meta (\<lambda>_. h) m)"
    using assms(1,4) fail ok none
    by (cases "ret = 0")
      (auto simp: mm_ok_def hmap_update_new_ok length_AList_update bpf_map_simps algebra_simps split: if_splits)
  show "dom (map_of h) = (if ret = 0 then insert a (mm_tracked m) else mm_tracked m)"
    using fail ok by (cases "ret = 0") (auto simp: bpf_map_simps split: if_splits)
qed

lemma mm_ok_delete:
  assumes "mm_ok (Suc n) m" "a \<in> mm_tracked m"
  shows "mm_ok n (mm_meta (\<lambda>h. snd (hmap_delete a h)) m)"
    and "dom (map_of (snd (hmap_delete a (mg_meta (mm_state m))))) = mm_tracked m - {a}"
proof -
  obtain d where d: "map_of (mg_meta (mm_state m)) a = Some d" using assms(2) by auto
  have k: "distinct (map fst (mg_meta (mm_state m)))" using assms(1) by (simp add: mm_ok_def hmap_ok_def)
  have len: "Suc (length (AList.delete a (mg_meta (mm_state m)))) = length (mg_meta (mm_state m))"
    using hmap_count_delete [OF k d, of "\<lambda>_. True"] by (simp add: hmap_count_True)
  have "sum_list (nr_pages (mm_lrugen m)) + of_nat (Suc n) = of_nat (Suc (length (AList.delete a (mg_meta (mm_state m)))))"
    using assms(1) by (simp only: len mm_ok_def)
  then have "sum_list (nr_pages (mm_lrugen m)) + of_nat n = of_nat (length (AList.delete a (mg_meta (mm_state m))))"
    by simp
  moreover have "hmap_ok MAX_NR_FOLIOS (AList.delete a (mg_meta (mm_state m)))"
    using assms(1) d hmap_delete_ok [of MAX_NR_FOLIOS "mg_meta (mm_state m)" a]
    by (simp add: mm_ok_def hmap_delete_def)
  ultimately show "mm_ok n (mm_meta (\<lambda>h. snd (hmap_delete a h)) m)"
    using assms(1) d by (simp add: mm_ok_def hmap_delete_def bpf_map_simps)
  show "dom (map_of (snd (hmap_delete a (mg_meta (mm_state m))))) = mm_tracked m - {a}"
    using d by (auto simp: hmap_delete_def bpf_map_simps split: if_splits)
qed

section \<open>What each step keeps\<close>

lemma next_gen_valid:
  assumes "valid_gen g"
  shows "valid_gen ((g + 1) mod MAX_NR_GENS)" "g \<noteq> (g + 1) mod MAX_NR_GENS"
proof -
  have "unat g \<in> {0, 1, 2, 3}" using valid_gen_less [OF assms] by auto
  then have "g \<in> {0, 1, 2, 3}" by (simp add: word_unat_eq_iff)
  then show "valid_gen ((g + 1) mod MAX_NR_GENS)" "g \<noteq> (g + 1) mod MAX_NR_GENS"
    by (auto simp: valid_gen_def MAX_NR_GENS_def word_le_nat_alt)
qed

lemma aging_keeps:
  assumes "mglru_age_step pl m = (pl', m')" "mm_ok n m"
    and "age_local (min_seq (mm_lrugen m)) (max_seq (mm_lrugen m)) pl"
  shows "mm_ok n m'" "age_local (min_seq (mm_lrugen m')) (max_seq (mm_lrugen m')) pl'"
    "mm_tracked m' = mm_tracked m"
proof -
  have w: "mm_window m \<in> {2, 3}" using assms(2) by (simp add: mm_ok_def)
  let ?g = "\<lambda>mx lr. if should_run_aging lr mx then snd (try_to_inc_max_seq lr) else lr"
  let ?h = "\<lambda>mn mx lr. if MIN_NR_GENS < mx - mn then snd (try_to_inc_min_seq lr) else lr"
  have young: "lr_ok (?g (max_seq lr) lr) k
      \<and> (max_seq lr - min_seq lr = 3 \<longrightarrow> max_seq (?g (max_seq lr) lr) - min_seq (?g (max_seq lr) lr) = 3)"
    if "lr_ok lr k" for lr k
    using that inc_max_two [OF that] inc_max_three [OF that] by (auto simp: lr_ok_def)
  have old: "lr_ok (?h mn mx lr) k"
    if "lr_ok lr k" "mx - mn \<in> {2, 3}" "mx - mn = 3 \<longrightarrow> max_seq lr - min_seq lr = 3" for mn mx lr k
    using that lr_ok_inc_min [OF that(1)] by (auto simp: MIN_NR_GENS_def)
  show "mm_ok n m'"
    using assms w by (cases pl) (auto simp: mm_ok_frame Let_def split: if_split_asm intro!: mm_ok_lr dest: young old)
  have "lr_ok (mm_lrugen m) (unat (sum_list (nr_pages (mm_lrugen m))))"
    using assms(2) by (simp add: mm_ok_def lr_ok_def)
  note three = inc_max_three [OF this, THEN conjunct2]
  show "age_local (min_seq (mm_lrugen m')) (max_seq (mm_lrugen m')) pl'"
    using assms(1,3) w by (cases pl) (auto simp: Let_def gen_less next_gen_valid split: if_split_asm dest: three)
  show "mm_tracked m' = mm_tracked m"
    using assms(1) by (cases pl) (auto simp: Let_def split: if_split_asm)
qed

lemma scan_keeps:
  assumes "mglru_scan_step f pl m = (pl', m')" "scan_local pl"
    and "mm_ok ((if uncounted (Scanning f pl) then 1 else 0) + n) m"
  shows "mm_ok ((if uncounted (Scanning f pl') then 1 else 0) + n) m'" "scan_local pl'"
    "mm_tracked m' = mm_tracked m" "mm_lock m' = mm_lock m"
    "min_seq (mm_lrugen m') = min_seq (mm_lrugen m)" "max_seq (mm_lrugen m') = max_seq (mm_lrugen m)"
proof -
  have one: "(scast (- (ucast (folio_nr_pages f) :: s32)) :: s64) = - 1" "(scast (ucast (folio_nr_pages f) :: s32) :: s64) = 1"
    by (simp_all add: folio_nr_pages_def)
  show "mm_ok ((if uncounted (Scanning f pl') then 1 else 0) + n) m'"
    using assms by (cases pl)
      (auto simp: Let_def one uncounted_def ev_ok_def split: option.split_asm if_split_asm
        intro!: mm_ok_stats mm_ok_pages mm_ok_modify)
  show "scan_local pl'" "mm_tracked m' = mm_tracked m" "mm_lock m' = mm_lock m"
    "min_seq (mm_lrugen m') = min_seq (mm_lrugen m)" "max_seq (mm_lrugen m') = max_seq (mm_lrugen m)"
    using assms(1,2) by (cases pl; auto simp: Let_def bpf_map_simps split: option.split_asm if_split_asm)+
qed

lemma ref_keeps:
  assumes "mglru_ref_step f pl m = (pl', m')"
  shows "mm_ok n m \<Longrightarrow> mm_ok n m'" "mm_tracked m' = mm_tracked m" "mm_lock m' = mm_lock m"
    "min_seq (mm_lrugen m') = min_seq (mm_lrugen m)" "max_seq (mm_lrugen m') = max_seq (mm_lrugen m)"
  using assms by (cases pl; auto simp: bpf_map_simps split: option.split_asm if_split_asm intro!: mm_ok_modify)+

lemma mg_folio_in_ghost_frame [simp]:
  "mg_meta (snd (mg_folio_in_ghost f s)) = mg_meta s" "lrugen (snd (mg_folio_in_ghost f s)) = lrugen s"
  by (simp_all add: mg_folio_in_ghost_def split: option.split)

lemma insert_ghost_frame [simp]:
  "mg_meta (insert_ghost_entry_for_folio K k f t s) = mg_meta s" "lrugen (insert_ghost_entry_for_folio K k f t s) = lrugen s"
  by (simp_all add: insert_ghost_entry_for_folio_def)

lemma mm_ok_state:
  "mg_meta s = mg_meta (mm_state m) \<Longrightarrow> lrugen s = lrugen (mm_state m) \<Longrightarrow> mm_ok n (m\<lparr>mm_state := s\<rparr>) = mm_ok n m"
  by (simp add: mm_ok_def)

lemma add_keeps:
  assumes "mglru_add_step K f pl m = (pl', m')" "add_local (folio_addr f \<in> mm_tracked m) pl"
    and "mm_ok ((if uncounted (Adding f pl) then 1 else 0) + n) m"
  shows "mm_ok ((if uncounted (Adding f pl') then 1 else 0) + n) m'"
    "add_local (folio_addr f \<in> mm_tracked m') pl'"
    "mm_tracked m' \<in> {mm_tracked m, insert (folio_addr f) (mm_tracked m)}" "mm_lock m' = mm_lock m"
    "min_seq (mm_lrugen m') = min_seq (mm_lrugen m)" "max_seq (mm_lrugen m') = max_seq (mm_lrugen m)"
proof -
  have one: "folio_nr_pages f = 1" by (simp add: folio_nr_pages_def)
  have store: "mm_ok ((if uncounted (Adding f pl') then 1 else 0) + n) m'
      \<and> mm_tracked m' \<in> {mm_tracked m, insert (folio_addr f) (mm_tracked m)} \<and> mm_lock m' = mm_lock m
      \<and> mm_lrugen m' = mm_lrugen m \<and> add_local b pl'"
    if "pl = AD_Store g" for g b
  proof -
    obtain ret h where u: "hmap_update MAX_NR_FOLIOS (kf_map_err K (mm_kernel m) (folio_addr f)) (folio_addr f)
        \<lparr>mg_accesses = 1, mg_gen = ucast g\<rparr> (mg_meta (mm_state m)) = (ret, h)" by force
    have "mm_ok n m" "folio_addr f \<notin> mm_tracked m" "valid_gen g" using assms(2,3) that by (simp_all add: uncounted_def)
    then show ?thesis
      using mm_ok_update [of n m "folio_addr f", OF _ _ u] assms(1) that u
      by (cases "ret = 0") (auto simp: uncounted_def simp del: domIff del: equalityI)
  qed
  show "mm_ok ((if uncounted (Adding f pl') then 1 else 0) + n) m'"
  proof (cases "\<exists>g. pl = AD_Store g")
    case False
    then show ?thesis
      using assms by (cases pl)
        (auto simp: Let_def one uncounted_def mm_ok_state mm_ok_frame split_def split: if_split_asm
          intro!: mm_ok_stats mm_ok_pages)
  qed (use store in blast)
  show "add_local (folio_addr f \<in> mm_tracked m') pl'"
  proof (cases "\<exists>g. pl = AD_Store g")
    case False
    then show ?thesis
      using assms(1,2) by (cases pl) (auto simp: Let_def gen_less split_def split: if_split_asm)
  qed (use store in blast)
  have "mm_tracked m' \<in> {mm_tracked m, insert (folio_addr f) (mm_tracked m)} \<and> mm_lock m' = mm_lock m
      \<and> min_seq (mm_lrugen m') = min_seq (mm_lrugen m) \<and> max_seq (mm_lrugen m') = max_seq (mm_lrugen m)"
  proof (cases "\<exists>g. pl = AD_Store g")
    case True
    then show ?thesis using store by (elim exE) (simp del: domIff)
  next
    case False
    then show ?thesis using assms(1) by (cases pl) (auto simp: Let_def split_def simp del: domIff split: if_split_asm)
  qed
  then show "mm_tracked m' \<in> {mm_tracked m, insert (folio_addr f) (mm_tracked m)}" "mm_lock m' = mm_lock m"
    "min_seq (mm_lrugen m') = min_seq (mm_lrugen m)" "max_seq (mm_lrugen m') = max_seq (mm_lrugen m)"
    by blast+
qed

lemma del_keeps:
  assumes "mglru_del_step K f pl m = (pl', m')" "del_local (folio_addr f \<in> mm_tracked m) pl"
    and "mm_ok ((if uncounted (Removing f pl) then 1 else 0) + n) m"
  shows "mm_ok ((if uncounted (Removing f pl') then 1 else 0) + n) m'"
    "del_local (folio_addr f \<in> mm_tracked m') pl'"
    "mm_tracked m' \<in> {mm_tracked m, mm_tracked m - {folio_addr f}}" "mm_lock m' = mm_lock m"
    "min_seq (mm_lrugen m') = min_seq (mm_lrugen m)" "max_seq (mm_lrugen m') = max_seq (mm_lrugen m)"
proof -
  have one: "folio_nr_pages f = 1" by (simp add: folio_nr_pages_def)
  have g: "valid_gen (ucast (mg_gen d))" if "mm_find m f = Some d" for d
    using assms(3) that by (auto simp: mm_ok_def)
  have "mm_ok (Suc n) m \<Longrightarrow> folio_addr f \<in> mm_tracked m \<Longrightarrow>
      mm_ok n (mm_meta (\<lambda>h. snd (hmap_delete (folio_addr f) h)) m)" by (rule mm_ok_delete)
  then show "mm_ok ((if uncounted (Removing f pl') then 1 else 0) + n) m'"
    using assms by (cases pl)
      (auto simp: one uncounted_def mm_ok_state split: option.split_asm if_split_asm intro!: mm_ok_stats mm_ok_pages)
  show "del_local (folio_addr f \<in> mm_tracked m') pl'"
    using assms(1,2) by (cases pl) (auto simp: g split: option.split_asm if_split_asm)
  show "mm_tracked m' \<in> {mm_tracked m, mm_tracked m - {folio_addr f}}"
    using assms mm_ok_delete(2) [of n m "folio_addr f"]
    by (cases pl) (auto simp: uncounted_def simp del: domIff del: equalityI split: option.split_asm if_split_asm)
  show "mm_lock m' = mm_lock m"
    "min_seq (mm_lrugen m') = min_seq (mm_lrugen m)" "max_seq (mm_lrugen m') = max_seq (mm_lrugen m)"
    using assms(1) by (cases pl; auto split: option.split_asm if_split_asm)+
qed

section \<open>The invariant\<close>

lemma aging_lock:
  assumes "mglru_age_step pl m = (pl', m')"
  shows "critical (Aging pl) \<Longrightarrow> mm_lock m \<Longrightarrow> mm_lock m' = critical (Aging pl')"
    "\<not> critical (Aging pl) \<Longrightarrow> mm_lrugen m' = mm_lrugen m
      \<and> (if critical (Aging pl') then \<not> mm_lock m \<and> mm_lock m' else mm_lock m' = mm_lock m)"
  using assms by (cases pl; auto simp: critical_def Let_def split: if_split_asm)+

text \<open>What the others hold: a thread outside the locked region does not depend on the sequence numbers,
  and only the thread that adds or evicts a folio depends on whether it is tracked.\<close>

lemma local_outside: "\<not> critical t \<Longrightarrow> local_ok lo hi D t \<Longrightarrow> local_ok lo' hi' D t"
  by (cases t) (auto simp: critical_def elim!: age_local.elims split: age_place.splits)

lemma local_elsewhere: "\<not> reports a t \<Longrightarrow> D' \<in> {D, insert a D, D - {a}} \<Longrightarrow> local_ok lo hi D t \<Longrightarrow> local_ok lo hi D' t"
  by (cases t) (auto simp: reports_def)

lemma reports_kept: "mglru_thread_step K p m = (p', m') \<Longrightarrow> reports a p' = reports a p"
  by (cases p) (auto simp: reports_def apfst_def map_prod_def split: prod.split_asm)

definition mglru_threads_inv :: "mglru_thread multiset \<Rightarrow> 'k mglru_mem \<Rightarrow> bool" where
  "mglru_threads_inv T m \<longleftrightarrow> mm_ok (threads_at uncounted T) m
     \<and> threads_at critical T = (if mm_lock m then 1 else 0)
     \<and> (\<forall>a. threads_at (reports a) T \<le> 1) \<and> (\<forall>t \<in># T. holds m t)"

interpretation mglru_threads: threads "mglru_thread_step K" mglru_threads_inv for K
proof (unfold_locales, goal_cases)
  case (1 p R m p' m')
  let ?u = "threads_at uncounted R"
  have mm: "mm_ok ((if uncounted p then 1 else 0) + ?u) m"
    and lock: "(if critical p then 1 else 0) + threads_at critical R = (if mm_lock m then 1 else 0)"
    and reps: "\<forall>a. (if reports a p then 1 else 0) + threads_at (reports a) R \<le> 1"
    and own: "holds m p" and others: "\<forall>t \<in># R. holds m t"
    using 1(1) by (simp_all add: mglru_threads_inv_def)
  have lone: "\<not> reports a t" if "t \<in># R" "reports a p" for a t
    using reps [rule_format, of a] that threads_at_zeroD [of "reports a" R t] by auto
  have reps': "\<forall>a. threads_at (reports a) (add_mset p' R) \<le> 1"
    using reps reports_kept [OF 1(2)] by simp
  have "mm_ok ((if uncounted p' then 1 else 0) + ?u) m' \<and> holds m' p'
    \<and> (if critical p' then 1 else 0) + threads_at critical R = (if mm_lock m' then 1 else 0)
    \<and> (\<forall>t \<in># R. holds m' t)"
  proof (cases p)
    case (Aging pl)
    then obtain pl' where s: "mglru_age_step pl m = (pl', m')" "p' = Aging pl'"
      using 1(2) by (auto simp: apfst_def map_prod_def split: prod.split_asm)
    have "mm_ok ?u m" "age_local (min_seq (mm_lrugen m)) (max_seq (mm_lrugen m)) pl"
      using mm own Aging by (simp_all add: uncounted_def)
    note keeps = aging_keeps [OF s(1) this]
    have "holds m' t" if "t \<in># R" for t
    proof (cases "critical p")
      case True
      then have "\<not> critical t" using lock that threads_at_zeroD [of critical R t] by (simp split: if_split_asm)
      then show ?thesis using others that local_outside by (metis keeps(3))
    next
      case False
      then have "mm_lrugen m' = mm_lrugen m" using aging_lock(2) [OF s(1)] Aging by simp
      then show ?thesis using others that by (simp only: keeps(3))
    qed
    moreover have "(if critical p' then 1 else 0) + threads_at critical R = (if mm_lock m' then 1 else 0)"
      using lock aging_lock [OF s(1)] Aging s(2) by (auto split: if_split_asm)
    ultimately show ?thesis using keeps(1,2) s(2) by (simp add: uncounted_def)
  next
    case (Scanning f pl)
    then obtain pl' where s: "mglru_scan_step f pl m = (pl', m')" "p' = Scanning f pl'"
      using 1(2) by (auto simp: apfst_def map_prod_def split: prod.split_asm)
    have "scan_local pl" "mm_ok ((if uncounted (Scanning f pl) then 1 else 0) + ?u) m" using own mm Scanning by simp_all
    note keeps = scan_keeps [OF s(1) this]
    show ?thesis using keeps others lock s(2) Scanning by (simp add: critical_def)
  next
    case (Referring f pl)
    then obtain pl' where s: "mglru_ref_step f pl m = (pl', m')" "p' = Referring f pl'"
      using 1(2) by (auto simp: apfst_def map_prod_def split: prod.split_asm)
    show ?thesis using ref_keeps [OF s(1)] mm others lock s(2) Referring by (simp add: critical_def uncounted_def)
  next
    case (Adding f pl)
    then obtain pl' where s: "mglru_add_step K f pl m = (pl', m')" "p' = Adding f pl'"
      using 1(2) by (auto simp: apfst_def map_prod_def split: prod.split_asm)
    have "add_local (folio_addr f \<in> mm_tracked m) pl" "mm_ok ((if uncounted (Adding f pl) then 1 else 0) + ?u) m"
      using own mm Adding by simp_all
    note keeps = add_keeps [OF s(1) this]
    have "holds m' t" if "t \<in># R" for t
    proof -
      have "\<not> reports (folio_addr f) t" using lone [OF that, of "folio_addr f"] Adding by (simp add: reports_def)
      then have "local_ok (min_seq (mm_lrugen m)) (max_seq (mm_lrugen m)) (mm_tracked m') t"
        by (rule local_elsewhere [OF _ _ others [rule_format, OF that]]) (use keeps(3) in blast)
      then show ?thesis by (simp only: keeps(5,6))
    qed
    then show ?thesis using keeps lock s(2) Adding by (simp add: critical_def)
  next
    case (Removing f pl)
    then obtain pl' where s: "mglru_del_step K f pl m = (pl', m')" "p' = Removing f pl'"
      using 1(2) by (auto simp: apfst_def map_prod_def split: prod.split_asm)
    have "del_local (folio_addr f \<in> mm_tracked m) pl" "mm_ok ((if uncounted (Removing f pl) then 1 else 0) + ?u) m"
      using own mm Removing by simp_all
    note keeps = del_keeps [OF s(1) this]
    have "holds m' t" if "t \<in># R" for t
    proof -
      have "\<not> reports (folio_addr f) t" using lone [OF that, of "folio_addr f"] Removing by (simp add: reports_def)
      then have "local_ok (min_seq (mm_lrugen m)) (max_seq (mm_lrugen m)) (mm_tracked m') t"
        by (rule local_elsewhere [OF _ _ others [rule_format, OF that]]) (use keeps(3) in blast)
      then show ?thesis by (simp only: keeps(5,6))
    qed
    then show ?thesis using keeps lock s(2) Removing by (simp add: critical_def)
  qed
  with reps' show ?case by (simp add: mglru_threads_inv_def)
qed

section \<open>Runs\<close>

text \<open>A thread at the entry of its hook; a scan has been given generations that exist, and a folio
  is reported as added while it is not tracked.\<close>

fun mglru_entered :: "'k mglru_mem \<Rightarrow> mglru_thread \<Rightarrow> bool" where
  "mglru_entered m (Aging GA_Lock) = True"
| "mglru_entered m (Scanning f (CB_Enter ev)) = ev_ok ev"
| "mglru_entered m (Referring f AC_Enter) = True"
| "mglru_entered m (Adding f AD_Enter) = (mm_find m f = None)"
| "mglru_entered m (Removing f EV_Enter) = True"
| "mglru_entered m _ = False"

fun mglru_returned :: "mglru_thread \<Rightarrow> bool" where
  "mglru_returned (Aging pl) \<longleftrightarrow> (\<exists>g n. pl = GA_Done g n)"
| "mglru_returned (Scanning f pl) \<longleftrightarrow> (\<exists>r. pl = CB_Verdict r)"
| "mglru_returned (Referring f pl) \<longleftrightarrow> pl = AC_Done"
| "mglru_returned (Adding f pl) \<longleftrightarrow> pl = AD_Done"
| "mglru_returned (Removing f pl) \<longleftrightarrow> pl = EV_Done"

lemma mglru_entered_local:
  assumes "mglru_entered m t"
  shows "holds m t" "\<not> critical t" "\<not> uncounted t"
  using assms by (induction m t rule: mglru_entered.induct) (auto simp: critical_def uncounted_def)

lemma mglru_returned_local: "mglru_returned t \<Longrightarrow> \<not> critical t \<and> \<not> uncounted t"
  by (cases t) (auto simp: critical_def uncounted_def)

lemma mglru_thread_ends:
  assumes "mglru_entered m0 t" "\<not> mm_lock m"
  shows "\<exists>n t' m'. thread_alone (mglru_thread_step K) n (t, m) = (t', m') \<and> mglru_returned t' \<and> \<not> mm_lock m'"
  using assms
proof (induction m0 t rule: mglru_entered.induct)
  case (1 m0)
  then show ?case using aging_alone [of m K] by (intro exI [of _ 6]) (simp add: Let_def)
next
  case (2 m0 f ev)
  then show ?case by (intro exI [of _ 6]) (simp add: eval_nat_numeral Let_def split: option.split)
next
  case (3 m0 f)
  then show ?case by (intro exI [of _ 2]) (simp add: referring_alone [where k = "()"])
next
  case (4 m0 f)
  then show ?case by (intro exI [of _ 10]) (simp only: adding_alone, simp split: prod.split)
next
  case (5 m0 f)
  then show ?case by (intro exI [of _ 7]) (simp only: removing_alone, simp split: prod.split)
qed simp_all

text \<open>
  C8: when any number of CPUs age the generations, scan, and report accesses, new folios and
  evicted folios at the same time, no folio being added or evicted by two of them, at most
  one of them is in the locked region, the sequence numbers stay two or three apart, and when
  all have returned the lock is free, every tracked folio is in one of the four generations and
  the page counts sum to the number of tracked folios. Some run ends all threads.
\<close>

theorem concurrent_generations:
  assumes "\<forall>t \<in># T. mglru_entered m t" "\<forall>a. threads_at (reports a) T \<le> 1"
    and "mglru_inv (mm_state m)" "\<not> mm_lock m"
  shows "(\<exists>T' m'. interleave (mglru_thread_step K) (T, m) (T', m') \<and> (\<forall>t \<in># T'. mglru_returned t))
    \<and> (\<forall>T' m'. interleave (mglru_thread_step K) (T, m) (T', m') \<longrightarrow>
        threads_at critical T' \<le> 1 \<and> mm_window m' \<in> {2, 3}
        \<and> ((\<forall>t \<in># T'. mglru_returned t) \<longrightarrow> \<not> mm_lock m'
            \<and> (\<forall>g n. Aging (GA_Done g n) \<in># T' \<longrightarrow> valid_gen g \<and> valid_gen n \<and> g \<noteq> n)
            \<and> (\<forall>x d. map_of (mg_meta (mm_state m')) x = Some d \<longrightarrow> valid_gen (ucast (mg_gen d)))
            \<and> sum_list (nr_pages (mm_lrugen m')) = of_nat (length (mg_meta (mm_state m')))))"
proof (intro conjI allI impI)
  show "\<exists>T' m'. interleave (mglru_thread_step K) (T, m) (T', m') \<and> (\<forall>t \<in># T'. mglru_returned t)"
    using interleave_each [where Q = "\<lambda>_ m. \<not> mm_lock m" and P = mglru_returned and g = id and i = "()" and T = T and m = m]
      mglru_thread_ends assms(1,4) by blast
next
  fix T' m' assume run: "interleave (mglru_thread_step K) (T, m) (T', m')"
  have "threads_at uncounted T = 0" "threads_at critical T = 0"
    using assms(1) mglru_entered_local by (blast intro: threads_at_none)+
  then have "mglru_threads_inv T m"
    using assms mglru_entered_local(1)
    by (auto simp: mglru_threads_inv_def mm_ok_def mglru_inv_def lr_ok_def simp del: domIff)
  with run have inv: "mglru_threads_inv T' m'" by (rule mglru_threads.interleave_inv)
  then show "threads_at critical T' \<le> 1" "mm_window m' \<in> {2, 3}"
    by (simp_all add: mglru_threads_inv_def mm_ok_def)
  assume "\<forall>t \<in># T'. mglru_returned t"
  then have "threads_at uncounted T' = 0" "threads_at critical T' = 0"
    using mglru_returned_local by (blast intro: threads_at_none)+
  then show "\<not> mm_lock m'" "sum_list (nr_pages (mm_lrugen m')) = of_nat (length (mg_meta (mm_state m')))"
    "map_of (mg_meta (mm_state m')) x = Some d \<Longrightarrow> valid_gen (ucast (mg_gen d))" for x d
    using inv by (auto simp: mglru_threads_inv_def mm_ok_def split: if_split_asm)
  fix g n assume "Aging (GA_Done g n) \<in># T'"
  then have "holds m' (Aging (GA_Done g n))" using inv by (auto simp only: mglru_threads_inv_def)
  then show "valid_gen g" "valid_gen n" "g \<noteq> n" by simp_all
qed

text \<open>Two evictions, a scan and an access of page 2, and page 3 being added.\<close>

definition demo_mm :: "list_kernel mglru_mem" where
  "demo_mm = \<lparr>mm_kernel = demo_kernel, mm_lock = False, mm_state = demo_mglru\<rparr>"

definition demo_ev :: eviction_metadata where
  "demo_ev = \<lparr>curr_gen = 0, next_gen = 1, iter_reached = 0, tier_threshold = 0\<rparr>"

lemma demo_ev_ok: "ev_ok demo_ev"
  by (simp add: ev_ok_def demo_ev_def valid_gen_def MAX_NR_GENS_def word_le_nat_alt)

theorem concurrent_generations_witness:
  "\<exists>T' m'. interleave (mglru_thread_step list_kfuncs)
      ({#Aging GA_Lock, Aging GA_Lock, Scanning (clean_folio 2) (CB_Enter demo_ev), Referring (clean_folio 2) AC_Enter,
         Adding (clean_folio 3) AD_Enter#}, demo_mm) (T', m')
     \<and> sum_list (nr_pages (mm_lrugen m')) = of_nat (length (mg_meta (mm_state m')))"
proof -
  let ?T = "{#Aging GA_Lock, Aging GA_Lock, Scanning (clean_folio 2) (CB_Enter demo_ev), Referring (clean_folio 2) AC_Enter,
      Adding (clean_folio 3) AD_Enter#}"
  have e: "\<forall>t \<in># ?T. mglru_entered demo_mm t"
    by (simp add: demo_ev_ok demo_mm_def demo_mglru_simps clean_folio_def)
  have r: "\<forall>a. threads_at (reports a) ?T \<le> 1" by (simp add: reports_def)
  show ?thesis
    using concurrent_generations [OF e r, of list_kfuncs] demo_mglru_inv by (simp add: demo_mm_def) metis
qed

text \<open>The run: the scan up to its last store, the eviction up to its last access, the two.\<close>

abbreviation race_schedule :: "nat list" where
  "race_schedule \<equiv> [0, 0, 0, 0, 1, 1, 1, 1, 1, 0, 0, 1, 1]"

lemma add_at_back: "n < length xs \<Longrightarrow> add_at n (- x) (add_at n x xs) = xs" for xs :: "s64 list"
  by (simp add: add_at_def)

lemma relevant_frame:
  "relevant (s\<lparr>lrugen := lr\<rparr>) f = relevant s f" "relevant (s\<lparr>mg_meta := h\<rparr>) f = relevant s f"
  "relevant (s\<lparr>mglru_percpu := ev\<rparr>) f = relevant s f" for s :: mglru_state
  by (simp_all add: relevant_def inode_in_watchlist_def inode_get_client_tag_def)

lemma pages_frame:
  "nr_pages (update_evicted_stat lr t x) = nr_pages lr" "nr_pages (update_protected_stat lr t x) = nr_pages lr"
  by (simp_all add: update_evicted_stat_def update_protected_stat_def)

lemma add_at_around:
  fixes xs :: "s64 list"
  assumes "i \<noteq> j" "i < length xs"
  shows "add_at i (- 1) (add_at j 1 (add_at i (- 1) xs)) = add_at j 1 (add_at i (- 2) xs)"
  using assms by (cases "j < length xs") (auto simp: add_at_def nth_list_update intro!: nth_equalityI)

lemma deleted_gone: "map_of (snd (hmap_delete a h)) a = None"
  by (simp add: hmap_delete_def bpf_map_simps split: option.split)

lemma race_schedule_result:
  assumes "relevant (mm_state m) f" "mm_find m f = Some d" "mg_gen d = curr_gen ev" "ev_ok ev"
    and "(ucast (tier_threshold ev) :: s32) <s lru_tier_from_refs (ucast (mg_accesses d))"
    and "length (nr_pages (mm_lrugen m)) = 4" "(ucast (curr_gen ev) :: u32) \<noteq> ucast (next_gen ev)"
  shows "\<exists>m'. run_schedule (mglru_thread_step K) race_schedule ([Scanning f (CB_Enter ev), Removing f EV_Enter], m)
      = ([Scanning f (CB_Verdict CONTINUE_ITER), Removing f EV_Done], m')
    \<and> mm_find m' f = None
    \<and> nr_pages (mm_lrugen m') = add_at (unat (ucast (next_gen ev) :: u32)) 1
      (add_at (unat (ucast (curr_gen ev) :: u32)) (- 2) (nr_pages (mm_lrugen m)))"
proof -
  have one: "folio_nr_pages f = 1" by (simp add: folio_nr_pages_def)
  have rel: "relevant (mm_state (mm_lr g m)) f = relevant (mm_state m) f" for g and m :: "'k mglru_mem"
    by (simp add: mm_lr_def relevant_frame)
  have "unat (ucast (curr_gen ev) :: u32) \<noteq> unat (ucast (next_gen ev) :: u32)" using assms(7) by (simp add: word_unat_eq_iff)
  then show ?thesis
    using assms valid_gen_less [of "ucast (curr_gen ev)"]
    by (simp add: Let_def one ev_ok_def bpf_map_simps update_nr_pages_stat_def pages_frame rel deleted_gone add_at_around)
qed

text \<open>
  C12: a scan that keeps a tracked folio of its generation and the hook for its eviction, one
  after the other in either order, take one page from the count of that generation and
  leave the others. At the same time the hook can read the generation before the scan stores
  the new one: then two pages are taken from it and the next generation keeps a page no folio has.
\<close>

theorem promotion_races_eviction:
  assumes "relevant (mm_state m) f" "mm_find m f = Some d" "mg_gen d = curr_gen ev" "ev = mglru_percpu (mm_state m)"
    and "ev_ok ev" "(ucast (tier_threshold ev) :: s32) <s lru_tier_from_refs (ucast (mg_accesses d))"
    and "cur = unat (ucast (curr_gen ev) :: u32)" "nxt = unat (ucast (next_gen ev) :: u32)" "cur \<noteq> nxt"
    and "length (nr_pages (mm_lrugen m)) = 4"
  shows "nr_pages (lrugen (snd (mglru_folio_evicted K f k (snd (mglru_iter_fn k i f (mm_state m))))))
      = add_at cur (- 1) (nr_pages (mm_lrugen m))
    \<and> nr_pages (lrugen (snd (mglru_iter_fn k i f (snd (mglru_folio_evicted K f k (mm_state m))))))
      = add_at cur (- 1) (nr_pages (mm_lrugen m))
    \<and> (\<exists>T' m'. interleave (mglru_thread_step K) ({#Scanning f (CB_Enter ev), Removing f EV_Enter#}, m) (T', m')
        \<and> (\<forall>t \<in># T'. mglru_returned t) \<and> mm_find m' f = None
        \<and> nr_pages (mm_lrugen m') = add_at nxt 1 (add_at cur (- 2) (nr_pages (mm_lrugen m))))"
proof (intro conjI)
  let ?xs = "nr_pages (mm_lrugen m)"
  have v: "cur < length ?xs" "nxt < length ?xs" "valid_gen (ucast (curr_gen ev))" "valid_gen (ucast (next_gen ev))"
    using assms(5,7,8,10) valid_gen_less by (simp_all add: ev_ok_def)
  have one: "folio_nr_pages f = 1" by (simp add: folio_nr_pages_def)
  show "nr_pages (lrugen (snd (mglru_folio_evicted K f k (snd (mglru_iter_fn k i f (mm_state m)))))) = add_at cur (- 1) ?xs"
    using assms v
    by (simp add: mglru_iter_fn_def mglru_promote_def mglru_folio_evicted_def Let_def bpf_map_simps one pages_frame relevant_frame deleted_gone
        update_nr_pages_stat_def add_at_back)
  show "nr_pages (lrugen (snd (mglru_iter_fn k i f (snd (mglru_folio_evicted K f k (mm_state m)))))) = add_at cur (- 1) ?xs"
    using assms v
    by (simp add: mglru_iter_fn_def mglru_promote_def mglru_folio_evicted_def Let_def bpf_map_simps one pages_frame relevant_frame deleted_gone
        update_nr_pages_stat_def)
  have "(ucast (curr_gen ev) :: u32) \<noteq> ucast (next_gen ev)" using assms(7-9) by auto
  then obtain m' where
    "run_schedule (mglru_thread_step K) race_schedule ([Scanning f (CB_Enter ev), Removing f EV_Enter], m)
      = ([Scanning f (CB_Verdict CONTINUE_ITER), Removing f EV_Done], m')"
    "mm_find m' f = None" "nr_pages (mm_lrugen m') = add_at nxt 1 (add_at cur (- 2) ?xs)"
    using race_schedule_result [OF assms(1-3,5,6,10), of K] assms(7,8) by blast
  then show "\<exists>T' m'. interleave (mglru_thread_step K) ({#Scanning f (CB_Enter ev), Removing f EV_Enter#}, m) (T', m')
        \<and> (\<forall>t \<in># T'. mglru_returned t) \<and> mm_find m' f = None
        \<and> nr_pages (mm_lrugen m') = add_at nxt 1 (add_at cur (- 2) ?xs)"
    using run_schedule_interleaves
    by (intro exI [of _ "{#Scanning f (CB_Verdict CONTINUE_ITER), Removing f EV_Done#}"] exI [of _ m']) fastforce
qed

theorem promotion_races_eviction_witness:
  "\<exists>T' m'. interleave (mglru_thread_step list_kfuncs)
      ({#Scanning (clean_folio 2) (CB_Enter demo_ev), Removing (clean_folio 2) EV_Enter#}, demo_mm) (T', m')
     \<and> (\<forall>t \<in># T'. mglru_returned t) \<and> mm_find m' (clean_folio 2) = None
     \<and> nr_pages (mm_lrugen m') = [- 1, 1, 0, 0]"
proof -
  let ?f = "clean_folio 2" and ?d = "\<lparr>mg_accesses = 5, mg_gen = 0\<rparr>"
  have h: "relevant (mm_state demo_mm) ?f" "mm_find demo_mm ?f = Some ?d" "mg_gen ?d = curr_gen demo_ev"
    "demo_ev = mglru_percpu (mm_state demo_mm)" "ev_ok demo_ev"
    "(ucast (tier_threshold demo_ev) :: s32) <s lru_tier_from_refs (ucast (mg_accesses ?d))"
    "length (nr_pages (mm_lrugen demo_mm)) = 4"
    by (simp_all add: demo_ev_ok) (simp_all add: demo_mm_def demo_mglru_simps demo_ev_def clean_folio_def folio_host_def demo_lr_def
        lru_tier_from_refs_def order_base_2_def word_sle_eq word_sless_alt)
  have e: "nr_pages (mm_lrugen demo_mm) = [1, 0, 0, 0]" "curr_gen demo_ev = 0" "next_gen demo_ev = 1"
    by (simp_all add: demo_mm_def demo_mglru_simps demo_lr_def demo_ev_def)
  show ?thesis
    using promotion_races_eviction [OF h(1-6) refl refl _ h(7), of list_kfuncs demo_kernel 0]
    by (simp add: e add_at_def)
qed

end
