(* ===== verification/Get_Scan_Threads.thy ===== *)
theory Get_Scan_Threads
  imports Interleaving Get_Scan
begin

text \<open>
  The hooks of \<open>policies/cache_ext_get_scan.bpf.c\<close> for added, accessed and evicted folios on
  several CPUs at the same time, and what becomes of the counter of scan pages. Shown: one
  thread alone does what the hook does; the counter never falls below the number of tracked
  folios that a scan inserted, and exceeds it at most by one per access to a folio that comes
  or goes meanwhile; that this happens.

  An update of the hash map replaces the element of a key, so a pointer may be to an element
  that is no longer in the map; elements are numbered by key. No store changes the mark of an
  element in place, so the hook for evicted folios reads it with the lookup. Every thread has
  its own view of the kernel: what list operations lock is up to the kernel, and no hook reads
  a list.
\<close>

section \<open>The hooks, one access of the memory at a time\<close>

record mixed_mem =
  xm_state :: mixed_state
  xm_elem :: "u64 \<Rightarrow> nat"

text \<open>The last place of the first hook records whether the store succeeded; the hook ignores it.\<close>

datatype insert_place = MA_Enter | MA_List bool u64 | MA_Count | MA_Store bool | MA_Done bool
datatype touch_place = MC_Enter | MC_Create | MC_Lookup | MC_Add nat | MC_Stamp nat | MC_Done
datatype drop_place = ME_Enter | ME_Lookup | ME_Delete bool | ME_Sub | ME_Done

definition xm_replace :: "u64 \<Rightarrow> (u64, scan_metadata) hmap \<Rightarrow> mixed_mem \<Rightarrow> mixed_mem" where
  "xm_replace a h m = \<lparr>xm_state = (xm_state m)\<lparr>mixed_meta := h\<rparr>, xm_elem = (xm_elem m)(a := xm_elem m a + 1)\<rparr>"

definition xm_modify :: "u64 \<Rightarrow> nat \<Rightarrow> (scan_metadata \<Rightarrow> scan_metadata) \<Rightarrow> mixed_mem \<Rightarrow> mixed_mem" where
  "xm_modify a e g m =
     (if xm_elem m a = e then m\<lparr>xm_state := (xm_state m)\<lparr>mixed_meta := hmap_modify a g (mixed_meta (xm_state m))\<rparr>\<rparr>
      else m)"

fun mixed_insert_step :: "('k, mixed_state) kfuncs \<Rightarrow> folio \<Rightarrow> 'k \<Rightarrow> insert_place \<Rightarrow> mixed_mem \<Rightarrow>
    'k \<times> insert_place \<times> mixed_mem" where
  "mixed_insert_step K f k MA_Enter m =
     (let s = xm_state m in
      if \<not> mixed_is_folio_relevant s (Some f) then (k, MA_Done True, m)
      else
        let touched_by_scan = is_scanning_pid K k s;
            list_type = (if touched_by_scan then LIST_FOR_SCANS else LIST_GENERAL);
            l = get_sampling_list s list_type
        in (k, if l = 0 then MA_Done True else MA_List touched_by_scan l, m))"
| "mixed_insert_step K f k (MA_List touched_by_scan l) m =
     (let (ret, k1) = kf_list_add_tail K l f k
      in (k1, if ret \<noteq> 0 then MA_Done True else if touched_by_scan then MA_Count else MA_Store False, m))"
| "mixed_insert_step K f k MA_Count m =
     (k, MA_Store True, m\<lparr>xm_state := (xm_state m)\<lparr>scan_pages := scan_pages (xm_state m) + 1\<rparr>\<rparr>)"
| "mixed_insert_step K f k (MA_Store touched_by_scan) m =
     (let key = folio_addr f;
          (ret, h) = hmap_update mixed_meta_cap (kf_map_err K k key) key
            \<lparr>sm_accesses = 1, sm_last_access_time = kf_ktime_get_ns K k, sm_touched_by_scan = touched_by_scan\<rparr>
            (mixed_meta (xm_state m))
      in if ret \<noteq> 0 then (k, MA_Done False, m) else (k, MA_Done True, xm_replace key h m))"
| "mixed_insert_step K f k (MA_Done r) m = (k, MA_Done r, m)"

fun mixed_touch_step :: "('k, mixed_state) kfuncs \<Rightarrow> folio \<Rightarrow> 'k \<Rightarrow> touch_place \<Rightarrow> mixed_mem \<Rightarrow>
    touch_place \<times> mixed_mem" where
  "mixed_touch_step K f k MC_Enter m =
     (if \<not> mixed_is_folio_relevant (xm_state m) (Some f) then (MC_Done, m)
      else case map_of (mixed_meta (xm_state m)) (folio_addr f) of
        None \<Rightarrow> (MC_Create, m)
      | Some _ \<Rightarrow> (MC_Add (xm_elem m (folio_addr f)), m))"
| "mixed_touch_step K f k MC_Create m =
     (let key = folio_addr f;
          (ret, h) = hmap_update mixed_meta_cap (kf_map_err K k key) key
            \<lparr>sm_accesses = 0, sm_last_access_time = 0, sm_touched_by_scan = False\<rparr> (mixed_meta (xm_state m))
      in if ret \<noteq> 0 then (MC_Done, m) else (MC_Lookup, xm_replace key h m))"
| "mixed_touch_step K f k MC_Lookup m =
     (case map_of (mixed_meta (xm_state m)) (folio_addr f) of
        None \<Rightarrow> (MC_Done, m)
      | Some _ \<Rightarrow> (MC_Add (xm_elem m (folio_addr f)), m))"
| "mixed_touch_step K f k (MC_Add e) m =
     (MC_Stamp e, xm_modify (folio_addr f) e (\<lambda>d. d\<lparr>sm_accesses := sm_accesses d + 1\<rparr>) m)"
| "mixed_touch_step K f k (MC_Stamp e) m =
     (MC_Done, xm_modify (folio_addr f) e (\<lambda>d. d\<lparr>sm_last_access_time := kf_ktime_get_ns K k\<rparr>) m)"
| "mixed_touch_step K f k MC_Done m = (MC_Done, m)"

fun mixed_drop_step :: "('k, mixed_state) kfuncs \<Rightarrow> folio \<Rightarrow> 'k \<Rightarrow> drop_place \<Rightarrow> mixed_mem \<Rightarrow>
    'k \<times> drop_place \<times> mixed_mem" where
  "mixed_drop_step K f k ME_Enter m = (let (ret, k1) = kf_list_del K f k in (k1, ME_Lookup, m))"
| "mixed_drop_step K f k ME_Lookup m =
     (k, ME_Delete (case map_of (mixed_meta (xm_state m)) (folio_addr f) of
           Some d \<Rightarrow> sm_touched_by_scan d | None \<Rightarrow> False), m)"
| "mixed_drop_step K f k (ME_Delete touched_by_scan) m =
     (k, if touched_by_scan then ME_Sub else ME_Done,
      xm_replace (folio_addr f) (snd (hmap_delete (folio_addr f) (mixed_meta (xm_state m)))) m)"
| "mixed_drop_step K f k ME_Sub m =
     (k, ME_Done, m\<lparr>xm_state := (xm_state m)\<lparr>scan_pages := scan_pages (xm_state m) - 1\<rparr>\<rparr>)"
| "mixed_drop_step K f k ME_Done m = (k, ME_Done, m)"

datatype 'k mixed_thread = Inserts folio 'k insert_place | Touches folio 'k touch_place | Drops folio 'k drop_place

fun mixed_thread_step :: "('k, mixed_state) kfuncs \<Rightarrow> 'k mixed_thread \<Rightarrow> mixed_mem \<Rightarrow> 'k mixed_thread \<times> mixed_mem" where
  "mixed_thread_step K (Inserts f k pl) m = (let (k', pl', m') = mixed_insert_step K f k pl m in (Inserts f k' pl', m'))"
| "mixed_thread_step K (Touches f k pl) m = (let (pl', m') = mixed_touch_step K f k pl m in (Touches f k pl', m'))"
| "mixed_thread_step K (Drops f k pl) m = (let (k', pl', m') = mixed_drop_step K f k pl m in (Drops f k' pl', m'))"

section \<open>One thread alone\<close>

lemma hmap_update_refused: "fst (hmap_update c e a v h) \<noteq> 0 \<Longrightarrow> snd (hmap_update c e a v h) = h"
  by (auto simp: hmap_update_def split: if_splits)

lemma inserting_alone:
  "\<exists>k' r m'. thread_alone (mixed_thread_step K) 4 (Inserts f k MA_Enter, m) = (Inserts f k' (MA_Done r), m')
     \<and> (k', xm_state m') = mixed_folio_added K f k (xm_state m)"
  by (simp add: eval_nat_numeral mixed_folio_added_def xm_replace_def hmap_update_def ex_bool_eq Let_def split: prod.split)

lemma touching_alone:
  "\<exists>m'. thread_alone (mixed_thread_step K) 5 (Touches f k MC_Enter, m) = (Touches f k MC_Done, m')
     \<and> (k, xm_state m') = mixed_folio_accessed K f k (xm_state m)"
  by (simp add: eval_nat_numeral mixed_folio_accessed_def xm_replace_def xm_modify_def hmap_update_def bpf_map_simps
      hmap_modify_twice Let_def split: option.split)

lemma dropping_alone:
  "\<exists>k' m'. thread_alone (mixed_thread_step K) 4 (Drops f k ME_Enter, m) = (Drops f k' ME_Done, m')
     \<and> (k', xm_state m') = mixed_folio_evicted K f k (xm_state m)"
  by (simp add: eval_nat_numeral mixed_folio_evicted_def xm_replace_def Let_def split: option.split prod.split)

section \<open>The counter and the marked entries\<close>

definition marks :: "mixed_mem \<Rightarrow> u64 set" where
  "marks m = {a. \<exists>d. map_of (mixed_meta (xm_state m)) a = Some d \<and> sm_touched_by_scan d}"

abbreviation xm_tracked :: "mixed_mem \<Rightarrow> u64 set" where
  "xm_tracked m \<equiv> dom (map_of (mixed_meta (xm_state m)))"

abbreviation xm_pages :: "mixed_mem \<Rightarrow> s64" where
  "xm_pages m \<equiv> scan_pages (xm_state m)"

lemma finite_marks: "finite (marks m)"
  unfolding marks_def by (rule finite_subset [OF _ finite_dom_map_of [of "mixed_meta (xm_state m)"]]) auto

lemma scan_count_marks: "hmap_ok mixed_meta_cap (mixed_meta (xm_state m)) \<Longrightarrow> scan_count (xm_state m) = card (marks m)"
  by (simp add: scan_count_def marks_def hmap_ok_def hmap_count_card)

text \<open>What the threads have still to do: store an entry that is counted, take a deleted entry
  off the counter; whether the store was refused; and, for an eviction about to delete, whether the mark
  it has read is no longer there.\<close>

definition comes :: "u64 \<Rightarrow> 'k mixed_thread \<Rightarrow> bool" where
  "comes a t \<longleftrightarrow> (case t of Inserts f _ _ \<Rightarrow> folio_addr f = a | Drops f _ _ \<Rightarrow> folio_addr f = a | _ \<Rightarrow> False)"

definition owing :: "'k mixed_thread \<Rightarrow> bool" where
  "owing t \<longleftrightarrow> (case t of Inserts _ _ (MA_Store True) \<Rightarrow> True | Drops _ _ ME_Sub \<Rightarrow> True | _ \<Rightarrow> False)"

definition refused :: "'k mixed_thread \<Rightarrow> bool" where
  "refused t \<longleftrightarrow> (case t of Inserts _ _ (MA_Done r) \<Rightarrow> \<not> r | _ \<Rightarrow> False)"

definition misread :: "u64 set \<Rightarrow> 'k mixed_thread \<Rightarrow> bool" where
  "misread M t \<longleftrightarrow> (case t of Drops f _ (ME_Delete True) \<Rightarrow> folio_addr f \<notin> M | _ \<Rightarrow> False)"

text \<open>An access to a folio outside of \<open>D\<close> that is past the creation of an entry.\<close>

definition late :: "u64 set \<Rightarrow> 'k mixed_thread \<Rightarrow> bool" where
  "late D t \<longleftrightarrow> (case t of Touches f _ pl \<Rightarrow> folio_addr f \<notin> D \<and> pl \<noteq> MC_Enter \<and> pl \<noteq> MC_Create | _ \<Rightarrow> False)"

definition mixed_local :: "u64 set \<Rightarrow> u64 set \<Rightarrow> 'k mixed_thread \<Rightarrow> bool" where
  "mixed_local D M t \<longleftrightarrow> (case t of
     Inserts f _ (MA_Done _) \<Rightarrow> True
   | Inserts f _ _ \<Rightarrow> folio_addr f \<notin> M
   | Touches f _ MC_Create \<Rightarrow> folio_addr f \<notin> D
   | Drops f _ (ME_Delete b) \<Rightarrow> folio_addr f \<in> M \<longrightarrow> b
   | _ \<Rightarrow> True)"

text \<open>\<open>D\<close> are tracked folios that none of the threads adds or evicts, \<open>n\<close> bounds the marks lost.\<close>

definition mixed_threads_inv :: "u64 set \<Rightarrow> 'k mixed_thread multiset \<Rightarrow> mixed_mem \<Rightarrow> bool" where
  "mixed_threads_inv D T m \<longleftrightarrow> hmap_ok mixed_meta_cap (mixed_meta (xm_state m)) \<and> D \<subseteq> xm_tracked m
     \<and> (\<forall>a. threads_at (comes a) T \<le> (if a \<in> D then 0 else 1)) \<and> (\<forall>t \<in># T. mixed_local D (marks m) t)
     \<and> (\<exists>n. xm_pages m = of_nat (card (marks m) + threads_at owing T + n)
          \<and> threads_at (misread (marks m)) T \<le> n \<and> n \<le> threads_at (late D) T + threads_at refused T)"

lemma misread_remove: "threads_at (misread (M - {a})) T \<le> threads_at (misread M) T + threads_at (comes a) T"
  by (rule threads_at_either) (auto simp: misread_def comes_def split: mixed_thread.splits drop_place.splits bool.splits)

lemma misread_insert: "threads_at (misread (insert a M)) T \<le> threads_at (misread M) T"
  by (rule threads_at_mono) (auto simp: misread_def split: mixed_thread.splits drop_place.splits bool.splits)

lemma local_remove: "mixed_local D M t \<Longrightarrow> mixed_local D (M - {a}) t"
  by (auto simp: mixed_local_def split: mixed_thread.splits insert_place.splits touch_place.splits drop_place.splits)

lemma local_insert: "mixed_local D M t \<Longrightarrow> \<not> comes a t \<Longrightarrow> mixed_local D (insert a M) t"
  by (auto simp: mixed_local_def comes_def split: mixed_thread.splits insert_place.splits touch_place.splits drop_place.splits)

lemma xm_modify_frame [simp]:
  assumes "\<And>d. sm_touched_by_scan (g d) = sm_touched_by_scan d"
  shows "marks (xm_modify a e g m) = marks m" "xm_tracked (xm_modify a e g m) = xm_tracked m"
    "xm_pages (xm_modify a e g m) = xm_pages m"
    "hmap_ok c (mixed_meta (xm_state (xm_modify a e g m))) = hmap_ok c (mixed_meta (xm_state m))"
  using assms by (auto simp: xm_modify_def marks_def bpf_map_simps hmap_ok_def split: if_splits)

lemma marks_pages [simp]:
  "marks (m\<lparr>xm_state := (xm_state m)\<lparr>scan_pages := x\<rparr>\<rparr>) = marks m"
  by (simp add: marks_def)

lemma xm_replace_frame [simp]:
  "xm_pages (xm_replace a h m) = xm_pages m" "mixed_meta (xm_state (xm_replace a h m)) = h"
  "marks (xm_replace a h m) = {a. \<exists>d. map_of h a = Some d \<and> sm_touched_by_scan d}"
  by (simp_all add: xm_replace_def marks_def)

lemma hmap_update_marks:
  assumes "hmap_update c e a v h = (0, h')"
  shows "{x. \<exists>d. map_of h' x = Some d \<and> P d} =
      (if P v then insert a {x. \<exists>d. map_of h x = Some d \<and> P d} else {x. \<exists>d. map_of h x = Some d \<and> P d} - {a})"
    "dom (map_of h') = insert a (dom (map_of h))"
  using assms by (auto simp: hmap_update_def E2BIG_def bpf_map_simps split: if_splits)

lemma hmap_delete_marks:
  "{x. \<exists>d. map_of (snd (hmap_delete a h)) x = Some d \<and> P d} = {x. \<exists>d. map_of h x = Some d \<and> P d} - {a}"
  "dom (map_of (snd (hmap_delete a h))) = dom (map_of h) - {a}"
  by (auto simp: hmap_delete_def bpf_map_simps split: option.splits if_splits)

section \<open>What each step keeps\<close>

abbreviation one_if :: "bool \<Rightarrow> nat" where "one_if b \<equiv> (if b then 1 else 0)"

lemma card_remove_one: "finite M \<Longrightarrow> card (M - {a}) + one_if (a \<in> M) = card M"
  using card_Suc_Diff1 [of M a] by (cases "a \<in> M") (simp_all del: card_Diff_singleton)

lemma mixed_flags [simp]:
  "comes a (Inserts f k i) \<longleftrightarrow> folio_addr f = a" "\<not> comes a (Touches f k t)" "comes a (Drops f k d) \<longleftrightarrow> folio_addr f = a"
  "owing (Inserts f k i) \<longleftrightarrow> i = MA_Store True" "\<not> owing (Touches f k t)" "owing (Drops f k d) \<longleftrightarrow> d = ME_Sub"
  "refused (Inserts f k i) \<longleftrightarrow> i = MA_Done False" "\<not> refused (Touches f k t)" "\<not> refused (Drops f k d)"
  "\<not> misread M (Inserts f k i)" "\<not> misread M (Touches f k t)"
  "misread M (Drops f k d) \<longleftrightarrow> d = ME_Delete True \<and> folio_addr f \<notin> M"
  "\<not> late D (Inserts f k i)" "late D (Touches f k t) \<longleftrightarrow> folio_addr f \<notin> D \<and> t \<noteq> MC_Enter \<and> t \<noteq> MC_Create"
  "\<not> late D (Drops f k d)"
  "mixed_local D M (Inserts f k i) \<longleftrightarrow> (\<exists>r. i = MA_Done r) \<or> folio_addr f \<notin> M"
  "mixed_local D M (Touches f k t) \<longleftrightarrow> (t = MC_Create \<longrightarrow> folio_addr f \<notin> D)"
  "mixed_local D M (Drops f k d) \<longleftrightarrow> (\<forall>b. d = ME_Delete b \<longrightarrow> folio_addr f \<in> M \<longrightarrow> b)"
  by (auto simp: comes_def owing_def refused_def misread_def late_def mixed_local_def
      split: insert_place.splits touch_place.splits drop_place.splits bool.splits)

text \<open>A step that leaves the marks alone.\<close>

lemma inv_same:
  assumes "mixed_threads_inv D (add_mset p R) m" "marks m' = marks m"
    and "hmap_ok mixed_meta_cap (mixed_meta (xm_state m'))" "D \<subseteq> xm_tracked m'"
    and "\<And>a. comes a p' = comes a p" "mixed_local D (marks m) p'"
    and "xm_pages m' + of_nat (one_if (owing p)) = xm_pages m + of_nat (one_if (owing p'))"
    and "misread (marks m) p' \<Longrightarrow> misread (marks m) p" "late D p \<Longrightarrow> late D p'" "refused p \<Longrightarrow> refused p'"
  shows "mixed_threads_inv D (add_mset p' R) m'"
proof -
  let ?M = "marks m"
  obtain n where n: "xm_pages m = of_nat (card ?M + threads_at owing (add_mset p R) + n)"
      "threads_at (misread ?M) (add_mset p R) \<le> n" "n \<le> threads_at (late D) (add_mset p R) + threads_at refused (add_mset p R)"
    using assms(1) by (auto simp: mixed_threads_inv_def)
  have "xm_pages m' + of_nat (one_if (owing p)) =
      of_nat (card ?M + threads_at owing (add_mset p R) + n) + of_nat (one_if (owing p'))"
    using assms(7) n(1) by (simp only:)
  also have "\<dots> = of_nat (card ?M + threads_at owing (add_mset p' R) + n) + of_nat (one_if (owing p))"
    by (simp add: ac_simps)
  finally have pages: "xm_pages m' = of_nat (card ?M + threads_at owing (add_mset p' R) + n)" by (rule add_right_imp_eq)
  have "threads_at (misread ?M) (add_mset p' R) \<le> n" "n \<le> threads_at (late D) (add_mset p' R) + threads_at refused (add_mset p' R)"
    using n(2,3) assms(8-10) by (auto split: if_split_asm)
  with pages show ?thesis
    using assms(1-6) unfolding mixed_threads_inv_def by (intro conjI exI [of _ n]) (auto simp del: domIff)
qed

text \<open>The store of a marked entry, of an entry over whatever is there by an access, and the deletion.\<close>

lemma inv_mark:
  assumes "mixed_threads_inv D (add_mset p R) m" "owing p" "comes a p" "a \<notin> marks m" "marks m' = insert a (marks m)"
    and "hmap_ok mixed_meta_cap (mixed_meta (xm_state m'))" "D \<subseteq> xm_tracked m'" "xm_pages m' = xm_pages m"
    and "\<And>b. comes b p' = comes b p" "mixed_local D (marks m') p'" "\<not> owing p'" "\<not> misread (marks m') p'"
    and "\<not> late D p" "\<not> refused p"
  shows "mixed_threads_inv D (add_mset p' R) m'"
proof -
  let ?M = "marks m"
  obtain n where n: "xm_pages m = of_nat (card ?M + threads_at owing (add_mset p R) + n)"
      "threads_at (misread ?M) (add_mset p R) \<le> n" "n \<le> threads_at (late D) (add_mset p R) + threads_at refused (add_mset p R)"
    using assms(1) by (auto simp: mixed_threads_inv_def)
  have comes: "threads_at (comes b) (add_mset p R) \<le> (if b \<in> D then 0 else 1)" for b
    using assms(1) by (simp add: mixed_threads_inv_def)
  have "threads_at (comes a) R = 0" using comes [of a] assms(3) by (simp split: if_split_asm)
  then have "mixed_local D (insert a ?M) t" if "t \<in># R" for t
    using assms(1) that local_insert [of D ?M t a] by (auto simp: mixed_threads_inv_def threads_at_def)
  moreover have "xm_pages m' = of_nat (card (insert a ?M) + threads_at owing (add_mset p' R) + n)"
    using n(1) assms(2,4,8,11) finite_marks [of m] by simp
  moreover have "threads_at (misread (insert a ?M)) (add_mset p' R) \<le> n"
    using n(2) misread_insert [of a ?M R] assms(5,12) by simp
  ultimately show ?thesis
    using n(3) assms comes unfolding mixed_threads_inv_def by (intro conjI exI [of _ n]) (auto simp del: domIff)
qed

lemma inv_overwrite:
  assumes "mixed_threads_inv D (add_mset p R) m" "\<not> late D p" "late D p'" "marks m' = marks m - {a}"
    and "hmap_ok mixed_meta_cap (mixed_meta (xm_state m'))" "D \<subseteq> xm_tracked m'" "xm_pages m' = xm_pages m"
    and "\<And>b. \<not> comes b p \<and> \<not> comes b p'" "mixed_local D (marks m') p'" "\<not> owing p" "\<not> owing p'"
    and "\<not> misread (marks m') p'" "\<not> refused p"
  shows "mixed_threads_inv D (add_mset p' R) m'"
proof -
  let ?M = "marks m"
  obtain n where n: "xm_pages m = of_nat (card ?M + threads_at owing (add_mset p R) + n)"
      "threads_at (misread ?M) (add_mset p R) \<le> n" "n \<le> threads_at (late D) (add_mset p R) + threads_at refused (add_mset p R)"
    using assms(1) by (auto simp: mixed_threads_inv_def)
  have comes: "threads_at (comes b) R \<le> (if b \<in> D then 0 else 1)" for b
    using assms(1,8) by (simp add: mixed_threads_inv_def)
  have others: "mixed_local D (?M - {a}) t" if "t \<in># R" for t
    using assms(1) that by (auto simp: mixed_threads_inv_def intro: local_remove)
  define n' where "n' = n + one_if (a \<in> ?M)"
  have "card (?M - {a}) + one_if (a \<in> ?M) = card ?M"
    by (rule card_remove_one [OF finite_marks])
  then have "card ?M + n = card (?M - {a}) + n'" by (simp add: n'_def)
  then have pages: "xm_pages m' = of_nat (card (marks m') + threads_at owing (add_mset p' R) + n')"
    using n(1) assms(4,7,10,11) by (simp only: threads_at_add if_False add.left_neutral) (metis add.assoc add.commute)
  have mis: "threads_at (misread (?M - {a})) R \<le> n'"
  proof (cases "a \<in> ?M")
    case True
    then show ?thesis
      using misread_remove [of ?M a R] comes [of a] n(2) by (simp add: n'_def split: if_split_asm)
  next
    case False
    then show ?thesis using n(2) by (simp add: n'_def)
  qed
  have "n' \<le> threads_at (late D) (add_mset p' R) + threads_at refused (add_mset p' R)"
    using n(3) assms(2,3,13) by (simp add: n'_def split: if_split_asm)
  with pages mis others show ?thesis
    using assms(4-6,8,9,12) comes unfolding mixed_threads_inv_def by (intro conjI exI [of _ n']) (auto simp del: domIff)
qed

lemma inv_delete:
  assumes "mixed_threads_inv D (add_mset p R) m" "comes a p" "\<not> owing p" "owing p'" "marks m' = marks m - {a}"
    and "misread (marks m) p \<longleftrightarrow> a \<notin> marks m"
    and "hmap_ok mixed_meta_cap (mixed_meta (xm_state m'))" "xm_tracked m' = xm_tracked m - {a}" "xm_pages m' = xm_pages m"
    and "\<And>b. comes b p' = comes b p" "mixed_local D (marks m') p'" "\<not> misread (marks m') p'" "\<not> late D p" "\<not> refused p"
  shows "mixed_threads_inv D (add_mset p' R) m'"
proof -
  let ?M = "marks m"
  obtain n where n: "xm_pages m = of_nat (card ?M + threads_at owing (add_mset p R) + n)"
      "threads_at (misread ?M) (add_mset p R) \<le> n" "n \<le> threads_at (late D) (add_mset p R) + threads_at refused (add_mset p R)"
    using assms(1) by (auto simp: mixed_threads_inv_def)
  have comes: "threads_at (comes b) (add_mset p R) \<le> (if b \<in> D then 0 else 1)" for b
    using assms(1) by (simp add: mixed_threads_inv_def)
  have a: "threads_at (comes a) R = 0" "a \<notin> D" using comes [of a] assms(2) by (simp_all split: if_split_asm)
  have others: "mixed_local D (?M - {a}) t" if "t \<in># R" for t
    using assms(1) that by (auto simp: mixed_threads_inv_def intro: local_remove)
  define n' where "n' = n - one_if (a \<notin> ?M)"
  have "one_if (a \<notin> ?M) \<le> n" using n(2) assms(6) by (auto split: if_split_asm)
  moreover have "card (?M - {a}) + one_if (a \<in> ?M) = card ?M"
    by (rule card_remove_one [OF finite_marks])
  ultimately have "card ?M + n = card (?M - {a}) + 1 + n'" by (simp add: n'_def split: if_split_asm)
  then have "card ?M + threads_at owing (add_mset p R) + n = card (?M - {a}) + threads_at owing (add_mset p' R) + n'"
    using assms(3,4) by simp
  then have pages: "xm_pages m' = of_nat (card (marks m') + threads_at owing (add_mset p' R) + n')"
    using n(1) assms(5,9) by (simp only:)
  have mis: "threads_at (misread (?M - {a})) R \<le> n'"
    using misread_remove [of ?M a R] a(1) n(2) assms(6) by (auto simp: n'_def split: if_split_asm)
  have "n' \<le> threads_at (late D) (add_mset p' R) + threads_at refused (add_mset p' R)"
    using n(3) assms(13,14) by (simp add: n'_def split: if_split_asm)
  with pages mis others show ?thesis
    using assms(1,5,7,8,10-12) a(2) comes unfolding mixed_threads_inv_def by (intro conjI exI [of _ n']) (auto simp del: domIff)
qed

lemma inv_refused:
  assumes "mixed_threads_inv D (add_mset p R) m" "owing p" "\<not> owing p'" "\<not> refused p" "refused p'"
    and "\<And>a. comes a p' = comes a p" "mixed_local D (marks m) p'" "\<not> misread (marks m) p'" "\<not> late D p"
  shows "mixed_threads_inv D (add_mset p' R) m"
proof -
  let ?M = "marks m"
  obtain n where n: "xm_pages m = of_nat (card ?M + threads_at owing (add_mset p R) + n)"
      "threads_at (misread ?M) (add_mset p R) \<le> n" "n \<le> threads_at (late D) (add_mset p R) + threads_at refused (add_mset p R)"
    using assms(1) by (auto simp: mixed_threads_inv_def)
  have "xm_pages m = of_nat (card ?M + threads_at owing (add_mset p' R) + Suc n)"
    using n(1) assms(2,3) by simp
  moreover have "threads_at (misread ?M) (add_mset p' R) \<le> Suc n"
    "Suc n \<le> threads_at (late D) (add_mset p' R) + threads_at refused (add_mset p' R)"
    using n(2,3) assms(4,5,8,9) by (auto split: if_split_asm)
  ultimately show ?thesis
    using assms(1,6,7) unfolding mixed_threads_inv_def by (intro conjI exI [of _ "Suc n"]) (auto simp del: domIff of_nat_Suc)
qed

lemma mixed_insert_keeps:
  assumes "mixed_insert_step K f k pl m = (k', pl', m')" "mixed_threads_inv D (add_mset (Inserts f k pl) R) m"
  shows "mixed_threads_inv D (add_mset (Inserts f k' pl') R) m'"
proof -
  have h: "hmap_ok mixed_meta_cap (mixed_meta (xm_state m))" "D \<subseteq> xm_tracked m" "(\<exists>r. pl = MA_Done r) \<or> folio_addr f \<notin> marks m"
    using assms(2) by (auto simp: mixed_threads_inv_def simp del: domIff)
  show ?thesis
  proof (cases pl)
    case MA_Enter
    then have "m' = m" "pl' = MA_Done True \<or> (\<exists>t l. pl' = MA_List t l)" "folio_addr f \<notin> marks m"
      using assms(1) h(3) by (auto simp: Let_def split: if_split_asm)
    then show ?thesis using MA_Enter h(1,2) by (intro inv_same [OF assms(2)]) auto
  next
    case (MA_List t l)
    then have "m' = m" "pl' = MA_Done True \<or> pl' = MA_Count \<or> pl' = MA_Store False" "folio_addr f \<notin> marks m"
      using assms(1) h(3) by (auto simp: Let_def split: if_split_asm prod.split_asm)
    then show ?thesis using MA_List h(1,2) by (intro inv_same [OF assms(2)]) auto
  next
    case MA_Count
    then show ?thesis using assms(1) h by (intro inv_same [OF assms(2)]) auto
  next
    case (MA_Store t)
    let ?v = "\<lparr>sm_accesses = 1, sm_last_access_time = kf_ktime_get_ns K k, sm_touched_by_scan = t\<rparr>"
    obtain ret h' where u: "hmap_update mixed_meta_cap (kf_map_err K k (folio_addr f)) (folio_addr f) ?v
        (mixed_meta (xm_state m)) = (ret, h')" by force
    have ok: "hmap_ok mixed_meta_cap h'"
      using hmap_update_ok [OF h(1), of "kf_map_err K k (folio_addr f)" "folio_addr f" ?v] u by simp
    have a: "folio_addr f \<notin> marks m" using h(3) MA_Store by simp
    show ?thesis
    proof (cases "ret = 0")
      case False
      then have m': "m' = m" "pl' = MA_Done False" "k' = k" using assms(1) u MA_Store by auto
      show ?thesis
      proof (cases t)
        case True
        show ?thesis unfolding m' by (rule inv_refused [OF assms(2)]) (use True MA_Store in auto)
      next
        case False
        show ?thesis unfolding m' by (rule inv_same [OF assms(2)]) (use False MA_Store h(1,2) in \<open>auto simp del: domIff\<close>)
      qed
    next
      case True
      then have m': "m' = xm_replace (folio_addr f) h' m" "pl' = MA_Done True" "k' = k" using assms(1) u MA_Store by auto
      have marks: "marks m' = (if t then insert (folio_addr f) (marks m) else marks m)"
        "xm_tracked m' = insert (folio_addr f) (xm_tracked m)"
        using hmap_update_marks(1) [OF u [unfolded True], of sm_touched_by_scan] hmap_update_marks(2) [OF u [unfolded True]] a by (simp_all add: m' marks_def)
      show ?thesis
      proof (cases t)
        case True
        show ?thesis
          by (rule inv_mark [OF assms(2), of "folio_addr f"]) (use True MA_Store marks m' ok a h(2) in \<open>auto simp del: domIff\<close>)
      next
        case False
        show ?thesis
          by (rule inv_same [OF assms(2)]) (use False MA_Store marks m' ok a h(2) in \<open>auto simp del: domIff\<close>)
      qed
    qed
  qed (use assms in simp)
qed

lemma mixed_touch_keeps:
  assumes "mixed_touch_step K f k pl m = (pl', m')" "mixed_threads_inv D (add_mset (Touches f k pl) R) m"
  shows "mixed_threads_inv D (add_mset (Touches f k pl') R) m'"
proof -
  have h: "hmap_ok mixed_meta_cap (mixed_meta (xm_state m))" "D \<subseteq> xm_tracked m" "pl = MC_Create \<longrightarrow> folio_addr f \<notin> D"
    using assms(2) by (auto simp: mixed_threads_inv_def simp del: domIff)
  show ?thesis
  proof (cases pl)
    case MC_Enter
    then have "m' = m" "pl' = MC_Done \<or> pl' = MC_Create \<and> folio_addr f \<notin> D \<or> (\<exists>e. pl' = MC_Add e)"
      using assms(1) h(2) by (auto split: if_split_asm option.split_asm)
    then show ?thesis using MC_Enter h(1,2) by (intro inv_same [OF assms(2)]) auto
  next
    case MC_Create
    let ?v = "\<lparr>sm_accesses = 0, sm_last_access_time = 0, sm_touched_by_scan = False\<rparr>"
    obtain ret h' where u: "hmap_update mixed_meta_cap (kf_map_err K k (folio_addr f)) (folio_addr f) ?v
        (mixed_meta (xm_state m)) = (ret, h')" by force
    show ?thesis
    proof (cases "ret = 0")
      case False
      then have m': "m' = m" "pl' = MC_Done" using assms(1) u MC_Create by auto
      show ?thesis unfolding m' by (rule inv_same [OF assms(2)]) (use MC_Create h in \<open>auto simp del: domIff\<close>)
    next
      case True
      then have m': "m' = xm_replace (folio_addr f) h' m" "pl' = MC_Lookup" using assms(1) u MC_Create by auto
      have ok: "hmap_ok mixed_meta_cap h'"
        using hmap_update_ok [OF h(1), of "kf_map_err K k (folio_addr f)" "folio_addr f" ?v] u by simp
      have marks: "marks m' = marks m - {folio_addr f}" "xm_tracked m' = insert (folio_addr f) (xm_tracked m)"
        using hmap_update_marks(1) [OF u [unfolded True], of sm_touched_by_scan] hmap_update_marks(2) [OF u [unfolded True]] by (simp_all add: m' marks_def)
      show ?thesis
        by (rule inv_overwrite [OF assms(2), of _ _ "folio_addr f"]) (use MC_Create marks m' ok h in \<open>auto simp del: domIff\<close>)
    qed
  next
    case MC_Lookup
    then have "m' = m" "pl' = MC_Done \<or> (\<exists>e. pl' = MC_Add e)"
      using assms(1) by (auto split: option.split_asm)
    then show ?thesis using MC_Lookup h(1,2) by (intro inv_same [OF assms(2)]) auto
  next
    case (MC_Add e)
    then have m': "m' = xm_modify (folio_addr f) e (\<lambda>d. d\<lparr>sm_accesses := sm_accesses d + 1\<rparr>) m" "pl' = MC_Stamp e"
      using assms(1) by simp_all
    have "marks m' = marks m" "xm_tracked m' = xm_tracked m" "xm_pages m' = xm_pages m"
      "hmap_ok mixed_meta_cap (mixed_meta (xm_state m'))"
      using h(1) by (simp_all add: m')
    then show ?thesis by (intro inv_same [OF assms(2)]) (use MC_Add h(2) m'(2) in \<open>simp_all del: domIff\<close>)
  next
    case (MC_Stamp e)
    then have m': "m' = xm_modify (folio_addr f) e (\<lambda>d. d\<lparr>sm_last_access_time := kf_ktime_get_ns K k\<rparr>) m" "pl' = MC_Done"
      using assms(1) by simp_all
    have "marks m' = marks m" "xm_tracked m' = xm_tracked m" "xm_pages m' = xm_pages m"
      "hmap_ok mixed_meta_cap (mixed_meta (xm_state m'))"
      using h(1) by (simp_all add: m')
    then show ?thesis by (intro inv_same [OF assms(2)]) (use MC_Stamp h(2) m'(2) in \<open>simp_all del: domIff\<close>)
  qed (use assms in simp)
qed

lemma mixed_drop_keeps:
  assumes "mixed_drop_step K f k pl m = (k', pl', m')" "mixed_threads_inv D (add_mset (Drops f k pl) R) m"
  shows "mixed_threads_inv D (add_mset (Drops f k' pl') R) m'"
proof -
  have h: "hmap_ok mixed_meta_cap (mixed_meta (xm_state m))" "D \<subseteq> xm_tracked m"
      "\<And>b. pl = ME_Delete b \<Longrightarrow> folio_addr f \<in> marks m \<Longrightarrow> b"
    using assms(2) by (auto simp: mixed_threads_inv_def simp del: domIff)
  have "threads_at (comes (folio_addr f)) (add_mset (Drops f k pl) R) \<le> (if folio_addr f \<in> D then 0 else 1)"
    using assms(2) by (simp only: mixed_threads_inv_def)
  then have d: "folio_addr f \<notin> D" by (simp split: if_split_asm)
  show ?thesis
  proof (cases pl)
    case ME_Enter
    then show ?thesis using assms(1) h(1,2) by (intro inv_same [OF assms(2)]) (auto simp: Let_def split: prod.split_asm)
  next
    case ME_Lookup
    then have "m' = m" "pl' = ME_Delete (folio_addr f \<in> marks m)"
      using assms(1) by (auto simp: marks_def split: option.splits)
    then show ?thesis using ME_Lookup h(1,2) by (intro inv_same [OF assms(2)]) auto
  next
    case (ME_Delete b)
    let ?h = "snd (hmap_delete (folio_addr f) (mixed_meta (xm_state m)))"
    have m': "m' = xm_replace (folio_addr f) ?h m" "pl' = (if b then ME_Sub else ME_Done)" using assms(1) ME_Delete by auto
    have ok: "hmap_ok mixed_meta_cap ?h" using h(1) by (rule hmap_delete_ok)
    have marks: "marks m' = marks m - {folio_addr f}" "xm_tracked m' = xm_tracked m - {folio_addr f}"
      using hmap_delete_marks [of "folio_addr f" "mixed_meta (xm_state m)"] by (simp_all add: m' marks_def)
    show ?thesis
    proof (cases b)
      case True
      show ?thesis
        by (rule inv_delete [OF assms(2), of "folio_addr f"]) (use True ME_Delete marks m' ok h in \<open>auto simp del: domIff\<close>)
    next
      case False
      then have "marks m' = marks m" using h(3) [OF ME_Delete] marks(1) by blast
      then show ?thesis
        by (intro inv_same [OF assms(2)]) (use False ME_Delete marks(2) m' ok h d in \<open>auto simp del: domIff\<close>)
    qed
  next
    case ME_Sub
    then show ?thesis using assms(1) h by (intro inv_same [OF assms(2)]) auto
  qed (use assms in simp)
qed

interpretation mixed_threads: threads "mixed_thread_step K" "mixed_threads_inv D" for K D
proof (unfold_locales, goal_cases)
  case (1 p R m p' m')
  then show ?case
    by (cases p) (auto split: prod.split_asm intro: mixed_insert_keeps mixed_touch_keeps mixed_drop_keeps)
qed

section \<open>Runs\<close>

text \<open>Threads at the entry of their hooks; folios reported as added are not tracked yet.\<close>

definition mixed_entered :: "mixed_mem \<Rightarrow> 'k mixed_thread \<Rightarrow> bool" where
  "mixed_entered m t \<longleftrightarrow> (case t of
     Inserts f _ pl \<Rightarrow> pl = MA_Enter \<and> map_of (mixed_meta (xm_state m)) (folio_addr f) = None
   | Touches f _ pl \<Rightarrow> pl = MC_Enter
   | Drops f _ pl \<Rightarrow> pl = ME_Enter)"

definition mixed_returned :: "'k mixed_thread \<Rightarrow> bool" where
  "mixed_returned t \<longleftrightarrow> (case t of
     Inserts _ _ pl \<Rightarrow> (\<exists>r. pl = MA_Done r) | Touches _ _ pl \<Rightarrow> pl = MC_Done | Drops _ _ pl \<Rightarrow> pl = ME_Done)"

text \<open>An access to a folio that is not tracked at the start or is evicted meanwhile.\<close>

definition unsteady :: "'k mixed_thread multiset \<Rightarrow> mixed_mem \<Rightarrow> 'k mixed_thread \<Rightarrow> bool" where
  "unsteady T m t \<longleftrightarrow> (case t of
     Touches f _ _ \<Rightarrow> folio_addr f \<notin> xm_tracked m \<or> 0 < threads_at (comes (folio_addr f)) T | _ \<Rightarrow> False)"

lemma mixed_thread_ends:
  assumes "mixed_entered m0 t"
  shows "\<exists>n t' m'. thread_alone (mixed_thread_step K) n (t, m) = (t', m') \<and> mixed_returned t'"
proof -
  have "\<exists>n t' m'. thread_alone (mixed_thread_step K) n (Inserts f k MA_Enter, m) = (t', m') \<and> mixed_returned t'" for f k
  proof -
    obtain k' r m' where "thread_alone (mixed_thread_step K) 4 (Inserts f k MA_Enter, m) = (Inserts f k' (MA_Done r), m')"
      using inserting_alone [of K f k m] by blast
    then show ?thesis
      by (intro exI [of _ 4] exI [of _ "Inserts f k' (MA_Done r)"] exI [of _ m']) (simp add: mixed_returned_def)
  qed
  moreover have "\<exists>n t' m'. thread_alone (mixed_thread_step K) n (Touches f k MC_Enter, m) = (t', m') \<and> mixed_returned t'" for f k
  proof -
    obtain m' where "thread_alone (mixed_thread_step K) 5 (Touches f k MC_Enter, m) = (Touches f k MC_Done, m')"
      using touching_alone [of K f k m] by blast
    then show ?thesis
      by (intro exI [of _ 5] exI [of _ "Touches f k MC_Done"] exI [of _ m']) (simp add: mixed_returned_def)
  qed
  moreover have "\<exists>n t' m'. thread_alone (mixed_thread_step K) n (Drops f k ME_Enter, m) = (t', m') \<and> mixed_returned t'" for f k
  proof -
    obtain k' m' where "thread_alone (mixed_thread_step K) 4 (Drops f k ME_Enter, m) = (Drops f k' ME_Done, m')"
      using dropping_alone [of K f k m] by blast
    then show ?thesis
      by (intro exI [of _ 4] exI [of _ "Drops f k' ME_Done"] exI [of _ m']) (simp add: mixed_returned_def)
  qed
  ultimately show ?thesis using assms by (cases t) (simp_all add: mixed_entered_def)
qed

lemma mixed_entered_flags:
  "mixed_entered m t \<Longrightarrow> \<not> owing t \<and> \<not> misread M t \<and> \<not> late D t \<and> \<not> refused t \<and> mixed_local D (marks m) t"
  by (cases t) (auto simp: mixed_entered_def marks_def)

lemma mixed_returned_flags: "mixed_returned t \<Longrightarrow> \<not> owing t"
  by (cases t) (auto simp: mixed_returned_def)

text \<open>The folio of an access stays with its thread.\<close>

definition touched :: "'k mixed_thread \<Rightarrow> u64 option" where
  "touched t = (case t of Touches f _ _ \<Rightarrow> Some (folio_addr f) | _ \<Rightarrow> None)"

lemma touched_kept: "mixed_thread_step K p m = (p', m') \<Longrightarrow> touched p' = touched p"
  by (cases p) (auto simp: touched_def split: prod.split_asm)

lemma late_unsteady:
  assumes "interleave (mixed_thread_step K) (T, m) (T', m')" "D = {a \<in> xm_tracked m. threads_at (comes a) T = 0}"
  shows "threads_at (late D) T' \<le> threads_at (unsteady T m) T"
proof -
  let ?P = "\<lambda>a. \<exists>x. a = Some x \<and> x \<notin> D"
  have img: "image_mset touched (fst (T', m')) = image_mset touched (fst (T, m))"
    by (rule interleave_image [OF _ assms(1)]) (rule touched_kept)
  have "threads_at (late D) T' \<le> threads_at (\<lambda>t. ?P (touched t)) T'"
    by (rule threads_at_mono) (auto simp: late_def touched_def split: mixed_thread.splits)
  also have "\<dots> = threads_at (\<lambda>t. ?P (touched t)) T"
    using img threads_at_image [of ?P touched T'] threads_at_image [of ?P touched T] by simp
  also have "\<dots> = threads_at (unsteady T m) T"
    by (rule threads_at_cong) (auto simp: unsteady_def touched_def assms(2) split: mixed_thread.splits)
  finally show ?thesis .
qed


text \<open>A scan inserts page 2 while another CPU accesses it.\<close>

definition demo_xm :: mixed_mem where
  "demo_xm = \<lparr>xm_state = demo_mixed, xm_elem = (\<lambda>_. 0)\<rparr>"

abbreviation demo_inserts :: "list_kernel mixed_thread multiset" where
  "demo_inserts \<equiv> {#Inserts (clean_folio 2) (demo_kernel\<lparr>lk_pid := 7\<rparr>) MA_Enter, Touches (clean_folio 2) demo_kernel MC_Enter#}"


text \<open>
  C13: a folio that a scan inserts and another CPU accesses at the same time can lose its
  mark: the access found no entry, and stores one of its own over the new one. Then the folio
  stays counted as a scan page after its eviction, for good, while after the two hooks one by one,
  in either order, its eviction takes it off the counter.
\<close>

theorem scan_mark_overwritten:
  assumes "relevant (xm_state m) f" "is_scanning_pid K k (xm_state m)" "get_sampling_list (xm_state m) LIST_FOR_SCANS = l" "l \<noteq> 0"
    and "kf_list_add_tail K l f k = (0, k1)" "map_of (mixed_meta (xm_state m)) (folio_addr f) = None"
    and "length (mixed_meta (xm_state m)) < mixed_meta_cap" "kf_map_err K k1 (folio_addr f) = 0" "kf_map_err K k2 (folio_addr f) = 0"
  shows "scan_pages (snd (mixed_folio_evicted K f k3 (snd (mixed_folio_accessed K f k2 (snd (mixed_folio_added K f k (xm_state m)))))))
      = scan_pages (xm_state m)
    \<and> scan_pages (snd (mixed_folio_evicted K f k3 (snd (mixed_folio_added K f k (snd (mixed_folio_accessed K f k2 (xm_state m)))))))
      = scan_pages (xm_state m)
    \<and> (\<exists>T' m'. interleave (mixed_thread_step K) ({#Inserts f k MA_Enter, Touches f k2 MC_Enter#}, m) (T', m')
        \<and> (\<forall>t \<in># T'. mixed_returned t)
        \<and> scan_pages (snd (mixed_folio_evicted K f k3 (xm_state m'))) = scan_pages (xm_state m) + 1)"
proof (intro conjI)
  have frame: "relevant (s\<lparr>scan_pages := x\<rparr>) f = relevant s f" "relevant (s\<lparr>mixed_meta := h\<rparr>) f = relevant s f"
    "is_scanning_pid K k (s\<lparr>mixed_meta := h\<rparr>) = is_scanning_pid K k s"
    "get_sampling_list (s\<lparr>mixed_meta := h\<rparr>) t = get_sampling_list s t" for s :: mixed_state and x h t
    by (simp_all add: relevant_def inode_in_watchlist_def inode_get_client_tag_def is_scanning_pid_def get_sampling_list_def)
  note defs = mixed_folio_added_def mixed_folio_accessed_def mixed_folio_evicted_def hmap_update_def bpf_map_simps Let_def
  show "scan_pages (snd (mixed_folio_evicted K f k3 (snd (mixed_folio_accessed K f k2 (snd (mixed_folio_added K f k (xm_state m)))))))
      = scan_pages (xm_state m)"
    using assms by (simp add: defs frame split: prod.split)
  show "scan_pages (snd (mixed_folio_evicted K f k3 (snd (mixed_folio_added K f k (snd (mixed_folio_accessed K f k2 (xm_state m)))))))
      = scan_pages (xm_state m)"
    using assms by (simp add: defs frame split: prod.split)
  obtain m' where run: "run_schedule (mixed_thread_step K) [0, 0, 0, 1, 0, 1, 1, 1, 1] ([Inserts f k MA_Enter, Touches f k2 MC_Enter], m)
      = ([Inserts f k1 (MA_Done True), Touches f k2 MC_Done], m')"
    "scan_pages (snd (mixed_folio_evicted K f k3 (xm_state m'))) = scan_pages (xm_state m) + 1"
    using assms by (simp add: defs frame xm_replace_def xm_modify_def split: prod.split)
  have "interleave (mixed_thread_step K) ({#Inserts f k MA_Enter, Touches f k2 MC_Enter#}, m)
      ({#Inserts f k1 (MA_Done True), Touches f k2 MC_Done#}, m')"
    using run_schedule_interleaves [OF run(1)] by simp
  with run(2) show "\<exists>T' m'. interleave (mixed_thread_step K) ({#Inserts f k MA_Enter, Touches f k2 MC_Enter#}, m) (T', m')
        \<and> (\<forall>t \<in># T'. mixed_returned t)
        \<and> scan_pages (snd (mixed_folio_evicted K f k3 (xm_state m'))) = scan_pages (xm_state m) + 1"
    by (intro exI conjI) (assumption | simp add: mixed_returned_def ex_bool_eq)+
qed

theorem scan_mark_overwritten_witness:
  "\<exists>T' m'. interleave (mixed_thread_step list_kfuncs) (demo_inserts, demo_xm) (T', m')
     \<and> scan_pages (snd (mixed_folio_evicted list_kfuncs (clean_folio 2) demo_kernel (xm_state m'))) = 1"
proof -
  let ?k = "demo_kernel\<lparr>lk_pid := 7\<rparr>" and ?f = "clean_folio 2"
  have h: "relevant (xm_state demo_xm) ?f" "is_scanning_pid list_kfuncs ?k (xm_state demo_xm)"
    "get_sampling_list (xm_state demo_xm) LIST_FOR_SCANS = 2" "(2 :: u64) \<noteq> 0"
    "kf_list_add_tail list_kfuncs 2 ?f ?k = (0, snd (kf_list_add_tail list_kfuncs 2 ?f ?k))"
    "map_of (mixed_meta (xm_state demo_xm)) (folio_addr ?f) = None" "length (mixed_meta (xm_state demo_xm)) < mixed_meta_cap"
    "kf_map_err list_kfuncs (snd (kf_list_add_tail list_kfuncs 2 ?f ?k)) (folio_addr ?f) = 0"
    "kf_map_err list_kfuncs demo_kernel (folio_addr ?f) = 0"
    by (simp_all add: demo_xm_def demo_mixed_simps is_scanning_pid_def get_sampling_list_def demo_simps list_kernel_simps
        mixed_meta_cap_def Let_def)
  have "scan_pages (xm_state demo_xm) = 0" by (simp add: demo_xm_def demo_mixed_simps)
  then show ?thesis using scan_mark_overwritten [OF h, of demo_kernel] by auto
qed

end

