(* ===== verification/S3fifo_Sizes_Threads.thy ===== *)
theory S3fifo_Sizes_Threads
  imports S3fifo_Threads
begin

text \<open>
  The two size counters of \<open>policies/cache_ext_s3fifo.bpf.c\<close> when folios are added, accessed and
  evicted and the main list is scanned on several CPUs at the same time. Shown: one thread
  alone does what the hook does; once all threads have returned, each counter is the number of
  folios tracked on its list and of the adds that were refused after they had been counted.

  The scan of the small list, which sets the main flag and moves the counters when it is
  through, is left to \<open>S3fifo\<close>. An entry that is deleted after it was found reads as one that
  was not found. The kernel reports a folio as added or evicted by one CPU at a time; every
  thread has its own view of the kernel.
\<close>

section \<open>The hooks, one access of the memory at a time\<close>

text \<open>The last place of the first hook names the list on which a refused folio was counted.\<close>

datatype s3_add_place = AS_Enter | AS_Ghost | AS_Count bool | AS_List bool | AS_Store bool | AS_Undo bool
  | AS_Done "bool option"
datatype s3_evict_place = ES_Ghost | ES_Lookup | ES_Read | ES_Sub bool | ES_Delete bool | ES_Done

text \<open>The counter of the main list is \<open>list_size True\<close>.\<close>

definition list_size :: "bool \<Rightarrow> s3fifo_state \<Rightarrow> s64" where
  "list_size b s = (if b then main_list_size s else small_list_size s)"

definition list_size_add :: "bool \<Rightarrow> s64 \<Rightarrow> s3fifo_state \<Rightarrow> s3fifo_state" where
  "list_size_add b x s =
     (if b then s\<lparr>main_list_size := main_list_size s + x\<rparr> else s\<lparr>small_list_size := small_list_size s + x\<rparr>)"

fun s3_add_step :: "('k, s3fifo_state) kfuncs \<Rightarrow> folio \<Rightarrow> 'k \<Rightarrow> s3_add_place \<Rightarrow> s3fifo_state \<Rightarrow>
    'k \<times> s3_add_place \<times> s3fifo_state" where
  "s3_add_step K f k AS_Enter s = (k, if s3_is_folio_relevant s (Some f) then AS_Ghost else AS_Done None, s)"
| "s3_add_step K f k AS_Ghost s = (let (ghost, s') = folio_in_ghost f s in (k, AS_Count ghost, s'))"
| "s3_add_step K f k (AS_Count b) s = (k, AS_List b, list_size_add b 1 s)"
| "s3_add_step K f k (AS_List b) s =
     (let (ret, k') = kf_list_add_tail K (if b then s3_main_list s else s3_small_list s) f k
      in (k', if ret \<noteq> 0 then AS_Done (Some b) else AS_Store b, s))"
| "s3_add_step K f k (AS_Store b) s =
     (let key = folio_addr f;
          (ret, h) = hmap_update s3_meta_cap (kf_map_err K k key) key \<lparr>freq = 0, in_main = b\<rparr> (s3_meta s)
      in (k, if ret \<noteq> 0 then AS_Undo b else AS_Done None, s\<lparr>s3_meta := h\<rparr>))"
| "s3_add_step K f k (AS_Undo b) s = (snd (kf_list_del K f k), AS_Done (Some b), s)"
| "s3_add_step K f k (AS_Done r) s = (k, AS_Done r, s)"

fun s3_evict_step :: "('k, s3fifo_state) kfuncs \<Rightarrow> folio \<Rightarrow> 'k \<Rightarrow> s3_evict_place \<Rightarrow> s3fifo_state \<Rightarrow>
    s3_evict_place \<times> s3fifo_state" where
  "s3_evict_step K f k ES_Ghost s =
     (let key = s3_ghost_key f
      in (ES_Lookup, s\<lparr>s3_ghost := snd (lru_update (kf_ghost_victims K k) (kf_ghost_err K k key) key 0 (s3_ghost s))\<rparr>))"
| "s3_evict_step K f k ES_Lookup s =
     (case get_folio_metadata s f of None \<Rightarrow> (ES_Done, s) | Some data \<Rightarrow> (ES_Read, s))"
| "s3_evict_step K f k ES_Read s =
     (case get_folio_metadata s f of None \<Rightarrow> (ES_Done, s) | Some data \<Rightarrow> (ES_Sub (in_main data), s))"
| "s3_evict_step K f k (ES_Sub b) s = (ES_Delete b, list_size_add b (- 1) s)"
| "s3_evict_step K f k (ES_Delete b) s = (ES_Done, s\<lparr>s3_meta := snd (hmap_delete (folio_addr f) (s3_meta s))\<rparr>)"
| "s3_evict_step K f k ES_Done s = (ES_Done, s)"

datatype 'k s3_sizes_thread = Visits s3_thread | Adds folio 'k s3_add_place | Evicts folio 'k s3_evict_place

fun s3_sizes_step :: "('k, s3fifo_state) kfuncs \<Rightarrow> 'k s3_sizes_thread \<Rightarrow> s3fifo_state \<Rightarrow>
    'k s3_sizes_thread \<times> s3fifo_state" where
  "s3_sizes_step K (Visits t) s = (let (t', s') = s3_thread_step t s in (Visits t', s'))"
| "s3_sizes_step K (Adds f k pl) s = (let (k', pl', s') = s3_add_step K f k pl s in (Adds f k' pl', s'))"
| "s3_sizes_step K (Evicts f k pl) s = (let (pl', s') = s3_evict_step K f k pl s in (Evicts f k pl', s'))"

section \<open>One thread alone\<close>

lemma s3_adding_alone:
  "\<exists>k' r s'. thread_alone (s3_sizes_step K) 6 (Adds f k AS_Enter, s) = (Adds f k' (AS_Done r), s')
     \<and> (k', s') = s3fifo_folio_added K f k s"
  by (simp add: eval_nat_numeral s3fifo_folio_added_def list_size_add_def hmap_update_def Let_def
      split: prod.split)

lemma s3_evicting_alone:
  "thread_alone (s3_sizes_step K) 5 (Evicts f k ES_Ghost, s) = (Evicts f k ES_Done, snd (s3fifo_folio_evicted K f k s))"
  by (simp add: eval_nat_numeral s3fifo_folio_evicted_def list_size_add_def get_folio_metadata_def Let_def split: option.split)

section \<open>The counters and the tracked folios\<close>

definition s3_on :: "bool \<Rightarrow> s3fifo_state \<Rightarrow> u64 set" where
  "s3_on b s = {a. \<exists>d. map_of (s3_meta s) a = Some d \<and> in_main d = b}"

definition s3_reports :: "u64 \<Rightarrow> 'k s3_sizes_thread \<Rightarrow> bool" where
  "s3_reports a t \<longleftrightarrow> (case t of Visits _ \<Rightarrow> False | Adds f _ _ \<Rightarrow> folio_addr f = a | Evicts f _ _ \<Rightarrow> folio_addr f = a)"

text \<open>Counted on a list and not tracked (yet), the refused ones among them for good; taken off and still tracked.\<close>

definition counted :: "bool \<Rightarrow> 'k s3_sizes_thread \<Rightarrow> bool" where
  "counted b t \<longleftrightarrow> (case t of Adds _ _ pl \<Rightarrow> pl \<in> {AS_List b, AS_Store b, AS_Undo b, AS_Done (Some b)} | _ \<Rightarrow> False)"

definition taken :: "bool \<Rightarrow> 'k s3_sizes_thread \<Rightarrow> bool" where
  "taken b t \<longleftrightarrow> (case t of Evicts _ _ pl \<Rightarrow> pl = ES_Delete b | _ \<Rightarrow> False)"

definition s3_local :: "s3fifo_state \<Rightarrow> 'k s3_sizes_thread \<Rightarrow> bool" where
  "s3_local s t \<longleftrightarrow> (case t of
     Visits (_, pl) \<Rightarrow> pl \<notin> {S3_Small, S3_Test, S3_Mark}
   | Adds f _ pl \<Rightarrow> (\<exists>r. pl = AS_Done r) \<or> (\<exists>b. pl = AS_Undo b) \<or> (\<forall>b. folio_addr f \<notin> s3_on b s)
   | Evicts f _ pl \<Rightarrow> (pl = ES_Read \<longrightarrow> (\<exists>b. folio_addr f \<in> s3_on b s))
       \<and> (\<forall>b. pl \<in> {ES_Sub b, ES_Delete b} \<longrightarrow> folio_addr f \<in> s3_on b s))"

definition s3_sizes_inv :: "'k s3_sizes_thread multiset \<Rightarrow> s3fifo_state \<Rightarrow> bool" where
  "s3_sizes_inv T s \<longleftrightarrow> hmap_ok s3_meta_cap (s3_meta s) \<and> (\<forall>a. threads_at (s3_reports a) T \<le> 1)
     \<and> (\<forall>t \<in># T. s3_local s t)
     \<and> (\<forall>b. list_size b s + of_nat (threads_at (taken b) T) = of_nat (card (s3_on b s) + threads_at (counted b) T))"

lemma s3_flags [simp]:
  "\<not> s3_reports a (Visits v)" "s3_reports a (Adds f k i) \<longleftrightarrow> folio_addr f = a" "s3_reports a (Evicts f k e) \<longleftrightarrow> folio_addr f = a"
  "\<not> counted b (Visits v)" "counted b (Adds f k i) \<longleftrightarrow> i \<in> {AS_List b, AS_Store b, AS_Undo b, AS_Done (Some b)}"
  "\<not> counted b (Evicts f k e)" "\<not> taken b (Visits v)" "\<not> taken b (Adds f k i)" "taken b (Evicts f k e) \<longleftrightarrow> e = ES_Delete b"
  by (simp_all add: s3_reports_def counted_def taken_def)

lemma books_balance:
  fixes z :: "'a :: ab_group_add"
  assumes "z + (y + u) = c + (x + v)" "z' + (c + x + y') = z + (c' + x' + y)"
  shows "z' + (y' + u) = c' + (x' + v)"
proof -
  have "z' + (y' + u) + (c + x) = (z' + (c + x + y')) + u" by (simp only: ac_simps)
  also have "\<dots> = (z + (y + u)) + (c' + x')" unfolding assms(2) by (simp only: ac_simps)
  also have "\<dots> = c' + (x' + v) + (c + x)" unfolding assms(1) by (simp only: ac_simps)
  finally show ?thesis by (rule add_right_imp_eq)
qed

lemma threads_at_of_nat:
  "of_nat (threads_at P (add_mset p T)) = of_bool (P p) + of_nat (threads_at P T)"
  by (simp add: of_bool_def)

text \<open>A step may change the entry of its own folio only, and has to keep the books.\<close>

lemma s3_inv_step:
  assumes "s3_sizes_inv (add_mset p R) s" "hmap_ok s3_meta_cap (s3_meta s')" "\<And>a. s3_reports a p' = s3_reports a p"
    and "s3_local s' p'" "\<And>a b. \<not> s3_reports a p \<Longrightarrow> a \<in> s3_on b s' \<longleftrightarrow> a \<in> s3_on b s"
    and "\<And>b. list_size b s' + of_nat (card (s3_on b s) + of_bool (counted b p) + of_bool (taken b p')) =
      list_size b s + of_nat (card (s3_on b s') + of_bool (counted b p') + of_bool (taken b p))"
  shows "s3_sizes_inv (add_mset p' R) s'"
proof -
  have reps: "\<forall>a. threads_at (s3_reports a) (add_mset p R) \<le> 1" and loc: "\<forall>t \<in># R. s3_local s t"
    using assms(1) by (auto simp: s3_sizes_inv_def)
  have "s3_local s' t" if t: "t \<in># R" for t
  proof -
    have "\<not> s3_reports a p" if "s3_reports a t" for a
      using reps [rule_format, of a] t that threads_at_zeroD [of "s3_reports a" R t] by auto
    then have "a \<in> s3_on b s' \<longleftrightarrow> a \<in> s3_on b s" if "s3_reports a t" for a b using assms(5) that by blast
    then show ?thesis using loc t by (cases t) (auto simp: s3_local_def)
  qed
  moreover have "list_size b s' + of_nat (threads_at (taken b) (add_mset p' R)) =
      of_nat (card (s3_on b s') + threads_at (counted b) (add_mset p' R))" for b
  proof -
    have "list_size b s + of_nat (threads_at (taken b) (add_mset p R)) = of_nat (card (s3_on b s) + threads_at (counted b) (add_mset p R))"
      using assms(1) by (simp only: s3_sizes_inv_def)
    then have "list_size b s + (of_bool (taken b p) + of_nat (threads_at (taken b) R)) =
        of_nat (card (s3_on b s)) + (of_bool (counted b p) + of_nat (threads_at (counted b) R))"
      by (simp only: of_nat_add threads_at_of_nat)
    moreover have "list_size b s' + (of_nat (card (s3_on b s)) + of_bool (counted b p) + of_bool (taken b p')) =
        list_size b s + (of_nat (card (s3_on b s')) + of_bool (counted b p') + of_bool (taken b p))"
      using assms(6) [of b] by (simp only: of_nat_add of_nat_of_bool)
    ultimately have "list_size b s' + (of_bool (taken b p') + of_nat (threads_at (taken b) R)) =
        of_nat (card (s3_on b s')) + (of_bool (counted b p') + of_nat (threads_at (counted b) R))"
      by (rule books_balance)
    then show ?thesis
      by (simp only: of_nat_add threads_at_of_nat)
  qed
  ultimately show ?thesis using assms(2-4) reps by (simp add: s3_sizes_inv_def)
qed

section \<open>What each step keeps\<close>

lemma finite_s3_on: "finite (s3_on b s)"
  unfolding s3_on_def by (rule finite_subset [OF _ finite_dom_map_of [of "s3_meta s"]]) auto

lemma s3_on_frame [simp]:
  "s3_on b (list_size_add c x s) = s3_on b s" "s3_meta (list_size_add c x s) = s3_meta s"
  "list_size b (list_size_add c x s) = (if b = c then list_size b s + x else list_size b s)"
  "s3_on b (s\<lparr>s3_ghost := g\<rparr>) = s3_on b s" "list_size b (s\<lparr>s3_ghost := g\<rparr>) = list_size b s"
  "list_size b (s\<lparr>s3_meta := h\<rparr>) = list_size b s" "list_size b (set_folio_metadata f g' s) = list_size b s"
  by (auto simp: s3_on_def list_size_def list_size_add_def set_folio_metadata_def)

lemma s3_on_set [simp]:
  "(\<And>d. in_main (g d) = in_main d) \<Longrightarrow> s3_on b (set_folio_metadata f g s) = s3_on b s"
  by (auto simp: s3_on_def meta_set_folio_metadata)

lemma hmap_ok_set [simp]: "hmap_ok c (s3_meta (set_folio_metadata f g s)) = hmap_ok c (s3_meta s)"
  by (simp add: set_folio_metadata_def hmap_ok_def)

lemma visits_keep:
  assumes "s3_thread_step (f, pl) s = ((f', pl'), s')" "pl \<notin> {S3_Small, S3_Test, S3_Mark}"
  shows "pl' \<notin> {S3_Small, S3_Test, S3_Mark}" "s3_on b s' = s3_on b s" "list_size b s' = list_size b s"
    "hmap_ok c (s3_meta s') = hmap_ok c (s3_meta s)"
  using assms by (cases pl; auto split: if_split_asm option.split_asm)+

lemma s3_on_store:
  assumes "hmap_update c e a \<lparr>freq = 0, in_main = b\<rparr> (s3_meta s) = (0, h)" "\<And>b. a \<notin> s3_on b s"
  shows "s3_on b' (s\<lparr>s3_meta := h\<rparr>) = (if b' = b then insert a (s3_on b' s) else s3_on b' s)"
proof -
  have "map_of (s3_meta s) a = None" using assms(2) [of True] assms(2) [of False] by (cases "map_of (s3_meta s) a") (auto simp: s3_on_def)
  then show ?thesis
    using assms(1) by (auto simp: s3_on_def hmap_update_def E2BIG_def bpf_map_simps split: if_splits)
qed

lemma s3_on_delete: "s3_on b (s\<lparr>s3_meta := snd (hmap_delete a (s3_meta s))\<rparr>) = s3_on b s - {a}"
  by (auto simp: s3_on_def hmap_delete_def bpf_map_simps split: option.splits if_splits)

lemma s3_add_keeps:
  assumes "s3_add_step K f k pl s = (k', pl', s')" "s3_sizes_inv (add_mset (Adds f k pl) R) s"
  shows "s3_sizes_inv (add_mset (Adds f k' pl') R) s'"
proof -
  have h: "hmap_ok s3_meta_cap (s3_meta s)" "(\<exists>r. pl = AS_Done r) \<or> (\<exists>b. pl = AS_Undo b) \<or> (\<forall>b. folio_addr f \<notin> s3_on b s)"
    using assms(2) by (auto simp: s3_sizes_inv_def s3_local_def)
  show ?thesis
  proof (cases pl)
    case AS_Enter
    then show ?thesis using assms(1) h
      by (intro s3_inv_step [OF assms(2)]) (auto simp: s3_local_def split: if_split_asm)
  next
    case AS_Ghost
    then show ?thesis using assms(1) h
      by (intro s3_inv_step [OF assms(2)]) (auto simp: s3_local_def folio_in_ghost_def Let_def split_def)
  next
    case (AS_Count b)
    then show ?thesis using assms(1) h
      by (intro s3_inv_step [OF assms(2)]) (auto simp: s3_local_def split: if_split_asm)
  next
    case (AS_List b)
    then show ?thesis using assms(1) h
      by (intro s3_inv_step [OF assms(2)]) (auto simp: s3_local_def split_def Let_def split: if_split_asm)
  next
    case (AS_Store b)
    obtain ret h' where u: "hmap_update s3_meta_cap (kf_map_err K k (folio_addr f)) (folio_addr f) \<lparr>freq = 0, in_main = b\<rparr>
        (s3_meta s) = (ret, h')" by force
    have ok: "hmap_ok s3_meta_cap h'"
      using hmap_update_ok [OF h(1), of "kf_map_err K k (folio_addr f)" "folio_addr f"] u by (metis snd_conv)
    have a: "folio_addr f \<notin> s3_on b' s" for b' using h(2) AS_Store by simp
    show ?thesis
    proof (cases "ret = 0")
      case True
      have r: "pl' = AS_Done None" "s' = s\<lparr>s3_meta := h'\<rparr>" "k' = k" using assms(1) u AS_Store True by auto
      note on = s3_on_store [OF u [unfolded True] a]
      show ?thesis
        by (rule s3_inv_step [OF assms(2)]) (use r on ok AS_Store a finite_s3_on in \<open>auto simp: s3_local_def\<close>)
    next
      case False
      then have "h' = s3_meta s" using u by (auto simp: hmap_update_def split: if_splits)
      then have r: "pl' = AS_Undo b" "s' = s" "k' = k" using assms(1) u AS_Store False by auto
      show ?thesis by (rule s3_inv_step [OF assms(2)]) (use r h(1) AS_Store in \<open>auto simp: s3_local_def\<close>)
    qed
  next
    case (AS_Undo b)
    then show ?thesis using assms(1) h
      by (intro s3_inv_step [OF assms(2)]) (auto simp: s3_local_def)
  qed (use assms in simp)
qed

lemma s3_evict_keeps:
  assumes "s3_evict_step K f k pl s = (pl', s')" "s3_sizes_inv (add_mset (Evicts f k pl) R) s"
  shows "s3_sizes_inv (add_mset (Evicts f k pl') R) s'"
proof -
  have h: "hmap_ok s3_meta_cap (s3_meta s)" "pl = ES_Read \<longrightarrow> (\<exists>b. folio_addr f \<in> s3_on b s)"
      "\<forall>b. pl \<in> {ES_Sub b, ES_Delete b} \<longrightarrow> folio_addr f \<in> s3_on b s"
    using assms(2) by (auto simp: s3_sizes_inv_def s3_local_def)
  show ?thesis
  proof (cases pl)
    case ES_Ghost
    then show ?thesis using assms(1) h
      by (intro s3_inv_step [OF assms(2)]) (auto simp: s3_local_def Let_def)
  next
    case ES_Lookup
    then have "s' = s" "pl' = ES_Done \<or> pl' = ES_Read \<and> (\<exists>b. folio_addr f \<in> s3_on b s)"
      using assms(1) by (auto simp: get_folio_metadata_def s3_on_def split: option.split_asm)
    then show ?thesis using ES_Lookup h by (intro s3_inv_step [OF assms(2)]) (auto simp: s3_local_def)
  next
    case ES_Read
    then have "s' = s" "pl' = ES_Done \<or> (\<exists>b. pl' = ES_Sub b \<and> folio_addr f \<in> s3_on b s)"
      using assms(1) by (auto simp: get_folio_metadata_def s3_on_def split: option.split_asm)
    then show ?thesis using ES_Read h by (intro s3_inv_step [OF assms(2)]) (auto simp: s3_local_def)
  next
    case (ES_Sub b)
    then show ?thesis using assms(1) h
      by (intro s3_inv_step [OF assms(2)]) (auto simp: s3_local_def split: if_split_asm)
  next
    case (ES_Delete b)
    then have r: "pl' = ES_Done" "s' = s\<lparr>s3_meta := snd (hmap_delete (folio_addr f) (s3_meta s))\<rparr>" "folio_addr f \<in> s3_on b s"
      using assms(1) h by auto
    then have other: "folio_addr f \<notin> s3_on b' s" if "b' \<noteq> b" for b' using that by (auto simp: s3_on_def)
    have card: "card (s3_on b s) = card (s3_on b s - {folio_addr f}) + 1"
      using card_Suc_Diff1 [OF finite_s3_on r(3)] by simp
    show ?thesis
    proof (rule s3_inv_step [OF assms(2)], goal_cases)
      case (5 b')
      show ?case
      proof (cases "b' = b")
        case True
        then show ?thesis using r ES_Delete card by (simp add: s3_on_delete)
      next
        case False
        then have "s3_on b' s - {folio_addr f} = s3_on b' s" using other by blast
        then show ?thesis using r ES_Delete False by (simp add: s3_on_delete)
      qed
    qed (use r ES_Delete h(1) in \<open>auto simp: s3_local_def s3_on_delete hmap_delete_ok\<close>)
  qed (use assms in simp)
qed

interpretation s3_sizes: threads "s3_sizes_step K" s3_sizes_inv for K
proof (unfold_locales, goal_cases)
  case (1 p R s p' s')
  show ?case
  proof (cases p)
    case (Visits t)
    obtain f pl where t: "t = (f, pl)" by (cases t)
    obtain f' pl' where v: "s3_thread_step (f, pl) s = ((f', pl'), s')" "p' = Visits (f', pl')"
      using 1(2) Visits t by (auto split: prod.split_asm)
    have "pl \<notin> {S3_Small, S3_Test, S3_Mark}" "hmap_ok s3_meta_cap (s3_meta s)"
      using 1(1) Visits t by (auto simp: s3_sizes_inv_def s3_local_def)
    then show ?thesis
      using visits_keep [OF v(1)] v(2) Visits t by (intro s3_inv_step [OF 1(1)]) (simp_all add: s3_local_def)
  qed (use 1 in \<open>auto split: prod.split_asm intro: s3_add_keeps s3_evict_keeps\<close>)
qed

section \<open>Runs\<close>

definition s3_sizes_entered :: "s3fifo_state \<Rightarrow> 'k s3_sizes_thread \<Rightarrow> bool" where
  "s3_sizes_entered s t \<longleftrightarrow> (case t of
     Visits (_, pl) \<Rightarrow> pl = S3_Access \<or> (\<exists>n. pl = S3_Main n)
   | Adds f _ pl \<Rightarrow> pl = AS_Enter \<and> map_of (s3_meta s) (folio_addr f) = None
   | Evicts f _ pl \<Rightarrow> pl = ES_Ghost)"

definition s3_sizes_returned :: "'k s3_sizes_thread \<Rightarrow> bool" where
  "s3_sizes_returned t \<longleftrightarrow> (case t of Visits v \<Rightarrow> s3_done v | Adds _ _ pl \<Rightarrow> (\<exists>r. pl = AS_Done r) | Evicts _ _ pl \<Rightarrow> pl = ES_Done)"

text \<open>An add that was counted on a list and then refused.\<close>

definition s3_refused :: "bool \<Rightarrow> 'k s3_sizes_thread \<Rightarrow> bool" where
  "s3_refused b t \<longleftrightarrow> (case t of Adds _ _ pl \<Rightarrow> pl = AS_Done (Some b) | _ \<Rightarrow> False)"

lemma visits_alone:
  "thread_alone s3_thread_step n (t, s) = (t', s') \<Longrightarrow> thread_alone (s3_sizes_step K) n (Visits t, s) = (Visits t', s')"
  by (induction n arbitrary: t s) (auto split: prod.split)

lemma s3_sizes_alone_ends:
  assumes "s3_sizes_entered s0 t"
  shows "\<exists>n t' s'. thread_alone (s3_sizes_step K) n (t, s) = (t', s') \<and> s3_sizes_returned t'"
proof (cases t)
  case (Visits v)
  then have "s3_entered v" using assms by (cases v) (auto simp: s3_sizes_entered_def s3_entered_def)
  then obtain n v' s' where "thread_alone s3_thread_step n (v, s) = (v', s')" "s3_done v'" using s3_alone_ends by blast
  then show ?thesis using visits_alone [of n v s v' s' K] Visits
    by (intro exI [of _ n] exI [of _ "Visits v'"] exI [of _ s']) (simp add: s3_sizes_returned_def)
next
  case (Adds f k pl)
  obtain k' r s' where "thread_alone (s3_sizes_step K) 6 (Adds f k AS_Enter, s) = (Adds f k' (AS_Done r), s')"
    using s3_adding_alone [of K f k s] by blast
  then show ?thesis using Adds assms
    by (intro exI [of _ 6] exI [of _ "Adds f k' (AS_Done r)"] exI [of _ s']) (simp add: s3_sizes_returned_def s3_sizes_entered_def)
next
  case (Evicts f k pl)
  then show ?thesis using assms s3_evicting_alone [of K f k s]
    by (intro exI [of _ 5]) (simp add: s3_sizes_returned_def s3_sizes_entered_def)
qed

lemma s3_entered_local: "s3_sizes_entered s t \<Longrightarrow> s3_local s t \<and> \<not> counted b t \<and> \<not> taken b t"
  by (cases t) (auto simp: s3_sizes_entered_def s3_local_def s3_on_def)

lemma s3_returned_flags: "s3_sizes_returned t \<Longrightarrow> \<not> taken b t \<and> counted b t = s3_refused b t"
  by (cases t) (auto simp: s3_sizes_returned_def s3_refused_def)

lemma counts_on:
  assumes "hmap_ok s3_meta_cap (s3_meta s)"
  shows "main_count s = card (s3_on True s)" "small_count s = card (s3_on False s)"
  using assms by (simp_all add: main_count_def small_count_def s3_on_def hmap_ok_def hmap_count_card)


text \<open>Page 3 is added and page 2 evicted, while page 2 is accessed and scanned.\<close>

abbreviation demo_sizes :: "list_kernel s3_sizes_thread multiset" where
  "demo_sizes \<equiv> {#Adds (clean_folio 3) demo_kernel AS_Enter, Evicts (clean_folio 2) demo_kernel ES_Ghost,
     Visits (clean_folio 2, S3_Access), Visits (clean_folio 2, S3_Main 0)#}"


end
