(* ===== verification/Spec2Isabelle.thy ===== *)
theory Spec2Isabelle
  imports Fifo Mru Sampling Get_Scan Net Vulcan S3fifo Mglru Lhd Loaders Evolved_Lfu Evolved_Sched Evolved_Sampling
    Evolved_Split Evolved_Vulcan Evolved_Gens Lhd_System Watch_System Sampling_Threads S3fifo_Threads Lfu_Threads Lhd_Threads
    Mglru_Threads Get_Scan_Threads S3fifo_Sizes_Threads
begin

text \<open>
  A verification development for cache_ext, a framework that runs the eviction policy of the
  Linux page cache as a BPF program. The kernel reports events of its page cache to the hooks
  of a policy (a folio was added, accessed, evicted) and asks it which folios to evict; the
  policy keeps lists of folios, which the kernel stores for it, and metadata in BPF maps. A
  loader in user space resolves the directory whose files are to be tracked, fills a map of
  their inodes (the watchlist) and attaches the policy; a probe on \<open>vfs_open\<close> adds the
  inodes of files opened later. A second directory, \<open>eviction_evo\<close>, holds policies that a
  language model evolves: seeds, a baseline and the best results.

  Parts and theories (paths are below \<open>src/\<close>).

  \<^item> \<open>BPF_Prelude\<close>: machine integers of the programs, BPF hash maps as association lists with a
    capacity (\<open>hmap\<close>; \<open>bpf_map_lookup_elem\<close> is \<open>map_of\<close>), LRU maps, arrays of counters. The
    locale \<open>bpf_map\<close> (and \<open>exact_map\<close>) is the interface the policies rely on: what a
    lookup returns after a store or a deletion that may fail.
  \<^item> \<open>Cache_Ext_Lib\<close>: \<open>policies/cache_ext_lib.bpf.h\<close>, folios and their page flags by bit, the
    index of a page, unbiased and biased random numbers.
  \<^item> \<open>Cache_Ext_Kfuncs\<close>: the interface to the kernel. Its list operations, clock, map errors
    and ring buffer are the fields of a record \<open>kfuncs\<close>; \<open>kernel_ok\<close> states what the policies
    rely on: an iteration or a sample calls the callback on the nodes it visits, in order, and
    nominates the folios the callback picks. The locale \<open>list_walk\<close> adds which nodes those
    are: those of the list, up to its end or to the request, with a clock that does not run
    backwards; it is interpreted on a kernel of plain lists, and under it the evictions of
    \<open>Net\<close>, \<open>Evolved_Sched\<close> and \<open>S3fifo\<close> are known exactly. \<open>hook\<close>, \<open>call_hook\<close> and \<open>run_hooks\<close> are the calls
    the kernel makes. The locale \<open>policy\<close> lifts an invariant from the hooks to runs, the
    locale \<open>policy_refinement\<close> a relation with an abstract state.
  \<^item> \<open>Dir_Watcher\<close>, \<open>Watch_Init\<close>, \<open>Loaders\<close>: \<open>policies/dir_watcher.bpf.h\<close> (the watchlist, the
    probe on \<open>vfs_open\<close>), \<open>policies/dir_watcher.h\<close> and \<open>cache_ext_policy_watch.h\<close> (the walk
    over directories), and the \<open>main\<close> functions of the nine loaders with their exit codes and
    the log of what they do to the kernel.
  \<^item> \<open>Fifo\<close>, \<open>Mru\<close>, \<open>Sampling\<close>, \<open>Get_Scan\<close>, \<open>Net\<close>, \<open>S3fifo\<close>, \<open>Mglru\<close>, \<open>Lhd\<close>: the policies
    \<open>policies/cache_ext_*.bpf.c\<close>, each with its state as a record that extends the
    watchlist's, one definition per hook, callback and helper, and its \<open>cache_ext_ops\<close>.
    \<open>Vulcan\<close>: the listeners of \<open>policies/vulcan_bpf.h\<close>, under the locale \<open>listener\<close>.
  \<^item> \<open>Evolved_Lfu\<close>, \<open>Evolved_Sched\<close>, \<open>Evolved_Sampling\<close>, \<open>Evolved_Split\<close>, \<open>Evolved_Vulcan\<close>: the
    seeds \<open>eviction_evo/initial.c\<close>, \<open>file_initial.c\<close>, \<open>initial_vulcan_split.c\<close> and
    \<open>initial_vulcan.c\<close>, the baseline \<open>initial_sampling.c\<close>, and the scores of the two best evolved
    policies (\<open>dual_host_traces/vulcan_evo/best\<close> and \<open>vulcan_evo_2/best\<close>). \<open>Evolved_Gens\<close>:
    four of the candidates of those runs, whose scores write variables of their own or read
    other listeners, with runs of hooks and packets; the locale \<open>feature_store\<close> is what they
    rely on of the arrays of listeners, interpreted on the listeners of \<open>Vulcan\<close>.
  \<^item> \<open>Lhd_System\<close>: LHD's hooks, the ring buffer and the loader that runs the reconfiguration for
    each event, as a step relation with reachability. \<open>Watch_System\<close>: the watchlist from the
    loader through the probe to the hooks, for every policy, under the locale \<open>watching\<close>.
  \<^item> \<open>Interleaving\<close> and the theories \<open>*_Threads\<close>: hooks that run at the same time on several
    CPUs, one access of the shared memory per step, under the locale \<open>threads\<close>.

  How the model corresponds to the code. Integers have the width of the source, with its
  wrap-around and its signedness (\<open>sint\<close>, \<open><s\<close>); a pointer that may be NULL is an option; a
  folio is a record whose address is its key in the maps; a function that changes state takes
  the kernel's state and the policy's and returns both. Return codes, early returns and failing
  calls of the kernel are branches of the definitions. A loop over an array or a bounded loop
  of the source is a recursion over its indices. Diagnostic output has no counterpart.

  What is shown. Invariants over every run of the hooks: MGLRU's generations, S3-FIFO's sizes,
  LHD's counters with its loader, the pages of scans, the types of the listeners' maps.
  Refinements: of the sampling policy by a map of counters, of the LFU seed by the history of
  accesses, of the listeners by the list of their samples, of FIFO with its loader and probe by
  the tags of the watched files; the baseline and the sampling policy differ in one score
  only. Safety of evictions: which folios a policy never nominates. Ranges and overflow of
  scores, averages and scales; termination of the walk and of LHD's loop; when each loader
  exits with 0 and what it undoes.
  Under concurrency: which counters stay exact, by how much the others may be off. Some
  theorems state behaviour the source does not seem to intend, such as the parts of evolved
  scores that never decide; the manifest lists it.

  Bounds. \<open>walk_fuel\<close> is 4097: a path grows with every level and the file system opens none of
  4096 bytes or more, so the walk never runs out (theorem \<open>walk_terminates\<close>). The
  loops that the source bounds have its bound as fuel: 64 parents in \<open>walk_roots\<close>, one round
  per hit-age class. \<open>coarsening_loop\<close> has 10 rounds, after which its guard is
  false for every value the formula can produce (\<open>coarsening_scale\<close>). The unbiased
  random numbers draw ten times at most, as in the source. Runs of LHD are
  followed for fewer than 2^51 steps, so that its clock does not wrap, and requests counted
  at the same time number fewer than 2^63.

  Parameters. The kernel (a submodule that is not among the sources) is \<open>kfuncs\<close>; the library
  \<open>vulcan_bpf\<close> of the evolved policies, another such submodule, is \<open>vulcan_lib\<close> and
  \<open>feature_lib\<close>; the file system, libbpf and the C library are \<open>fs\<close> and \<open>loader_env\<close>.
  Every hypothesis on them is met by a concrete instance in a witness theorem.

  Not modelled. Each hook is one step, except those of the \<open>*_Threads\<close> theories: races
  between the other hooks are left out, because what their calls of list operations lock is
  up to the kernel. Where hooks are one step, the per-CPU eviction metadata of MGLRU is one
  record. The listings of \<open>eviction_evo/build\<close> and \<open>vmlinux.h\<close> are generated; the other
  generations of the evolution runs vary the scores modelled here, share the hooks and the
  probe, and were not kept (two, \<open>gen_38\<close> and \<open>gen_20\<close>, do not even compile); the benchmark servers
  in C++, the Python and shell scripts and the Makefiles move data and start processes.
\<close>

section \<open>Steps and hooks\<close>

text \<open>
  The steps of one thread, taken without interruption, are the hook or the callback
  that the models of the policies run as a whole: the access hooks of the sampling
  policy, of S3-FIFO and of the LFU seed policy, the callbacks of the two scans of S3-FIFO,
  the counting of requests at the end of the hooks of LHD, and of MGLRU the locked region of
  an eviction, the callback of the scan and the hooks for accessed, added and evicted folios;
  the same three hooks of GET/SCAN; those for added and evicted folios of S3-FIFO.
\<close>

lemma thread_alone_runs_hook:
  "(\<exists>m'. thread_alone (sampling_access_step K1) 4 ((k, f, SA_Enter), m) = ((k, f, SA_Done), m')
      \<and> sm_state m' = snd (sampling_folio_accessed K1 f k (sm_state m)))
   \<and> thread_alone s3_thread_step 3 ((f, S3_Access), s2) = ((f, S3_Done), snd (s3fifo_folio_accessed f k s2))
   \<and> thread_alone s3_thread_step 2 ((f, S3_Main n), s2) =
       ((f, S3_Verdict (fst (main_iter_fn n k i f s2))), snd (main_iter_fn n k i f s2))
   \<and> thread_alone s3_thread_step 3 ((f, S3_Small), s2) =
       ((f, S3_Verdict (fst (bpf_s3fifo_score_small_fn k i f s2))), snd (bpf_s3fifo_score_small_fn k i f s2))
   \<and> thread_alone (lfu_thread_step K3) 8 ((f, LF_Enter), (k, s3)) = ((f, LF_Done), initial_folio_accessed K3 f k s3)
   \<and> thread_alone (lhd_request_step K4 k) 6 (LH_Stamp, s4) =
       (LH_Done, count_request K4 k (s4\<lparr>lhd_timestamp := lhd_timestamp s4 + 1\<rparr>))
   \<and> thread_alone (mglru_thread_step K5) 6 (Aging GA_Lock, m5\<lparr>mm_lock := False\<rparr>) =
       (let lr = mglru_advance (mm_lrugen (m5\<lparr>mm_lock := False\<rparr>)); g = lru_gen_from_seq (min_seq lr)
        in (Aging (GA_Done g ((g + 1) mod MAX_NR_GENS)), mm_lr mglru_advance (m5\<lparr>mm_lock := False\<rparr>)))
   \<and> (\<exists>n. thread_alone (mglru_thread_step K5) n (Scanning f (CB_Enter (mglru_percpu s5)), m5\<lparr>mm_state := s5\<rparr>)
         = (Scanning f (CB_Verdict (fst (mglru_iter_fn k i f s5))),
            m5\<lparr>mm_state := (snd (mglru_iter_fn k i f s5))\<lparr>mglru_percpu := mglru_percpu s5\<rparr>\<rparr>))
   \<and> thread_alone (mglru_thread_step K5) 2 (Referring f AC_Enter, m5) =
       (Referring f AC_Done, m5\<lparr>mm_state := snd (mglru_folio_accessed f k (mm_state m5))\<rparr>)
   \<and> thread_alone (mglru_thread_step K5) 10 (Adding f AD_Enter, m5) =
       (Adding f AD_Done, let (k', s') = mglru_folio_added K5 f (mm_kernel m5) (mm_state m5)
          in m5\<lparr>mm_kernel := k', mm_state := s'\<rparr>)
   \<and> thread_alone (mglru_thread_step K5) 7 (Removing f EV_Enter, m5) =
       (Removing f EV_Done, let (k', s') = mglru_folio_evicted K5 f (mm_kernel m5) (mm_state m5)
          in m5\<lparr>mm_kernel := k', mm_state := s'\<rparr>)
   \<and> (\<exists>k' r m'. thread_alone (mixed_thread_step K6) 4 (Inserts f k MA_Enter, m6) = (Inserts f k' (MA_Done r), m')
       \<and> (k', xm_state m') = mixed_folio_added K6 f k (xm_state m6))
   \<and> (\<exists>m'. thread_alone (mixed_thread_step K6) 5 (Touches f k MC_Enter, m6) = (Touches f k MC_Done, m')
       \<and> (k, xm_state m') = mixed_folio_accessed K6 f k (xm_state m6))
   \<and> (\<exists>k' m'. thread_alone (mixed_thread_step K6) 4 (Drops f k ME_Enter, m6) = (Drops f k' ME_Done, m')
       \<and> (k', xm_state m') = mixed_folio_evicted K6 f k (xm_state m6))
   \<and> (\<exists>k' r s'. thread_alone (s3_sizes_step K2) 6 (Adds f k AS_Enter, s2) = (Adds f k' (AS_Done r), s')
       \<and> (k', s') = s3fifo_folio_added K2 f k s2)
   \<and> thread_alone (s3_sizes_step K2) 5 (Evicts f k ES_Ghost, s2) = (Evicts f k ES_Done, snd (s3fifo_folio_evicted K2 f k s2))"
  by (intro conjI sampling_thread_alone s3_access_alone s3_main_alone s3_small_alone lfu_thread_alone lhd_request_alone
      aging_alone scanning_alone referring_alone adding_alone removing_alone inserting_alone touching_alone dropping_alone
      s3_adding_alone s3_evicting_alone)
    simp

end
